(* ===== verification/Rucbase_Prelude.thy ===== *)
theory Rucbase_Prelude
  imports Main "HOL-Library.Word"
begin

text \<open>
  Shared vocabulary of the RUCBase development.

  \<^item> Machine types. A C++ \<^verbatim>\<open>int\<close>, \<^verbatim>\<open>page_id_t\<close>, \<^verbatim>\<open>lsn_t\<close> that is stored in memory or on disk is
    a 32 bit word (\<open>i32\<close>, read with \<^const>\<open>sint\<close>), the unsigned protocol integers are words of their width,
    a raw memory byte is an \<open>8 word\<close> and a \<^verbatim>\<open>std::string\<close> is a HOL \<^typ>\<open>string\<close>, whose characters are
    exactly the 256 byte values.
  \<^item> Fallible code returns a sum: \<open>Inl\<close> carries what the C++ code throws or reports, \<open>Inr\<close> the value.
    \<open>bindE\<close> sequences such computations and \<open>mapE\<close> is the loop that stops at the first error.
  \<^item> Byte images of integers: big endian (\<^verbatim>\<open>htons\<close>, \<^verbatim>\<open>htonl\<close> followed by a byte copy) over strings, and
    little endian (\<^verbatim>\<open>memcpy\<close> of an integer on the little endian hosts the project targets) over bytes.
  \<^item> The locale \<open>field_codec\<close>, the contract between an encoder and the decoder that reads at an offset.
\<close>

section \<open>Machine types\<close>

type_synonym byte = "8 word"
type_synonym i32 = "32 word"
type_synonym u8 = "8 word"
type_synonym u16 = "16 word"
type_synonym u32 = "32 word"
type_synonym u64 = "64 word"
type_synonym f32 = "32 word"

text \<open>Collections: facts about error sequencing, facts about byte layouts, and rules that evaluate on concrete input.\<close>

named_theorems result_simps
named_theorems layout_simps
named_theorems eval_simps

text \<open>Offsets stay numerals: \<open>off + 2\<close> is not unfolded to successors.\<close>

declare add_2_eq_Suc [simp del] add_2_eq_Suc' [simp del]

section \<open>Fallible computations\<close>

definition bindE :: "'e + 'a \<Rightarrow> ('a \<Rightarrow> 'e + 'b) \<Rightarrow> 'e + 'b" where
  "bindE m f = (case m of Inl e \<Rightarrow> Inl e | Inr x \<Rightarrow> f x)"

definition guardE :: "bool \<Rightarrow> 'e \<Rightarrow> 'e + unit" where
  "guardE b e = (if b then Inr () else Inl e)"

fun mapE :: "('a \<Rightarrow> 'e + 'b) \<Rightarrow> 'a list \<Rightarrow> 'e + 'b list" where
  "mapE f [] = Inr []"
| "mapE f (x # xs) = bindE (f x) (\<lambda>y. bindE (mapE f xs) (\<lambda>ys. Inr (y # ys)))"

fun foldE :: "('a \<Rightarrow> 's \<Rightarrow> 'e + 's) \<Rightarrow> 'a list \<Rightarrow> 's \<Rightarrow> 'e + 's" where
  "foldE f [] s = Inr s"
| "foldE f (x # xs) s = bindE (f x s) (foldE f xs)"

lemma bindE_simps [simp]:
  "bindE (Inl e) f = Inl e"
  "bindE (Inr x) f = f x"
  by (simp_all add: bindE_def)

lemma bindE_Inr_iff [simp, result_simps]:
  "bindE m f = Inr y \<longleftrightarrow> (\<exists>x. m = Inr x \<and> f x = Inr y)"
  by (cases m) simp_all

lemma bindE_Inl_iff [result_simps]:
  "bindE m f = Inl e \<longleftrightarrow> m = Inl e \<or> (\<exists>x. m = Inr x \<and> f x = Inl e)"
  by (cases m) simp_all

lemma bindE_assoc: "bindE (bindE m f) g = bindE m (\<lambda>x. bindE (f x) g)"
  by (cases m) simp_all

lemma bindE_cong [fundef_cong]:
  "m = m' \<Longrightarrow> (\<And>x. m' = Inr x \<Longrightarrow> f x = g x) \<Longrightarrow> bindE m f = bindE m' g"
  by (cases m) auto

lemma guardE_Inr_iff [simp, result_simps]: "guardE b e = Inr u \<longleftrightarrow> b"
  by (simp add: guardE_def)

lemma guardE_Inl_iff [simp, result_simps]: "guardE b e = Inl e' \<longleftrightarrow> \<not> b \<and> e = e'"
  by (simp add: guardE_def)

lemma mapE_Inr_length: "mapE f xs = Inr ys \<Longrightarrow> length ys = length xs"
  by (induction xs arbitrary: ys) auto

lemma mapE_Inr_iff: "mapE f xs = Inr ys \<longleftrightarrow> list_all2 (\<lambda>x y. f x = Inr y) xs ys"
  by (induction xs arbitrary: ys) (auto simp: list_all2_Cons1)

lemma mapE_Inr_map: "(\<And>x. x \<in> set xs \<Longrightarrow> f x = Inr (g x)) \<Longrightarrow> mapE f xs = Inr (map g xs)"
  by (induction xs) auto

lemma mapE_Inr_elem: "mapE f xs = Inr ys \<Longrightarrow> y \<in> set ys \<Longrightarrow> \<exists>x\<in>set xs. f x = Inr y"
  by (induction xs arbitrary: ys) auto

lemma mapE_Inr_pre: "mapE f xs = Inr ys \<Longrightarrow> x \<in> set xs \<Longrightarrow> \<exists>y\<in>set ys. f x = Inr y"
  by (induction xs arbitrary: ys) auto

lemma mapE_append:
  "mapE f (xs @ ys) = bindE (mapE f xs) (\<lambda>us. bindE (mapE f ys) (\<lambda>vs. Inr (us @ vs)))"
  by (induction xs) (auto simp: bindE_def split: sum.splits)

lemma mapE_cong [fundef_cong]:
  "xs = ys \<Longrightarrow> (\<And>x. x \<in> set ys \<Longrightarrow> f x = g x) \<Longrightarrow> mapE f xs = mapE g ys"
  by (induction xs arbitrary: ys) (auto intro!: bindE_cong)

lemma foldE_append: "foldE f (xs @ ys) s = bindE (foldE f xs s) (foldE f ys)"
  by (induction xs arbitrary: s) (simp_all add: bindE_def split: sum.split)

text \<open>An invariant of the loop body is an invariant of the loop.\<close>

lemma foldE_invariant:
  assumes step: "\<And>x s s'. x \<in> set xs \<Longrightarrow> I s \<Longrightarrow> f x s = Inr s' \<Longrightarrow> I s'"
    and run: "foldE f xs s = Inr t" and start: "I s"
  shows "I t"
  using assms
proof (induction xs arbitrary: s)
  case Nil
  then show ?case by simp
next
  case (Cons x xs)
  from Cons.prems(2) obtain s' where s': "f x s = Inr s'" and rest: "foldE f xs s' = Inr t"
    by auto
  have "I s'" using Cons.prems(1,3) s' by (meson list.set_intros(1))
  then show ?case using Cons.IH [of s'] Cons.prems(1) rest by (meson list.set_intros(2))
qed

text \<open>Forgetting why a computation failed.\<close>

definition opt_of :: "'e + 'a \<Rightarrow> 'a option" where
  "opt_of m = (case m of Inl e \<Rightarrow> None | Inr x \<Rightarrow> Some x)"

lemma opt_of_simps [simp]: "opt_of (Inl e) = None" "opt_of (Inr x) = Some x"
  by (simp_all add: opt_of_def)

lemma opt_of_eq_Some [simp]: "opt_of m = Some x \<longleftrightarrow> m = Inr x"
  by (cases m) simp_all

lemma opt_of_bindE: "opt_of (bindE m f) = (case opt_of m of None \<Rightarrow> None | Some x \<Rightarrow> opt_of (f x))"
  by (cases m) simp_all

lemma list_preimage: "set ys \<subseteq> f ` A \<Longrightarrow> \<exists>xs. ys = map f xs \<and> set xs \<subseteq> A"
proof (induction ys)
  case Nil
  then show ?case by simp
next
  case (Cons y ys)
  then obtain x xs where "y = f x" "x \<in> A" "ys = map f xs" "set xs \<subseteq> A" by auto
  then show ?case by (intro exI [of _ "x # xs"]) simp
qed

section \<open>Integer text\<close>

text \<open>\<^verbatim>\<open>std::to_string\<close> on integers.\<close>

fun string_of_nat :: "nat \<Rightarrow> string" where
  "string_of_nat n =
     (if n < 10 then [char_of (48 + n)] else string_of_nat (n div 10) @ [char_of (48 + n mod 10)])"

declare string_of_nat.simps [simp del]

definition string_of_int :: "int \<Rightarrow> string" where
  "string_of_int i = (if i < 0 then CHR ''-'' # string_of_nat (nat (- i)) else string_of_nat (nat i))"

lemma string_of_nat_nonempty [simp]: "string_of_nat n \<noteq> []"
  by (subst string_of_nat.simps) simp

lemma string_of_int_nonempty [simp]: "string_of_int i \<noteq> []"
  by (simp add: string_of_int_def)

section \<open>Byte images of integers\<close>

fun be_bytes :: "nat \<Rightarrow> nat \<Rightarrow> string" where
  "be_bytes 0 n = []"
| "be_bytes (Suc k) n = be_bytes k (n div 256) @ [char_of (n mod 256)]"

definition be_val :: "string \<Rightarrow> nat" where
  "be_val s = foldl (\<lambda>a c. a * 256 + of_char c) 0 s"

fun le_bytes :: "nat \<Rightarrow> nat \<Rightarrow> byte list" where
  "le_bytes 0 n = []"
| "le_bytes (Suc k) n = word_of_nat (n mod 256) # le_bytes k (n div 256)"

fun le_val :: "byte list \<Rightarrow> nat" where
  "le_val [] = 0"
| "le_val (b # bs) = unat b + 256 * le_val bs"

lemma length_be_bytes [simp, layout_simps]: "length (be_bytes k n) = k"
  by (induction k arbitrary: n) simp_all

lemma length_le_bytes [simp, layout_simps]: "length (le_bytes k n) = k"
  by (induction k arbitrary: n) simp_all

lemma be_bytes_numeral [eval_simps]:
  "be_bytes (numeral k) n = be_bytes (pred_numeral k) (n div 256) @ [char_of (n mod 256)]"
  by (simp only: numeral_eq_Suc [of k] be_bytes.simps)

lemma le_bytes_numeral [eval_simps]:
  "le_bytes (numeral k) n = word_of_nat (n mod 256) # le_bytes (pred_numeral k) (n div 256)"
  by (simp only: numeral_eq_Suc [of k] le_bytes.simps)

lemma be_val_snoc: "be_val (s @ [c]) = be_val s * 256 + of_char c"
  by (simp add: be_val_def)

lemma mod_pow_Suc: "n mod (256 * 256 ^ k) = 256 * (n div 256 mod 256 ^ k) + n mod (256::nat)"
  by (simp add: mod_mult2_eq)

lemma be_val_be_bytes [layout_simps]: "be_val (be_bytes k n) = n mod 256 ^ k"
proof (induction k arbitrary: n)
  case 0
  then show ?case by (simp add: be_val_def)
next
  case (Suc k)
  then show ?case by (simp add: be_val_snoc mod_pow_Suc)
qed

lemma be_bytes_be_val: "be_bytes (length s) (be_val s) = s"
proof (induction s rule: rev_induct)
  case Nil
  then show ?case by simp
next
  case (snoc c s)
  have lt: "of_char c < (256::nat)" by (rule nat_of_char_less_256)
  have "(be_val s * 256 + of_char c) div 256 = be_val s"
    using lt by simp
  moreover have "(be_val s * 256 + of_char c) mod 256 = of_char c"
    using lt by simp
  ultimately show ?case using snoc by (simp add: be_val_snoc)
qed

lemma digit_bound:
  fixes a b m :: nat
  assumes "b < 256" "a < m"
  shows "a * 256 + b < m * 256"
proof -
  have "Suc a * 256 \<le> m * 256" using assms(2) by (intro mult_le_mono1) simp
  with assms(1) show ?thesis by simp
qed

lemma be_val_bound: "be_val s < 256 ^ length s"
proof (induction s rule: rev_induct)
  case Nil
  then show ?case by (simp add: be_val_def)
next
  case (snoc c s)
  then show ?case
    using digit_bound [OF nat_of_char_less_256 snoc.IH] by (simp add: be_val_snoc mult.commute)
qed

lemma le_val_le_bytes [layout_simps]: "le_val (le_bytes k n) = n mod 256 ^ k"
proof (induction k arbitrary: n)
  case 0
  then show ?case by simp
next
  case (Suc k)
  have "unat (word_of_nat (n mod 256) :: byte) = n mod 256"
    by (simp add: unat_of_nat)
  with Suc show ?case by (simp add: mod_pow_Suc)
qed

lemma le_bytes_le_val: "le_bytes (length bs) (le_val bs) = bs"
proof (induction bs)
  case Nil
  then show ?case by simp
next
  case (Cons b bs)
  have lt: "unat b < 256" using unsigned_less [of b] by simp
  then have "(unat b + 256 * le_val bs) mod 256 = unat b"
    and "(unat b + 256 * le_val bs) div 256 = le_val bs"
    by simp_all
  with Cons show ?case by simp
qed

lemma sint_of_small: "n < 2147483648 \<Longrightarrow> sint (word_of_nat n :: i32) = int n"
  by (simp add: signed_of_nat signed_take_bit_int_eq_self)

lemma sint_of_small_int: "- 2147483648 \<le> i \<Longrightarrow> i < 2147483648 \<Longrightarrow> sint (word_of_int i :: i32) = i"
  by (simp add: signed_of_int signed_take_bit_int_eq_self)

lemma le_word_roundtrip:
  fixes w :: i32
  shows "word_of_nat (le_val (le_bytes 4 (unat w))) = w"
proof -
  have "unat w < 2 ^ LENGTH(32)" by (rule unsigned_less)
  then show ?thesis by (simp add: le_val_le_bytes)
qed

text \<open>Bytes of a \<^verbatim>\<open>std::string\<close> and back: \<^verbatim>\<open>char\<close> and \<^verbatim>\<open>unsigned char\<close> views of the same storage.\<close>

definition byte_of_char :: "char \<Rightarrow> byte" where
  "byte_of_char c = word_of_nat (of_char c)"

definition char_of_byte :: "byte \<Rightarrow> char" where
  "char_of_byte b = char_of (unat b)"

lemma char_of_byte_of_char [simp]: "char_of_byte (byte_of_char c) = c"
proof -
  have "of_char c < (256::nat)" by (rule nat_of_char_less_256)
  then have "unat (word_of_nat (of_char c) :: byte) = of_char c"
    by (simp add: unat_of_nat)
  then show ?thesis by (simp add: byte_of_char_def char_of_byte_def)
qed

lemma byte_of_char_of_byte [simp]: "byte_of_char (char_of_byte b) = b"
proof -
  have "unat b < 256" using unsigned_less [of b] by simp
  then have "of_char (char_of (unat b)) = unat b" by simp
  then show ?thesis by (simp add: byte_of_char_def char_of_byte_def)
qed

section \<open>The contract of a field codec\<close>

text \<open>
  A writer \<open>put\<close> appends the image of a value, a reader \<open>get\<close> takes a buffer and an offset and returns
  the value with the offset behind it. The reader recovers what the writer wrote wherever it stands in
  the buffer, never reads behind the end, and accepts nothing but the image of the value it returns.
  \<open>ok\<close> restricts the values the writer is used for.
\<close>

locale field_codec =
  fixes ok :: "'a \<Rightarrow> bool"
    and put :: "'a \<Rightarrow> 'b list"
    and get :: "'b list \<Rightarrow> nat \<Rightarrow> ('a \<times> nat) option"
  assumes get_put: "ok x \<Longrightarrow> get (pre @ put x @ post) (length pre) = Some (x, length pre + length (put x))"
    and get_sound: "get buf off = Some (x, off') \<Longrightarrow>
      ok x \<and> off' = off + length (put x) \<and> off' \<le> length buf \<and> take (length (put x)) (drop off buf) = put x"
begin

text \<open>A reader never moves backwards or past the end, and the writer is injective.\<close>

lemma get_bounds: "get buf off = Some (x, off') \<Longrightarrow> off \<le> off' \<and> off' \<le> length buf"
  using get_sound by fastforce

lemma put_inj: "ok x \<Longrightarrow> ok y \<Longrightarrow> put x = put y \<Longrightarrow> x = y"
  using get_put [of x "[]" "[]"] get_put [of y "[]" "[]"] by simp

text \<open>Two fields that start the same buffer tail are the same field: the format is prefix free.\<close>

lemma put_prefix_free:
  assumes "ok x" "ok y" "put x @ r = put y @ s"
  shows "x = y \<and> r = s"
proof -
  have "get (put x @ r) 0 = Some (x, length (put x))"
    using get_put [OF assms(1), of "[]" r] by simp
  moreover have "get (put y @ s) 0 = Some (y, length (put y))"
    using get_put [OF assms(2), of "[]" s] by simp
  ultimately show ?thesis using assms(3) by simp
qed

end

text \<open>
  A counted loop over a reader (\<open>for (i = 0; i < n; ++i)\<close> with an early return), and the image of the
  fields it reads.
\<close>

fun get_n :: "('b list \<Rightarrow> nat \<Rightarrow> ('a \<times> nat) option) \<Rightarrow> nat \<Rightarrow> 'b list \<Rightarrow> nat \<Rightarrow> ('a list \<times> nat) option" where
  "get_n get 0 buf off = Some ([], off)"
| "get_n get (Suc n) buf off =
     (case get buf off of
        None \<Rightarrow> None
      | Some (x, off') \<Rightarrow>
          (case get_n get n buf off' of None \<Rightarrow> None | Some (xs, off'') \<Rightarrow> Some (x # xs, off'')))"

context field_codec
begin

lemma get_n_put:
  assumes "\<forall>x\<in>set xs. ok x"
  shows "get_n get (length xs) (pre @ concat (map put xs) @ post) (length pre) =
    Some (xs, length pre + length (concat (map put xs)))"
  using assms
proof (induction xs arbitrary: pre)
  case Nil
  then show ?case by simp
next
  case (Cons x xs)
  have first: "get (pre @ put x @ concat (map put xs) @ post) (length pre) = Some (x, length (pre @ put x))"
    using get_put [of x pre "concat (map put xs) @ post"] Cons.prems by simp
  have "get_n get (length xs) ((pre @ put x) @ concat (map put xs) @ post) (length (pre @ put x)) =
      Some (xs, length (pre @ put x) + length (concat (map put xs)))"
    using Cons.IH [of "pre @ put x"] Cons.prems by simp
  with first show ?case by simp
qed

lemma get_n_sound:
  assumes "get_n get n buf off = Some (xs, off')" "off \<le> length buf"
  shows "length xs = n \<and> (\<forall>x\<in>set xs. ok x) \<and> off' = off + length (concat (map put xs)) \<and> off' \<le> length buf \<and>
    take (length (concat (map put xs))) (drop off buf) = concat (map put xs)"
  using assms
proof (induction n arbitrary: off xs)
  case 0
  then show ?case by auto
next
  case (Suc n)
  from Suc.prems obtain x o1 ys where g: "get buf off = Some (x, o1)"
    and r: "get_n get n buf o1 = Some (ys, off')" and xs: "xs = x # ys"
    by (auto split: option.splits prod.splits)
  have gs: "ok x \<and> o1 = off + length (put x) \<and> o1 \<le> length buf \<and> take (length (put x)) (drop off buf) = put x"
    using get_sound [OF g] by simp
  have ih: "length ys = n \<and> (\<forall>x\<in>set ys. ok x) \<and> off' = o1 + length (concat (map put ys)) \<and> off' \<le> length buf \<and>
    take (length (concat (map put ys))) (drop o1 buf) = concat (map put ys)"
    using Suc.IH [OF r] gs by simp
  have "drop o1 buf = drop (length (put x)) (drop off buf)"
    using gs by (simp add: add.commute)
  then have "take (length (put x) + length (concat (map put ys))) (drop off buf) = put x @ concat (map put ys)"
    using gs ih by (simp add: take_add)
  with gs ih xs show ?case by simp
qed

end

end
