(* ===== verification/Common.thy ===== *)
theory Common
  imports Rucbase_Prelude
begin

text \<open>
  The shared headers \<^verbatim>\<open>src/src/common/\<close> and \<^verbatim>\<open>src/src/record/rm_defs.h\<close>: the exception classes of
  \<^verbatim>\<open>errors.h\<close> with the messages they build, \<^verbatim>\<open>Rid\<close> and \<^verbatim>\<open>ColType\<close> of \<^verbatim>\<open>defs.h\<close>, the record buffer
  \<^verbatim>\<open>RmRecord\<close> with its ownership rules, and \<^verbatim>\<open>TabCol\<close>, \<^verbatim>\<open>Value\<close>, \<^verbatim>\<open>CompOp\<close>, \<^verbatim>\<open>Condition\<close> and \<^verbatim>\<open>SetClause\<close> of
  \<^verbatim>\<open>common.h\<close>. The lemmas show that every operation of \<^verbatim>\<open>RmRecord\<close> keeps its ownership invariant, that a
  serialised record is read back, and what \<^verbatim>\<open>Value::init_raw\<close> leaves in the raw buffer.
\<close>

section \<open>Exceptions (errors.h)\<close>

text \<open>
  One constructor per class. \<open>UnixError\<close> carries the text of \<^verbatim>\<open>strerror(errno)\<close>. The last three stand for
  what is thrown outside the hierarchy: the transaction manager's abort exception of \<^verbatim>\<open>txn_defs.h\<close>, a standard library
  exception with its message, and a failed \<^verbatim>\<open>assert\<close> of a debug build.
\<close>

datatype AbortReason = LOCK_ON_SHIRINKING | UPGRADE_CONFLICT | DEADLOCK_PREVENTION

datatype rmdb_error =
    RMDBError string
  | InternalError string
  | NotImplementedError string
  | UnixError string
  | FileNotOpenError int
  | FileNotClosedError string
  | FileExistsError string
  | FileNotFoundError string
  | RecordNotFoundError int int
  | InvalidRecordSizeError int
  | InvalidColLengthError int
  | IndexEntryNotFoundError
  | DuplicateKeyError
  | DatabaseNotFoundError string
  | DatabaseExistsError string
  | TableNotFoundError string
  | TableExistsError string
  | ColumnNotFoundError string
  | ColumnExistsError string
  | IndexNotFoundError string "string list"
  | IndexExistsError string "string list"
  | InvalidKnobError string string
  | InvalidValueCountError
  | StringOverflowError
  | IncompatibleTypeError string string
  | AmbiguousColumnError string
  | PageNotExistError string int
  | TransactionAbortException int AbortReason
  | StdException string
  | AssertionFailure

type_synonym 'a result = "rmdb_error + 'a"

text \<open>The loop of \<^verbatim>\<open>format_index_name\<close>: the separator stands before every name but the first.\<close>

fun join_names :: "string \<Rightarrow> string list \<Rightarrow> string" where
  "join_names sep [] = []"
| "join_names sep [x] = x"
| "join_names sep (x # y # zs) = x @ sep @ join_names sep (y # zs)"

definition format_index_name :: "string \<Rightarrow> string list \<Rightarrow> string" where
  "format_index_name tab_name col_names = tab_name @ ''.('' @ join_names '', '' col_names @ '')''"

definition rmdb_message :: "string \<Rightarrow> string" where
  "rmdb_message msg = ''Error: '' @ msg"

fun what :: "rmdb_error \<Rightarrow> string" where
  "what (RMDBError msg) = rmdb_message msg"
| "what (InternalError msg) = rmdb_message msg"
| "what (NotImplementedError component) = rmdb_message (component @ '' is not implemented'')"
| "what (UnixError err) = rmdb_message err"
| "what (FileNotOpenError fd) = rmdb_message (''Invalid file descriptor: '' @ string_of_int fd)"
| "what (FileNotClosedError filename) = rmdb_message (''File is opened: '' @ filename)"
| "what (FileExistsError filename) = rmdb_message (''File already exists: '' @ filename)"
| "what (FileNotFoundError filename) = rmdb_message (''File not found: '' @ filename)"
| "what (RecordNotFoundError page_no slot_no) =
     rmdb_message (''Record not found: ('' @ string_of_int page_no @ '','' @ string_of_int slot_no @ '')'')"
| "what (InvalidRecordSizeError record_size) =
     rmdb_message (''Invalid record size: '' @ string_of_int record_size)"
| "what (InvalidColLengthError col_len) = rmdb_message (''Invalid column length: '' @ string_of_int col_len)"
| "what IndexEntryNotFoundError = rmdb_message ''Index entry not found''"
| "what DuplicateKeyError = rmdb_message ''Duplicate key on unique index''"
| "what (DatabaseNotFoundError db_name) = rmdb_message (''Database not found: '' @ db_name)"
| "what (DatabaseExistsError db_name) = rmdb_message (''Database already exists: '' @ db_name)"
| "what (TableNotFoundError tab_name) = rmdb_message (''Table not found: '' @ tab_name)"
| "what (TableExistsError tab_name) = rmdb_message (''Table already exists: '' @ tab_name)"
| "what (ColumnNotFoundError col_name) = rmdb_message (''Column not found: '' @ col_name)"
| "what (ColumnExistsError col_name) = rmdb_message (''Column already exists: '' @ col_name)"
| "what (IndexNotFoundError tab_name col_names) =
     rmdb_message (''Index not found: '' @ format_index_name tab_name col_names)"
| "what (IndexExistsError tab_name col_names) =
     rmdb_message (''Index already exists: '' @ format_index_name tab_name col_names)"
| "what (InvalidKnobError name value) = rmdb_message (''Invalid setting: '' @ name @ '' = '' @ value)"
| "what InvalidValueCountError = rmdb_message ''Invalid value count''"
| "what StringOverflowError = rmdb_message ''String is too long''"
| "what (IncompatibleTypeError lhs rhs) =
     rmdb_message (''Incompatible type error: lhs '' @ lhs @ '', rhs '' @ rhs)"
| "what (AmbiguousColumnError col_name) = rmdb_message (''Ambiguous column: '' @ col_name)"
| "what (PageNotExistError table_name page_no) =
     rmdb_message (''Page '' @ string_of_int page_no @ '' in table '' @ table_name @ ''not exits'')"
| "what (TransactionAbortException txn_id reason) = ''std::exception''"
| "what (StdException msg) = msg"
| "what AssertionFailure = []"

text \<open>\<^verbatim>\<open>TransactionAbortException::info\<close>.\<close>

fun abort_info :: "int \<Rightarrow> AbortReason \<Rightarrow> string" where
  "abort_info txn_id LOCK_ON_SHIRINKING =
     ''Transaction '' @ string_of_int txn_id @ '' aborted because it cannot request locks on SHRINKING phase\<newline>''"
| "abort_info txn_id UPGRADE_CONFLICT =
     ''Transaction '' @ string_of_int txn_id @ '' aborted because another transaction is waiting for upgrading\<newline>''"
| "abort_info txn_id DEADLOCK_PREVENTION = ''Transaction '' @ string_of_int txn_id @ '' aborted for deadlock prevention\<newline>''"

section \<open>Constants and small types (config.h, defs.h)\<close>

definition PAGE_SIZE :: nat where "PAGE_SIZE = 4096"
definition INVALID_PAGE_ID :: int where "INVALID_PAGE_ID = -1"
definition INVALID_TXN_ID :: int where "INVALID_TXN_ID = -1"
definition INVALID_LSN :: int where "INVALID_LSN = -1"
definition RM_MAX_RECORD_SIZE :: int where "RM_MAX_RECORD_SIZE = 512"

record Rid =
  page_no :: int
  slot_no :: int

definition Rid_default :: Rid where "Rid_default = \<lparr>page_no = -1, slot_no = -1\<rparr>"

definition rid_eq :: "Rid \<Rightarrow> Rid \<Rightarrow> bool" where
  "rid_eq x y \<longleftrightarrow> page_no x = page_no y \<and> slot_no x = slot_no y"

lemma rid_eq_iff [simp]: "rid_eq x y \<longleftrightarrow> x = y"
  by (cases x, cases y) (simp add: rid_eq_def)

datatype ColType = TYPE_INT | TYPE_FLOAT | TYPE_STRING

fun coltype2str :: "ColType \<Rightarrow> string" where
  "coltype2str TYPE_INT = ''INT''"
| "coltype2str TYPE_FLOAT = ''FLOAT''"
| "coltype2str TYPE_STRING = ''STRING''"

text \<open>The enumeration's ordinals, as a cast to \<^verbatim>\<open>int\<close> gives them.\<close>

fun coltype_ord :: "ColType \<Rightarrow> int" where
  "coltype_ord TYPE_INT = 0"
| "coltype_ord TYPE_FLOAT = 1"
| "coltype_ord TYPE_STRING = 2"

lemma coltype_ord_inj: "coltype_ord s = coltype_ord t \<longleftrightarrow> s = t"
  by (cases s; cases t) simp_all

lemma coltype2str_inj: "coltype2str s = coltype2str t \<longleftrightarrow> s = t"
  by (cases s; cases t) simp_all

section \<open>Record buffers (rm_defs.h)\<close>

text \<open>
  \<^verbatim>\<open>data\<close> is \<open>None\<close> for the null pointer. Source buffers are byte lists at least as long as the code
  reads; reading behind them is undefined in C++, and the lemmas assume enough bytes.
\<close>

record RmRecord =
  rec_data :: "byte list option"
  rec_size :: int
  rec_allocated :: bool

definition RmRecord_null :: RmRecord where
  "RmRecord_null = \<lparr>rec_data = None, rec_size = 0, rec_allocated = False\<rparr>"

text \<open>The sized constructor leaves the new buffer uninitialised: its content is the argument \<open>heap\<close>.\<close>

definition RmRecord_sized :: "byte list \<Rightarrow> int \<Rightarrow> RmRecord result" where
  "RmRecord_sized heap size' =
     (if size' < 0 then Inl (InvalidRecordSizeError size')
      else if size' > 0
        then Inr \<lparr>rec_data = Some (take (nat size') heap), rec_size = size', rec_allocated = True\<rparr>
        else Inr \<lparr>rec_data = None, rec_size = size', rec_allocated = False\<rparr>)"

definition RmRecord_from :: "int \<Rightarrow> byte list option \<Rightarrow> RmRecord result" where
  "RmRecord_from size' data' =
     (if size' < 0 then Inl (InvalidRecordSizeError size')
      else if size' > 0 then
        (case data' of
           None \<Rightarrow> Inl (InternalError ''RmRecord: null source data'')
         | Some src \<Rightarrow>
             Inr \<lparr>rec_data = Some (take (nat size') src), rec_size = size', rec_allocated = True\<rparr>)
      else Inr \<lparr>rec_data = None, rec_size = size', rec_allocated = False\<rparr>)"

definition SetData :: "byte list option \<Rightarrow> RmRecord \<Rightarrow> RmRecord result" where
  "SetData data' r =
     (if rec_size r > 0 then
        (case data' of
           None \<Rightarrow> Inl (InternalError ''RmRecord: null source data'')
         | Some src \<Rightarrow> Inr (r\<lparr>rec_data := Some (take (nat (rec_size r)) src)\<rparr>))
      else Inr r)"

definition Deserialize :: "byte list option \<Rightarrow> RmRecord \<Rightarrow> RmRecord result" where
  "Deserialize data' r =
     (case data' of
        None \<Rightarrow> Inl (InternalError ''RmRecord: null serialized data'')
      | Some src \<Rightarrow>
          let decoded_size = sint (word_of_nat (le_val (take 4 src)) :: i32) in
          if decoded_size < 0 \<or> decoded_size > RM_MAX_RECORD_SIZE
          then Inl (InvalidRecordSizeError decoded_size)
          else let new_data = (if decoded_size = 0 then None
                               else Some (take (nat decoded_size) (drop 4 src))) in
               Inr \<lparr>rec_data = new_data, rec_size = decoded_size, rec_allocated = (new_data \<noteq> None)\<rparr>)"

definition copy_data :: "RmRecord \<Rightarrow> byte list option result" where
  "copy_data other =
     (if rec_size other < 0 \<or> (rec_size other > 0 \<and> rec_data other = None)
      then Inl (InternalError ''RmRecord: invalid source record'')
      else if rec_size other = 0 then Inr None
      else Inr (map_option (take (nat (rec_size other))) (rec_data other)))"

text \<open>The copy constructor, and copy assignment from another object: both throw before they change anything.\<close>

definition assign_from :: "RmRecord \<Rightarrow> RmRecord result" where
  "assign_from other =
     bindE (copy_data other) (\<lambda>d.
       Inr \<lparr>rec_data = d, rec_size = rec_size other, rec_allocated = (d \<noteq> None)\<rparr>)"

text \<open>The move constructor: the new object and what is left of the source.\<close>

definition move_from :: "RmRecord \<Rightarrow> RmRecord \<times> RmRecord" where
  "move_from other = (other, \<lparr>rec_data = None, rec_size = 0, rec_allocated = False\<rparr>)"

text \<open>The assignment operators; \<open>same\<close> tells whether source and target are the same object.\<close>

definition copy_assign :: "bool \<Rightarrow> RmRecord \<Rightarrow> RmRecord \<Rightarrow> RmRecord result" where
  "copy_assign same this other =
     (if \<not> same then bindE (copy_data other) (\<lambda>new_data.
        Inr \<lparr>rec_data = new_data, rec_size = rec_size other, rec_allocated = (new_data \<noteq> None)\<rparr>)
      else Inr this)"

definition move_assign :: "bool \<Rightarrow> RmRecord \<Rightarrow> RmRecord \<Rightarrow> RmRecord \<times> RmRecord" where
  "move_assign same this other =
     (if \<not> same then (other, \<lparr>rec_data = None, rec_size = 0, rec_allocated = False\<rparr>) else (this, this))"

definition release :: "RmRecord \<Rightarrow> RmRecord" where
  "release r = r\<lparr>rec_allocated := False, rec_data := None, rec_size := 0\<rparr>"

text \<open>Ownership: a non-empty record owns a buffer of exactly its size, an empty one owns nothing.\<close>

definition rec_ok :: "RmRecord \<Rightarrow> bool" where
  "rec_ok r \<longleftrightarrow>
     (case rec_data r of
        None \<Rightarrow> rec_size r = 0 \<and> \<not> rec_allocated r
      | Some d \<Rightarrow> rec_size r > 0 \<and> rec_allocated r \<and> int (length d) = rec_size r)"

lemma rec_ok_null [simp]: "rec_ok RmRecord_null" "rec_ok (release r)"
  by (simp_all add: rec_ok_def RmRecord_null_def release_def)

lemma RmRecord_sized_ok:
  "RmRecord_sized heap n = Inr r \<Longrightarrow> n \<le> int (length heap) \<Longrightarrow> rec_ok r \<and> rec_size r = n"
  by (auto simp: RmRecord_sized_def rec_ok_def split: if_splits)

lemma RmRecord_from_ok:
  "RmRecord_from n (Some src) = Inr r \<Longrightarrow> n \<le> int (length src) \<Longrightarrow> rec_ok r \<and> rec_size r = n"
  by (auto simp: RmRecord_from_def rec_ok_def split: if_splits)

lemma SetData_ok:
  "rec_ok r \<Longrightarrow> SetData (Some src) r = Inr r' \<Longrightarrow> rec_size r \<le> int (length src) \<Longrightarrow>
   rec_ok r' \<and> rec_size r' = rec_size r"
  by (auto simp: SetData_def rec_ok_def split: if_splits option.splits)

lemma Deserialize_ok:
  assumes "Deserialize (Some src) r = Inr r'"
    and "4 + sint (word_of_nat (le_val (take 4 src)) :: i32) \<le> int (length src)"
  shows "rec_ok r' \<and> rec_size r' \<le> RM_MAX_RECORD_SIZE"
  using assms by (auto simp: Deserialize_def rec_ok_def Let_def split: if_splits)

lemma assign_from_copy: "rec_ok r \<Longrightarrow> assign_from r = Inr r"
  by (cases r) (auto simp: assign_from_def copy_data_def rec_ok_def split: option.splits)

lemma copy_assign_copy: "rec_ok r \<Longrightarrow> copy_assign False this r = Inr r"
  using assign_from_copy by (simp add: copy_assign_def assign_from_def)

lemma move_assign_ok: "rec_ok this \<Longrightarrow> rec_ok r \<Longrightarrow> move_assign same this r = (r', old) \<Longrightarrow> rec_ok r' \<and> rec_ok old"
  by (auto simp: move_assign_def rec_ok_def split: if_splits)

lemma move_from_ok: "rec_ok r \<Longrightarrow> move_from r = (r', old) \<Longrightarrow> r' = r \<and> rec_ok r' \<and> rec_ok old"
  by (auto simp: move_from_def rec_ok_def)

section \<open>Columns, values and conditions (common.h)\<close>

record TabCol =
  tab_name :: string
  col_name :: string

text \<open>
  The union of \<^verbatim>\<open>int_val\<close> and \<^verbatim>\<open>float_val\<close> is one 32 bit cell, \<open>num_val\<close>: the integer, or the bits of the
  float. \<open>raw\<close> is the content of the record the shared pointer points to.
\<close>

record Value =
  val_type :: ColType
  num_val :: i32
  str_val :: string
  raw :: "byte list option"

definition Value_empty :: Value where
  "Value_empty = \<lparr>val_type = TYPE_INT, num_val = 0, str_val = [], raw = None\<rparr>"

definition set_int :: "i32 \<Rightarrow> Value \<Rightarrow> Value" where
  "set_int int_val' v = v\<lparr>val_type := TYPE_INT, num_val := int_val'\<rparr>"

definition set_float :: "f32 \<Rightarrow> Value \<Rightarrow> Value" where
  "set_float float_val' v = v\<lparr>val_type := TYPE_FLOAT, num_val := float_val'\<rparr>"

definition set_str :: "string \<Rightarrow> Value \<Rightarrow> Value" where
  "set_str str_val' v = v\<lparr>val_type := TYPE_STRING, str_val := str_val'\<rparr>"

text \<open>\<^verbatim>\<open>memset\<close> to zero followed by \<^verbatim>\<open>memcpy\<close> of the string.\<close>

definition pad_string :: "int \<Rightarrow> string \<Rightarrow> byte list" where
  "pad_string len s = map byte_of_char s @ replicate (nat len - length s) 0"

definition init_raw :: "int \<Rightarrow> Value \<Rightarrow> Value result" where
  "init_raw len v =
     (if raw v \<noteq> None then Inl AssertionFailure
      else if len < 0 then Inl (InvalidRecordSizeError len)
      else (case val_type v of
          TYPE_INT \<Rightarrow>
            (if len \<noteq> 4 then Inl AssertionFailure
             else Inr (v\<lparr>raw := Some (le_bytes 4 (unat (num_val v)))\<rparr>))
        | TYPE_FLOAT \<Rightarrow>
            (if len \<noteq> 4 then Inl AssertionFailure
             else Inr (v\<lparr>raw := Some (le_bytes 4 (unat (num_val v)))\<rparr>))
        | TYPE_STRING \<Rightarrow>
            (if len < int (length (str_val v)) then Inl StringOverflowError
             else Inr (v\<lparr>raw := Some (pad_string len (str_val v))\<rparr>))))"

datatype CompOp = OP_EQ | OP_NE | OP_LT | OP_GT | OP_LE | OP_GE

record Condition =
  lhs_col :: TabCol
  cond_op :: CompOp
  is_rhs_val :: bool
  rhs_col :: TabCol
  rhs_val :: Value

record SetClause =
  set_lhs :: TabCol
  set_rhs :: Value

lemma length_pad_string [layout_simps]: "int (length s) \<le> len \<Longrightarrow> int (length (pad_string len s)) = len"
  by (simp add: pad_string_def)

lemma init_raw_length:
  "init_raw len v = Inr v' \<Longrightarrow> \<exists>bs. raw v' = Some bs \<and> int (length bs) = len"
  by (auto simp: init_raw_def pad_string_def split: if_splits ColType.splits)

lemma init_raw_keeps:
  "init_raw len v = Inr v' \<Longrightarrow>
   val_type v' = val_type v \<and> num_val v' = num_val v \<and> str_val v' = str_val v"
  by (auto simp: init_raw_def split: if_splits ColType.splits)

section \<open>Properties\<close>

text \<open>
  A serialised record is read back. The image that the log writes for a record, its size as a 32 bit
  integer followed by its bytes, is deserialised to that record into any target, whatever follows the image;
  the target owns a buffer of exactly the record's size, and no record above 512 bytes is ever accepted.
\<close>

theorem record_deserialize:
  assumes "length d \<le> 512"
  shows "Deserialize (Some (le_bytes 4 (length d) @ d @ rest)) r =
      Inr \<lparr>rec_data = (if d = [] then None else Some d), rec_size = int (length d), rec_allocated = (d \<noteq> [])\<rparr> \<and>
    (\<forall>src r'. Deserialize (Some src) r = Inr r' \<longrightarrow> 0 \<le> rec_size r' \<and> rec_size r' \<le> 512)"
proof -
  have v: "le_val (le_bytes 4 (length d)) = length d" using assms by (simp add: le_val_le_bytes)
  have "sint (word_of_nat (length d) :: i32) = int (length d)"
    using assms by (simp add: sint_of_small)
  then show ?thesis
    using v assms by (auto simp: Deserialize_def RM_MAX_RECORD_SIZE_def Let_def split: if_splits)
qed

theorem record_deserialize_witness:
  "Deserialize (Some ([3, 0, 0, 0] @ [7, 8, 9] @ [1])) RmRecord_null =
     Inr \<lparr>rec_data = Some [7, 8, 9], rec_size = 3, rec_allocated = True\<rparr>"
  using record_deserialize [of "[7, 8, 9]" "[1]" RmRecord_null] by (simp add: eval_simps)

text \<open>
  Raw values. \<^verbatim>\<open>Value::init_raw\<close> fills the raw buffer with exactly the column's length: the little endian image
  of the number, or the string followed by zero bytes, from which the string is recovered; a string longer than
  the column is refused, and so is every negative length.
\<close>

theorem init_raw_image:
  assumes "raw v = None"
  shows "(init_raw len v = Inr v' \<longrightarrow>
      (\<exists>bs. raw v' = Some bs \<and> int (length bs) = len \<and>
        (val_type v \<noteq> TYPE_STRING \<longrightarrow> word_of_nat (le_val bs) = num_val v) \<and>
        (val_type v = TYPE_STRING \<longrightarrow> map char_of_byte (take (length (str_val v)) bs) = str_val v \<and>
          (\<forall>b\<in>set (drop (length (str_val v)) bs). b = 0)))) \<and>
    (val_type v = TYPE_STRING \<and> 0 \<le> len \<longrightarrow>
      (init_raw len v = Inl StringOverflowError \<longleftrightarrow> len < int (length (str_val v)))) \<and>
    (len < 0 \<longrightarrow> init_raw len v = Inl (InvalidRecordSizeError len))"
  using assms le_word_roundtrip [of "num_val v"]
  by (cases "val_type v") (auto simp: init_raw_def pad_string_def comp_def split: if_splits)

theorem init_raw_image_witness:
  "\<exists>bs. raw (Value_empty\<lparr>val_type := TYPE_STRING, str_val := ''ab'', raw := Some [97, 98, 0]\<rparr>) = Some bs \<and> int (length bs) = 3"
proof -
  have "init_raw 3 (Value_empty\<lparr>val_type := TYPE_STRING, str_val := ''ab''\<rparr>) =
      Inr (Value_empty\<lparr>val_type := TYPE_STRING, str_val := ''ab'', raw := Some [97, 98, 0]\<rparr>)"
    by (simp add: init_raw_def Value_empty_def pad_string_def byte_of_char_def)
  with init_raw_image [of "Value_empty\<lparr>val_type := TYPE_STRING, str_val := ''ab''\<rparr>" 3
      "Value_empty\<lparr>val_type := TYPE_STRING, str_val := ''ab'', raw := Some [97, 98, 0]\<rparr>"]
  show ?thesis by (auto simp: Value_empty_def)
qed

end
