(* ===== verification/Catalog.thy ===== *)
theory Catalog
  imports Common "HOL-Library.List_Lexorder" "HOL-Library.Char_ord"
begin

text \<open>
  The catalog of \<^verbatim>\<open>src/src/system/sm_meta.h\<close> and \<^verbatim>\<open>sm_meta.cpp\<close>: column, index, table and database metadata,
  the lookups the other components use, and the JSON form of \<^verbatim>\<open>db.meta\<close>. The JSON library is a parameter: its
  values are the datatype \<open>json\<close>, its parser and printer are functions the theorems quantify over. The lemmas
  show that the reader accepts only well formed catalogs, that a well formed catalog survives being written and
  read, and that the derived fields are rebuilt exactly.
\<close>

section \<open>Ordered maps\<close>

text \<open>
  \<^verbatim>\<open>std::map<std::string, T>\<close> as an association list in ascending key order, which is the order of its
  iteration. The order on strings compares bytes as unsigned numbers, as \<^verbatim>\<open>std::string\<close> does.
\<close>

type_synonym 'v smap = "(string \<times> 'v) list"

definition smap_ok :: "'v smap \<Rightarrow> bool" where
  "smap_ok m \<longleftrightarrow> sorted_wrt (<) (map fst m)"

fun smap_set :: "string \<Rightarrow> 'v \<Rightarrow> 'v smap \<Rightarrow> 'v smap" where
  "smap_set k v [] = [(k, v)]"
| "smap_set k v ((k', v') # m) =
     (if k < k' then (k, v) # (k', v') # m
      else if k = k' then (k, v) # m
      else (k', v') # smap_set k v m)"

lemma map_of_smap_set [simp]: "map_of (smap_set k v m) = (map_of m)(k \<mapsto> v)"
  by (induction k v m rule: smap_set.induct) auto

lemma set_smap_set: "fst ` set (smap_set k v m) = insert k (fst ` set m)"
  by (induction k v m rule: smap_set.induct) auto

lemma smap_ok_set [simp]: "smap_ok m \<Longrightarrow> smap_ok (smap_set k v m)"
proof (induction k v m rule: smap_set.induct)
  case (1 k v)
  then show ?case by (simp add: smap_ok_def)
next
  case (2 k v k' v' m)
  then have m: "smap_ok m" and lt: "\<forall>x\<in>fst ` set m. k' < x" by (auto simp: smap_ok_def)
  consider "k < k'" | "k = k'" | "k' < k" by fastforce
  then show ?case
  proof cases
    case 1
    with 2 show ?thesis by (auto simp: smap_ok_def intro: order.strict_trans)
  next
    case 2
    with "2.prems" show ?thesis by (auto simp: smap_ok_def)
  next
    case 3
    then have "smap_set k v ((k', v') # m) = (k', v') # smap_set k v m" by auto
    moreover have "smap_ok (smap_set k v m)" using 2 3 m by auto
    moreover have "\<forall>x\<in>fst ` set (smap_set k v m). k' < x" using lt 3 by (simp add: set_smap_set)
    ultimately show ?thesis by (auto simp: smap_ok_def)
  qed
qed

lemma smap_set_last:
  "smap_ok (m @ [(k, v)]) \<Longrightarrow> smap_set k v m = m @ [(k, v)]"
proof (induction m)
  case Nil
  then show ?case by simp
next
  case (Cons e m)
  obtain k' v' where e: "e = (k', v')" by fastforce
  from Cons.prems have lt: "k' < k" and ok: "smap_ok (m @ [(k, v)])"
    by (auto simp: smap_ok_def e sorted_wrt_append)
  have "\<not> k < k'" "k \<noteq> k'" using lt by auto
  with Cons.IH [OF ok] show ?case by (simp add: e)
qed

lemma smap_ok_prefix: "smap_ok (m @ n) \<Longrightarrow> smap_ok m"
  by (simp add: smap_ok_def sorted_wrt_append)

lemma smap_ok_distinct: "smap_ok m \<Longrightarrow> distinct (map fst m)"
  unfolding smap_ok_def strict_sorted_iff by simp

section \<open>Metadata (sm\_meta.h)\<close>

record ColMeta =
  cm_tab :: string
  cm_name :: string
  cm_type :: ColType
  cm_len :: int
  cm_offset :: int
  cm_index :: bool

record IndexMeta =
  ix_tab :: string
  col_tot_len :: int
  col_num :: int
  ix_unique :: bool
  ix_cols :: "ColMeta list"

record TabMeta =
  tm_name :: string
  tm_cols :: "ColMeta list"
  tm_indexes :: "IndexMeta list"

record DbMeta =
  db_name :: string
  tabs :: "TabMeta smap"

definition rebuild_derived :: "IndexMeta \<Rightarrow> IndexMeta" where
  "rebuild_derived index =
     index\<lparr>col_num := int (length (ix_cols index)), col_tot_len := foldl (\<lambda>n c. n + cm_len c) 0 (ix_cols index)\<rparr>"

definition IndexMeta_make :: "string \<Rightarrow> ColMeta list \<Rightarrow> bool \<Rightarrow> IndexMeta" where
  "IndexMeta_make table_name columns unique' =
     rebuild_derived \<lparr>ix_tab = table_name, col_tot_len = 0, col_num = 0, ix_unique = unique', ix_cols = columns\<rparr>"

text \<open>\<^verbatim>\<open>memcpy\<close> of the key's columns out of the record, one behind the other.\<close>

definition encode_key :: "IndexMeta \<Rightarrow> byte list \<Rightarrow> byte list" where
  "encode_key index record =
     concat (map (\<lambda>c. take (nat (cm_len c)) (drop (nat (cm_offset c)) record)) (ix_cols index))"

definition make_key :: "IndexMeta \<Rightarrow> byte list \<Rightarrow> byte list" where
  "make_key index record =
     (let key = encode_key index record in key @ replicate (nat (col_tot_len index) - length key) 0)"

definition is_col :: "TabMeta \<Rightarrow> string \<Rightarrow> bool" where
  "is_col table col_name' \<longleftrightarrow> list_ex (\<lambda>col. cm_name col = col_name') (tm_cols table)"

definition matches_index :: "IndexMeta \<Rightarrow> string list \<Rightarrow> bool" where
  "matches_index index col_names \<longleftrightarrow>
     length (ix_cols index) = length col_names \<and> list_all2 (\<lambda>col name. cm_name col = name) (ix_cols index) col_names"

definition is_index :: "TabMeta \<Rightarrow> string list \<Rightarrow> bool" where
  "is_index table col_names \<longleftrightarrow> list_ex (\<lambda>index. matches_index index col_names) (tm_indexes table)"

definition get_index_meta :: "TabMeta \<Rightarrow> string list \<Rightarrow> IndexMeta result" where
  "get_index_meta table col_names =
     (case find (\<lambda>index. matches_index index col_names) (tm_indexes table) of
        None \<Rightarrow> Inl (IndexNotFoundError (tm_name table) col_names)
      | Some index \<Rightarrow> Inr index)"

definition get_col :: "TabMeta \<Rightarrow> string \<Rightarrow> ColMeta result" where
  "get_col table col_name' =
     (case find (\<lambda>col. cm_name col = col_name') (tm_cols table) of
        None \<Rightarrow> Inl (ColumnNotFoundError col_name')
      | Some col \<Rightarrow> Inr col)"

definition is_table :: "DbMeta \<Rightarrow> string \<Rightarrow> bool" where
  "is_table db tab \<longleftrightarrow> map_of (tabs db) tab \<noteq> None"

definition SetTabMeta :: "string \<Rightarrow> TabMeta \<Rightarrow> DbMeta \<Rightarrow> DbMeta result" where
  "SetTabMeta tab meta db =
     (if tab \<noteq> tm_name meta then Inl (InternalError (''Table metadata name mismatch: '' @ tab))
      else Inr (db\<lparr>tabs := smap_set tab meta (tabs db)\<rparr>))"

definition get_table :: "DbMeta \<Rightarrow> string \<Rightarrow> TabMeta result" where
  "get_table db tab =
     (case map_of (tabs db) tab of None \<Rightarrow> Inl (TableNotFoundError tab) | Some table \<Rightarrow> Inr table)"

lemma matches_index_iff: "matches_index index names \<longleftrightarrow> map cm_name (ix_cols index) = names"
  by (auto simp: matches_index_def list_all2_conv_all_nth list_eq_iff_nth_eq)

lemma find_first: "find P xs = Some x \<Longrightarrow> x \<in> set xs \<and> P x"
  by (auto simp: find_Some_iff)

lemma get_col_Inr: "get_col table n = Inr col \<Longrightarrow> col \<in> set (tm_cols table) \<and> cm_name col = n"
  by (auto simp: get_col_def dest: find_first split: option.splits)

lemma get_col_distinct:
  assumes "distinct (map cm_name (tm_cols table))" "col \<in> set (tm_cols table)"
  shows "get_col table (cm_name col) = Inr col"
proof (cases "find (\<lambda>c. cm_name c = cm_name col) (tm_cols table)")
  case None
  with assms(2) show ?thesis by (auto simp: find_None_iff)
next
  case (Some c)
  with find_first [OF Some] assms show ?thesis
    by (auto simp: get_col_def distinct_map dest: inj_onD)
qed

lemma get_table_Inr: "get_table db tab = Inr table \<Longrightarrow> (tab, table) \<in> set (tabs db)"
  by (auto simp: get_table_def split: option.splits dest: map_of_SomeD)

section \<open>The JSON form (sm\_meta.cpp)\<close>

text \<open>
  Values of \<^verbatim>\<open>nlohmann::ordered_json\<close>: objects keep the order of insertion. An integer is any 64 bit integer, signed
  or unsigned; \<^verbatim>\<open>get<int>()\<close> converts it as \<^verbatim>\<open>static_cast<int>\<close> does. \<open>json_exn\<close> is any exception of the library.
\<close>

datatype json =
    JObject "(string \<times> json) list"
  | JArray "json list"
  | JString string
  | JInt int
  | JFloat u64
  | JBool bool
  | JNull

definition json_exn :: rmdb_error where "json_exn = StdException ''nlohmann::json::exception''"

definition invalid_meta :: rmdb_error where
  "invalid_meta = InternalError ''Invalid db.meta JSON; recreate databases written by older versions''"

fun json_at :: "json \<Rightarrow> string \<Rightarrow> json result" where
  "json_at (JObject kvs) key = (case map_of kvs key of None \<Rightarrow> Inl json_exn | Some v \<Rightarrow> Inr v)"
| "json_at _ key = Inl json_exn"

fun json_contains :: "json \<Rightarrow> string \<Rightarrow> bool" where
  "json_contains (JObject kvs) key \<longleftrightarrow> map_of kvs key \<noteq> None"
| "json_contains _ key \<longleftrightarrow> False"

definition require_object :: "json \<Rightarrow> unit result" where
  "require_object v = (case v of JObject kvs \<Rightarrow> Inr () | _ \<Rightarrow> Inl invalid_meta)"

definition array_field :: "json \<Rightarrow> string \<Rightarrow> json list result" where
  "array_field object key =
     bindE (json_at object key) (\<lambda>v. case v of JArray vs \<Rightarrow> Inr vs | _ \<Rightarrow> Inl invalid_meta)"

definition string_field :: "json \<Rightarrow> string \<Rightarrow> string result" where
  "string_field object key =
     bindE (json_at object key) (\<lambda>v. case v of JString s \<Rightarrow> Inr s | _ \<Rightarrow> Inl invalid_meta)"

definition int_field :: "json \<Rightarrow> string \<Rightarrow> int result" where
  "int_field object key =
     bindE (json_at object key) (\<lambda>v. case v of JInt i \<Rightarrow> Inr (sint (word_of_int i :: i32)) | _ \<Rightarrow> Inl invalid_meta)"

fun type_name :: "ColType \<Rightarrow> string" where
  "type_name TYPE_INT = ''INT''"
| "type_name TYPE_FLOAT = ''FLOAT''"
| "type_name TYPE_STRING = ''STRING''"

definition read_type :: "string \<Rightarrow> ColType result" where
  "read_type t =
     (if t = ''INT'' then Inr TYPE_INT
      else if t = ''FLOAT'' then Inr TYPE_FLOAT
      else if t = ''STRING'' then Inr TYPE_STRING
      else Inl invalid_meta)"

definition read_column :: "json \<Rightarrow> string \<Rightarrow> int \<Rightarrow> ColMeta result" where
  "read_column v table_name offset =
     bindE (require_object v) (\<lambda>_.
     bindE (string_field v ''name'') (\<lambda>name.
     bindE (bindE (string_field v ''type'') read_type) (\<lambda>type.
     bindE (int_field v ''length'') (\<lambda>len.
       if name = [] \<or> len \<le> 0 \<or> (type = TYPE_INT \<and> len \<noteq> 4) \<or> (type = TYPE_FLOAT \<and> len \<noteq> 4)
       then Inl invalid_meta
       else Inr \<lparr>cm_tab = table_name, cm_name = name, cm_type = type, cm_len = len, cm_offset = offset,
                 cm_index = False\<rparr>))))"

fun read_names :: "json list \<Rightarrow> string list \<Rightarrow> string list result" where
  "read_names [] names = Inr names"
| "read_names (v # vs) names =
     (case v of
        JString name \<Rightarrow>
          if name = [] \<or> name \<in> set names then Inl invalid_meta else read_names vs (names @ [name])
      | _ \<Rightarrow> Inl invalid_meta)"

text \<open>\<^verbatim>\<open>get_col\<close> with the iterator used to set the flag: the marked column and the changed column list.\<close>

fun mark_col :: "string \<Rightarrow> ColMeta list \<Rightarrow> (ColMeta \<times> ColMeta list) result" where
  "mark_col name [] = Inl (ColumnNotFoundError name)"
| "mark_col name (c # cs) =
     (if cm_name c = name then Inr (c\<lparr>cm_index := True\<rparr>, c\<lparr>cm_index := True\<rparr> # cs)
      else bindE (mark_col name cs) (\<lambda>(c', cs'). Inr (c', c # cs')))"

fun mark_cols :: "string list \<Rightarrow> ColMeta list \<Rightarrow> (ColMeta list \<times> ColMeta list) result" where
  "mark_cols [] cols = Inr ([], cols)"
| "mark_cols (name # names) cols =
     bindE (mark_col name cols) (\<lambda>(c, cols1).
     bindE (mark_cols names cols1) (\<lambda>(cs, cols2). Inr (c # cs, cols2)))"

definition read_unique :: "json \<Rightarrow> bool result" where
  "read_unique v =
     (if json_contains v ''unique''
      then bindE (json_at v ''unique'') (\<lambda>u. case u of JBool b \<Rightarrow> Inr b | _ \<Rightarrow> Inl invalid_meta)
      else Inr False)"

definition read_index :: "json \<Rightarrow> TabMeta \<Rightarrow> (IndexMeta \<times> TabMeta) result" where
  "read_index v table =
     bindE (require_object v) (\<lambda>_.
     bindE (array_field v ''columns'') (\<lambda>columns.
       if columns = [] then Inl invalid_meta else
     bindE (read_names columns []) (\<lambda>names.
       if is_index table names then Inl invalid_meta else
     bindE (read_unique v) (\<lambda>unique'.
     bindE (mark_cols names (tm_cols table)) (\<lambda>(cs, cols).
       Inr (rebuild_derived \<lparr>ix_tab = tm_name table, col_tot_len = 0, col_num = 0, ix_unique = unique', ix_cols = cs\<rparr>,
            table\<lparr>tm_cols := cols\<rparr>))))))"

fun read_columns :: "json list \<Rightarrow> TabMeta \<Rightarrow> int \<Rightarrow> TabMeta result" where
  "read_columns [] table offset = Inr table"
| "read_columns (v # vs) table offset =
     bindE (read_column v (tm_name table) offset) (\<lambda>column.
       if is_col table (cm_name column) \<or> cm_len column > RM_MAX_RECORD_SIZE - offset then Inl invalid_meta
       else read_columns vs (table\<lparr>tm_cols := tm_cols table @ [column]\<rparr>) (offset + cm_len column))"

fun read_indexes :: "json list \<Rightarrow> TabMeta \<Rightarrow> TabMeta result" where
  "read_indexes [] table = Inr table"
| "read_indexes (v # vs) table =
     bindE (read_index v table) (\<lambda>(index, table1).
       read_indexes vs (table1\<lparr>tm_indexes := tm_indexes table1 @ [index]\<rparr>))"

definition read_table :: "json \<Rightarrow> TabMeta result" where
  "read_table v =
     bindE (require_object v) (\<lambda>_.
     bindE (string_field v ''name'') (\<lambda>name.
       if name = [] then Inl invalid_meta else
     bindE (array_field v ''columns'') (\<lambda>columns.
       if columns = [] then Inl invalid_meta else
     bindE (read_columns columns \<lparr>tm_name = name, tm_cols = [], tm_indexes = []\<rparr> 0) (\<lambda>table.
     bindE (array_field v ''indexes'') (\<lambda>indexes.
       read_indexes indexes table)))))"

definition write_column :: "ColMeta \<Rightarrow> json" where
  "write_column c =
     JObject [(''name'', JString (cm_name c)), (''type'', JString (type_name (cm_type c))), (''length'', JInt (cm_len c))]"

definition write_index :: "IndexMeta \<Rightarrow> json" where
  "write_index index =
     JObject [(''columns'', JArray (map (\<lambda>c. JString (cm_name c)) (ix_cols index))), (''unique'', JBool (ix_unique index))]"

definition write_table :: "TabMeta \<Rightarrow> json" where
  "write_table table =
     JObject [(''name'', JString (tm_name table)), (''columns'', JArray (map write_column (tm_cols table))),
              (''indexes'', JArray (map write_index (tm_indexes table)))]"

definition db_json :: "DbMeta \<Rightarrow> json" where
  "db_json db =
     JObject [(''database'', JString (db_name db)), (''tables'', JArray (map (write_table \<circ> snd) (tabs db)))]"

text \<open>The stream operators; \<open>dump\<close> and \<open>parse\<close> are the library's printer and parser.\<close>

definition write_db :: "(json \<Rightarrow> string) \<Rightarrow> DbMeta \<Rightarrow> string" where
  "write_db dump db = dump (db_json db) @ ''\<newline>''"

fun read_tables :: "json list \<Rightarrow> DbMeta \<Rightarrow> DbMeta result" where
  "read_tables [] db = Inr db"
| "read_tables (v # vs) db =
     bindE (read_table v) (\<lambda>table.
       if is_table db (tm_name table) then Inl invalid_meta
       else read_tables vs (db\<lparr>tabs := smap_set (tm_name table) table (tabs db)\<rparr>))"

definition read_root :: "json \<Rightarrow> DbMeta result" where
  "read_root root =
     bindE (require_object root) (\<lambda>_.
     bindE (string_field root ''database'') (\<lambda>name.
       if name = [] then Inl invalid_meta else
     bindE (array_field root ''tables'') (\<lambda>tables.
       read_tables tables \<lparr>db_name = name, tabs = []\<rparr>)))"

definition read_db :: "(string \<Rightarrow> json option) \<Rightarrow> string \<Rightarrow> DbMeta result" where
  "read_db parse input =
     (case bindE (case parse input of None \<Rightarrow> Inl json_exn | Some root \<Rightarrow> Inr root) read_root of
        Inr db \<Rightarrow> Inr db
      | Inl e \<Rightarrow> if e = json_exn then Inl invalid_meta else Inl e)"

section \<open>Well formed catalogs\<close>

definition col_ok :: "string \<Rightarrow> ColMeta \<Rightarrow> bool" where
  "col_ok tab c \<longleftrightarrow> cm_tab c = tab \<and> cm_name c \<noteq> [] \<and> cm_len c > 0 \<and> (cm_type c \<noteq> TYPE_STRING \<longrightarrow> cm_len c = 4)"

text \<open>The columns lie one behind the other from \<open>off\<close> on and end within the largest record.\<close>

fun layout_ok :: "int \<Rightarrow> ColMeta list \<Rightarrow> bool" where
  "layout_ok off [] \<longleftrightarrow> True"
| "layout_ok off (c # cs) \<longleftrightarrow> cm_offset c = off \<and> off + cm_len c \<le> RM_MAX_RECORD_SIZE \<and> layout_ok (off + cm_len c) cs"

definition cols_ok :: "string \<Rightarrow> ColMeta list \<Rightarrow> bool" where
  "cols_ok tab cs \<longleftrightarrow> (\<forall>c\<in>set cs. col_ok tab c) \<and> distinct (map cm_name cs) \<and> layout_ok 0 cs"

definition index_ok :: "TabMeta \<Rightarrow> IndexMeta \<Rightarrow> bool" where
  "index_ok t ix \<longleftrightarrow> ix_tab ix = tm_name t \<and> ix_cols ix \<noteq> [] \<and> distinct (map cm_name (ix_cols ix)) \<and>
     set (ix_cols ix) \<subseteq> set (tm_cols t) \<and> rebuild_derived ix = ix"

definition tab_ok :: "TabMeta \<Rightarrow> bool" where
  "tab_ok t \<longleftrightarrow> tm_name t \<noteq> [] \<and> tm_cols t \<noteq> [] \<and> cols_ok (tm_name t) (tm_cols t) \<and>
     (\<forall>ix\<in>set (tm_indexes t). index_ok t ix) \<and> distinct (map (\<lambda>ix. map cm_name (ix_cols ix)) (tm_indexes t)) \<and>
     (\<forall>c\<in>set (tm_cols t). cm_index c \<longleftrightarrow> (\<exists>ix\<in>set (tm_indexes t). c \<in> set (ix_cols ix)))"

definition db_ok :: "DbMeta \<Rightarrow> bool" where
  "db_ok db \<longleftrightarrow> db_name db \<noteq> [] \<and> smap_ok (tabs db) \<and> (\<forall>(k, t)\<in>set (tabs db). tm_name t = k \<and> tab_ok t)"

lemma layout_ok_snoc:
  "layout_ok off (cs @ [c]) \<longleftrightarrow> layout_ok off cs \<and> cm_offset c = off + sum_list (map cm_len cs) \<and>
     off + sum_list (map cm_len cs) + cm_len c \<le> RM_MAX_RECORD_SIZE"
  by (induction cs arbitrary: off) (auto simp: ac_simps)

lemma layout_ok_sum: "layout_ok off cs \<Longrightarrow> cs \<noteq> [] \<Longrightarrow> off + sum_list (map cm_len cs) \<le> RM_MAX_RECORD_SIZE"
  by (cases cs rule: rev_cases) (auto simp: layout_ok_snoc)

lemma layout_ok_append1: "layout_ok off (cs @ ds) \<Longrightarrow> layout_ok off cs"
  by (induction cs arbitrary: off) auto

lemma layout_ok_bound:
  "layout_ok off cs \<Longrightarrow> \<forall>c\<in>set cs. cm_len c > 0 \<Longrightarrow> c \<in> set cs \<Longrightarrow>
   off \<le> cm_offset c \<and> cm_offset c + cm_len c \<le> RM_MAX_RECORD_SIZE"
  by (induction cs arbitrary: off) force+

text \<open>Setting the index flag of the columns with a name in \<open>N\<close>, which is what \<open>mark_col\<close> does one name at a time.\<close>

definition mark :: "string set \<Rightarrow> ColMeta \<Rightarrow> ColMeta" where
  "mark N c = (if cm_name c \<in> N then c\<lparr>cm_index := True\<rparr> else c)"

lemma mark_simps [simp]:
  "cm_name (mark N c) = cm_name c" "cm_tab (mark N c) = cm_tab c" "cm_type (mark N c) = cm_type c"
  "cm_len (mark N c) = cm_len c" "cm_offset (mark N c) = cm_offset c" "mark M (mark N c) = mark (M \<union> N) c"
  "mark {} c = c" "cm_index (mark N c) \<longleftrightarrow> cm_name c \<in> N \<or> cm_index c"
  by (simp_all add: mark_def)

lemma layout_ok_mark [simp]: "layout_ok off (map (mark N) cs) \<longleftrightarrow> layout_ok off cs"
  by (induction cs arbitrary: off) auto

lemma cols_ok_mark [simp]: "cols_ok tab (map (mark N) cs) \<longleftrightarrow> cols_ok tab cs"
  by (simp add: cols_ok_def col_ok_def comp_def)

lemma mark_col_iff:
  assumes "distinct (map cm_name cs)"
  shows "mark_col n cs = Inr (c', cs') \<longleftrightarrow>
    (\<exists>c\<in>set cs. cm_name c = n \<and> c' = mark {n} c \<and> cs' = map (mark {n}) cs)"
  using assms
proof (induction cs arbitrary: cs')
  case Nil
  then show ?case by simp
next
  case (Cons c cs)
  show ?case
  proof (cases "cm_name c = n")
    case True
    then have others: "\<forall>d\<in>set cs. cm_name d \<noteq> n" using Cons.prems by (auto simp: image_iff)
    then have "map (mark {n}) cs = cs" by (intro map_idI) (simp add: mark_def)
    moreover have "mark {n} c = c\<lparr>cm_index := True\<rparr>" using True by (simp add: mark_def)
    ultimately show ?thesis using True others by auto
  next
    case False
    then have "mark {n} c = c" by (simp add: mark_def)
    with False Cons show ?thesis by auto
  qed
qed

lemma mark_cols_iff:
  assumes "distinct (map cm_name cs)"
  shows "mark_cols names cs = Inr (ds', cs') \<longleftrightarrow>
    (\<exists>ds. map cm_name ds = names \<and> set ds \<subseteq> set cs \<and> ds' = map (mark (set names)) ds \<and> cs' = map (mark (set names)) cs)"
  using assms
proof (induction names arbitrary: cs ds' cs')
  case Nil
  then show ?case by auto
next
  case (Cons n ns)
  have d1: "distinct (map cm_name (map (mark {n}) cs))" using Cons.prems by (simp add: comp_def)
  have "mark_cols (n # ns) cs = Inr (ds', cs') \<longleftrightarrow>
      (\<exists>c\<in>set cs. cm_name c = n \<and> (\<exists>es. mark_cols ns (map (mark {n}) cs) = Inr (es, cs') \<and> ds' = mark {n} c # es))"
    using mark_col_iff [OF Cons.prems] by auto
  also have "\<dots> \<longleftrightarrow> (\<exists>c\<in>set cs. cm_name c = n \<and> (\<exists>fs. map cm_name fs = ns \<and> set fs \<subseteq> mark {n} ` set cs \<and>
      ds' = mark {n} c # map (mark (set ns)) fs \<and> cs' = map (mark (set (n # ns))) cs))"
    using Cons.IH [OF d1] by (auto simp: comp_def)
  also have "\<dots> \<longleftrightarrow> (\<exists>ds. map cm_name ds = n # ns \<and> set ds \<subseteq> set cs \<and> ds' = map (mark (set (n # ns))) ds \<and>
      cs' = map (mark (set (n # ns))) cs)" (is "?l \<longleftrightarrow> ?r")
  proof
    assume ?l
    then obtain c fs where c: "c \<in> set cs" "cm_name c = n" and fs: "map cm_name fs = ns" "set fs \<subseteq> mark {n} ` set cs"
      "ds' = mark {n} c # map (mark (set ns)) fs" and cs': "cs' = map (mark (set (n # ns))) cs" by auto
    from fs(2) obtain gs where gs: "fs = map (mark {n}) gs" "set gs \<subseteq> set cs"
      using list_preimage by blast
    have "ds' = map (mark (set (n # ns))) (c # gs)" using fs(3) gs c(2) by (simp add: mark_def)
    moreover have "map cm_name (c # gs) = n # ns" using c fs(1) gs(1) by (simp add: comp_def)
    ultimately show ?r using c gs cs' by (intro exI [of _ "c # gs"]) auto
  next
    assume ?r
    then obtain c gs where "c \<in> set cs" "cm_name c = n" "map cm_name gs = ns" "set gs \<subseteq> set cs"
      "ds' = map (mark (set (n # ns))) (c # gs)" "cs' = map (mark (set (n # ns))) cs" by (auto simp: map_eq_Cons_conv)
    then show ?l
      by (intro bexI [of _ c] conjI exI [of _ "map (mark {n}) gs"]) (auto simp: comp_def mark_def)
  qed
  finally show ?case .
qed

lemma read_names_Inr:
  "read_names vs names = Inr ns \<Longrightarrow> distinct names \<Longrightarrow> [] \<notin> set names \<Longrightarrow>
   \<exists>us. vs = map JString us \<and> ns = names @ us \<and> distinct ns \<and> [] \<notin> set ns"
proof (induction vs arbitrary: names)
  case Nil
  then show ?case by simp
next
  case (Cons v vs)
  from Cons.prems obtain u where u: "v = JString u" "u \<noteq> []" "u \<notin> set names" "read_names vs (names @ [u]) = Inr ns"
    by (auto split: json.splits if_splits)
  have "distinct (names @ [u])" "[] \<notin> set (names @ [u])" using u Cons.prems by auto
  from Cons.IH [OF u(4) this] obtain us where
    "vs = map JString us" "ns = (names @ [u]) @ us" "distinct ns" "[] \<notin> set ns" by blast
  with u show ?case by (intro exI [of _ "u # us"]) simp
qed

lemma read_names_put:
  "distinct (names @ us) \<Longrightarrow> [] \<notin> set us \<Longrightarrow> read_names (map JString us) names = Inr (names @ us)"
  by (induction us arbitrary: names) auto

lemma rebuild_derived_simps [simp]:
  "ix_cols (rebuild_derived ix) = ix_cols ix" "ix_tab (rebuild_derived ix) = ix_tab ix"
  "ix_unique (rebuild_derived ix) = ix_unique ix" "rebuild_derived (rebuild_derived ix) = rebuild_derived ix"
  by (simp_all add: rebuild_derived_def)

lemma is_index_iff: "is_index t names \<longleftrightarrow> names \<in> (\<lambda>ix. map cm_name (ix_cols ix)) ` set (tm_indexes t)"
  by (auto simp: is_index_def matches_index_iff list_ex_iff)

text \<open>Reading an index keeps the table well formed.\<close>

lemma read_index_ok:
  assumes ok: "tab_ok t" and rd: "read_index v t = Inr (ix, t1)"
  shows "tab_ok (t1\<lparr>tm_indexes := tm_indexes t1 @ [ix]\<rparr>)"
proof -
  have dist: "distinct (map cm_name (tm_cols t))" using ok by (simp add: tab_ok_def cols_ok_def)
  from rd obtain vs names u ds' cs' where vs: "vs \<noteq> []" "read_names vs [] = Inr names" "\<not> is_index t names"
    and m: "mark_cols names (tm_cols t) = Inr (ds', cs')"
    and ix: "ix = rebuild_derived \<lparr>ix_tab = tm_name t, col_tot_len = 0, col_num = 0, ix_unique = u, ix_cols = ds'\<rparr>"
    and t1: "t1 = t\<lparr>tm_cols := cs'\<rparr>"
    by (auto simp: read_index_def split: if_splits)
  from read_names_Inr [OF vs(2)] vs(1) have names: "distinct names" "names \<noteq> []" by auto
  from m obtain ds where ds: "map cm_name ds = names" "set ds \<subseteq> set (tm_cols t)"
    and ds': "ds' = map (mark (set names)) ds" and cs': "cs' = map (mark (set names)) (tm_cols t)"
    using mark_cols_iff [OF dist] by blast
  have old: "set (ix_cols jx) \<subseteq> set cs'" if "jx \<in> set (tm_indexes t)" for jx
  proof
    fix c assume c: "c \<in> set (ix_cols jx)"
    with ok that have "c \<in> set (tm_cols t)" "cm_index c" by (auto simp: tab_ok_def index_ok_def)
    moreover from this have "mark (set names) c = c" by (simp add: mark_def)
    ultimately show "c \<in> set cs'" unfolding cs' by (metis image_eqI list.set_map)
  qed
  have marked: "cm_index c \<longleftrightarrow> (\<exists>jx\<in>set (tm_indexes t @ [ix]). c \<in> set (ix_cols jx))" if c: "c \<in> set cs'" for c
  proof -
    from c obtain b where b: "b \<in> set (tm_cols t)" "c = mark (set names) b" by (auto simp: cs')
    have new: "c \<in> set ds' \<longleftrightarrow> cm_name b \<in> set names"
    proof
      assume "cm_name b \<in> set names"
      then obtain d where "d \<in> set ds" "cm_name d = cm_name b" using ds(1) by (metis image_iff list.set_map)
      with ds(2) b(1) dist have "d = b" by (auto simp: distinct_map dest: inj_onD)
      with \<open>d \<in> set ds\<close> b(2) show "c \<in> set ds'" by (simp add: ds')
    next
      assume "c \<in> set ds'"
      then show "cm_name b \<in> set names" using ds(1) b(2) by (auto simp: ds') (metis mark_simps(1) image_eqI)
    qed
    show ?thesis
    proof (cases "cm_name b \<in> set names")
      case True
      with new b(2) show ?thesis by (simp add: ix)
    next
      case False
      then have "c = b" using b(2) by (simp add: mark_def)
      with False new ok b(1) show ?thesis by (simp add: ix tab_ok_def)
    qed
  qed
  let ?t = "t1\<lparr>tm_indexes := tm_indexes t1 @ [ix]\<rparr>"
  have f: "tm_name ?t = tm_name t" "tm_cols ?t = cs'" "tm_indexes ?t = tm_indexes t @ [ix]" by (simp_all add: t1)
  show ?thesis
    unfolding tab_ok_def f
  proof (intro conjI ballI)
    show "tm_name t \<noteq> []" "cs' \<noteq> []" "cols_ok (tm_name t) cs'" using ok by (simp_all add: tab_ok_def cs')
    show "distinct (map (\<lambda>ix. map cm_name (ix_cols ix)) (tm_indexes t @ [ix]))"
      using ok vs(3) ds(1) by (simp add: tab_ok_def is_index_iff ix ds' comp_def)
    show "cm_index c \<longleftrightarrow> (\<exists>jx\<in>set (tm_indexes t @ [ix]). c \<in> set (ix_cols jx))" if "c \<in> set cs'" for c
      using marked [OF that] .
    show "index_ok ?t jx" if "jx \<in> set (tm_indexes t @ [ix])" for jx
    proof (cases "jx = ix")
      case True
      then show ?thesis using ds names unfolding index_ok_def f by (auto simp: ix ds' cs' comp_def)
    next
      case False
      with that have "jx \<in> set (tm_indexes t)" by simp
      with ok old [OF this] show ?thesis unfolding index_ok_def f by (simp add: tab_ok_def index_ok_def)
    qed
  qed
qed

lemma read_indexes_ok: "read_indexes vs t = Inr t' \<Longrightarrow> tab_ok t \<Longrightarrow> tab_ok t'"
proof (induction vs arbitrary: t)
  case Nil
  then show ?case by simp
next
  case (Cons v vs)
  then obtain ix t1 where "read_index v t = Inr (ix, t1)"
    "read_indexes vs (t1\<lparr>tm_indexes := tm_indexes t1 @ [ix]\<rparr>) = Inr t'" by auto
  with Cons read_index_ok show ?case by blast
qed

lemma read_column_ok:
  assumes "read_column v tab off = Inr c"
  shows "col_ok tab c \<and> cm_offset c = off \<and> \<not> cm_index c"
proof -
  from assms obtain name ty len where "name \<noteq> []" "len > 0" "ty = TYPE_INT \<longrightarrow> len = 4" "ty = TYPE_FLOAT \<longrightarrow> len = 4"
    and "c = \<lparr>cm_tab = tab, cm_name = name, cm_type = ty, cm_len = len, cm_offset = off, cm_index = False\<rparr>"
    by (auto simp: read_column_def split: if_splits)
  then show ?thesis by (cases ty) (simp_all add: col_ok_def)
qed

lemma read_columns_ok:
  assumes "read_columns vs t off = Inr t'" "cols_ok (tm_name t) (tm_cols t)" "off = sum_list (map cm_len (tm_cols t))"
    and "\<forall>c\<in>set (tm_cols t). \<not> cm_index c"
  shows "tm_name t' = tm_name t \<and> tm_indexes t' = tm_indexes t \<and> cols_ok (tm_name t) (tm_cols t') \<and>
    (\<forall>c\<in>set (tm_cols t'). \<not> cm_index c) \<and> length (tm_cols t') = length (tm_cols t) + length vs"
  using assms
proof (induction vs arbitrary: t off)
  case Nil
  then show ?case by simp
next
  case (Cons v vs)
  from Cons.prems(1) obtain c where c: "read_column v (tm_name t) off = Inr c" "\<not> is_col t (cm_name c)"
    "cm_len c \<le> RM_MAX_RECORD_SIZE - off"
    and rest: "read_columns vs (t\<lparr>tm_cols := tm_cols t @ [c]\<rparr>) (off + cm_len c) = Inr t'"
    by (auto split: if_splits)
  let ?t = "t\<lparr>tm_cols := tm_cols t @ [c]\<rparr>"
  have t1: "cols_ok (tm_name ?t) (tm_cols ?t)"
    using Cons.prems(2,3) read_column_ok [OF c(1)] c(2,3)
    by (auto simp: cols_ok_def layout_ok_snoc is_col_def list_ex_iff image_iff)
  have t2: "\<forall>d\<in>set (tm_cols ?t). \<not> cm_index d" using Cons.prems(4) read_column_ok [OF c(1)] by simp
  have t3: "off + cm_len c = sum_list (map cm_len (tm_cols ?t))" using Cons.prems(3) by simp
  from Cons.IH [OF rest t1 t3 t2] show ?case by simp
qed

lemma read_table_ok:
  assumes "read_table v = Inr t"
  shows "tab_ok t"
proof -
  from assms obtain name vs t1 ivs where v: "name \<noteq> []" "vs \<noteq> []"
    and cols: "read_columns vs \<lparr>tm_name = name, tm_cols = [], tm_indexes = []\<rparr> 0 = Inr t1"
    and ind: "read_indexes ivs t1 = Inr t"
    by (auto simp: read_table_def split: if_splits)
  have "tab_ok t1"
    using read_columns_ok [OF cols] v by (auto simp: tab_ok_def cols_ok_def)
  then show ?thesis using read_indexes_ok [OF ind] by simp
qed

lemma read_tables_ok:
  assumes "read_tables vs db = Inr db'" "db_ok db"
  shows "db_ok db'"
  using assms
proof (induction vs arbitrary: db)
  case Nil
  then show ?case by simp
next
  case (Cons v vs)
  from Cons.prems obtain t where t: "read_table v = Inr t"
    and rest: "read_tables vs (db\<lparr>tabs := smap_set (tm_name t) t (tabs db)\<rparr>) = Inr db'"
    by (auto split: if_splits)
  have "set (smap_set k x m) \<subseteq> insert (k, x) (set m)" for k :: string and x :: TabMeta and m
    by (induction k x m rule: smap_set.induct) auto
  from this [of "tm_name t" t "tabs db"] read_table_ok [OF t] Cons.prems(2)
  have "db_ok (db\<lparr>tabs := smap_set (tm_name t) t (tabs db)\<rparr>)"
    by (auto simp: db_ok_def)
  with Cons.IH [OF rest] show ?case by simp
qed

lemma read_db_ok:
  assumes "read_db parse input = Inr db"
  shows "db_ok db"
proof -
  from assms obtain root name ts where "name \<noteq> []" "read_tables ts \<lparr>db_name = name, tabs = []\<rparr> = Inr db"
    by (auto simp: read_db_def read_root_def bindE_Inl_iff split: sum.splits option.splits if_splits)
  with read_tables_ok show ?thesis by (auto simp: db_ok_def smap_ok_def)
qed

section \<open>Writing and reading back\<close>

definition unflag :: "ColMeta \<Rightarrow> ColMeta" where
  "unflag c = c\<lparr>cm_index := False\<rparr>"

lemma unflag_simps [simp]:
  "cm_name (unflag c) = cm_name c" "cm_len (unflag c) = cm_len c" "cm_offset (unflag c) = cm_offset c"
  "cm_tab (unflag c) = cm_tab c" "cm_type (unflag c) = cm_type c" "\<not> cm_index (unflag c)"
  by (simp_all add: unflag_def)

lemma layout_ok_unflag: "layout_ok off (us @ c # vs) \<Longrightarrow> layout_ok off (us @ unflag c # vs)"
  by (induction us arbitrary: off) auto

lemma read_type_name [simp]: "read_type (type_name t) = Inr t"
  by (cases t) (simp_all add: read_type_def)

lemma read_write_column:
  assumes "col_ok tab c" "cm_offset c = off" "cm_len c \<le> RM_MAX_RECORD_SIZE"
  shows "read_column (write_column c) tab off = Inr (unflag c)"
proof -
  have "sint (word_of_int (cm_len c) :: i32) = cm_len c"
    using assms by (intro sint_of_small_int) (simp_all add: col_ok_def RM_MAX_RECORD_SIZE_def)
  with assms show ?thesis
    by (cases c) (auto simp: read_column_def write_column_def require_object_def string_field_def int_field_def
        col_ok_def unflag_def)
qed

lemma read_write_columns:
  assumes "cols_ok (tm_name t) (tm_cols t @ cs)" "off = sum_list (map cm_len (tm_cols t))"
  shows "read_columns (map write_column cs) t off = Inr (t\<lparr>tm_cols := tm_cols t @ map unflag cs\<rparr>)"
  using assms
proof (induction cs arbitrary: t off)
  case Nil
  then show ?case by simp
next
  case (Cons c cs)
  have sp: "tm_cols t @ c # cs = (tm_cols t @ [c]) @ cs" by simp
  have lay: "layout_ok 0 (tm_cols t @ [c])"
    using Cons.prems(1) unfolding cols_ok_def sp by (metis layout_ok_append1)
  then have off: "cm_offset c = off" "off + cm_len c \<le> RM_MAX_RECORD_SIZE"
    using Cons.prems(2) by (simp_all add: layout_ok_snoc)
  have c: "col_ok (tm_name t) c" "0 \<le> off"
    using Cons.prems sum_list_nonneg [of "map cm_len (tm_cols t)"] by (force simp: cols_ok_def col_ok_def)+
  have "read_column (write_column c) (tm_name t) off = Inr (unflag c)"
    using c off by (intro read_write_column) auto
  moreover have "\<not> is_col t (cm_name c)" using Cons.prems(1) by (auto simp: cols_ok_def is_col_def list_ex_iff image_iff)
  moreover have "cols_ok (tm_name t) (tm_cols (t\<lparr>tm_cols := tm_cols t @ [unflag c]\<rparr>) @ cs)"
    using Cons.prems(1) layout_ok_unflag [of 0 "tm_cols t" c cs] by (auto simp: cols_ok_def col_ok_def)
  ultimately show ?case
    using Cons.IH [of "t\<lparr>tm_cols := tm_cols t @ [unflag c]\<rparr>" "off + cm_len c"] Cons.prems(2) off by simp
qed

definition names_of :: "IndexMeta list \<Rightarrow> string set" where
  "names_of ixs = (\<Union>ix\<in>set ixs. cm_name ` set (ix_cols ix))"

lemma names_of_simps [simp]:
  "names_of [] = {}" "names_of (ixs @ [ix]) = cm_name ` set (ix_cols ix) \<union> names_of ixs"
  by (auto simp: names_of_def)

lemma read_write_index:
  assumes ok: "tab_ok T" and ix: "ix \<in> set (tm_indexes T)"
    and t: "tm_name t = tm_name T" "tm_cols t = map (mark N) (map unflag (tm_cols T))" "\<not> is_index t (map cm_name (ix_cols ix))"
  shows "read_index (write_index ix) t =
    Inr (ix, t\<lparr>tm_cols := map (mark (cm_name ` set (ix_cols ix) \<union> N)) (map unflag (tm_cols T))\<rparr>)"
proof -
  let ?ns = "map cm_name (ix_cols ix)"
  have iok: "index_ok T ix" using ok ix by (simp add: tab_ok_def)
  have dist: "distinct (map cm_name (tm_cols t))" using ok by (simp add: t tab_ok_def cols_ok_def comp_def)
  have "cm_name c \<noteq> []" if "c \<in> set (ix_cols ix)" for c
  proof -
    have "c \<in> set (tm_cols T)" using iok that by (auto simp: index_ok_def)
    then show ?thesis using ok by (simp add: tab_ok_def cols_ok_def col_ok_def)
  qed
  then have ne: "[] \<notin> set ?ns" by force
  have names: "read_names (map JString ?ns) [] = Inr ?ns"
    using iok ne read_names_put [of "[]" ?ns] by (simp add: index_ok_def)
  have flagged: "c \<in> set (tm_cols T) \<and> cm_index c" if "c \<in> set (ix_cols ix)" for c
    using iok ok ix that by (auto simp: index_ok_def tab_ok_def)
  let ?ds = "map (\<lambda>c. mark N (unflag c)) (ix_cols ix)"
  have "mark (set ?ns) (mark N (unflag c)) = c" if "c \<in> set (ix_cols ix)" for c
    using flagged [OF that] that by (simp add: mark_def unflag_def)
  then have ds: "map (mark (set ?ns)) ?ds = ix_cols ix" by (simp add: map_idI)
  have "mark_cols ?ns (tm_cols t) = Inr (ix_cols ix, map (mark (set ?ns)) (tm_cols t))"
    unfolding mark_cols_iff [OF dist]
    by (intro exI [of _ ?ds]) (use ds flagged in \<open>auto simp: t comp_def\<close>)
  moreover have "rebuild_derived \<lparr>ix_tab = tm_name t, col_tot_len = 0, col_num = 0, ix_unique = ix_unique ix,
      ix_cols = ix_cols ix\<rparr> = ix"
    using iok by (cases ix) (simp add: index_ok_def rebuild_derived_def t)
  moreover have "ix_cols ix \<noteq> []" using iok by (simp add: index_ok_def)
  ultimately show ?thesis
    using names t(3)
    by (simp add: read_index_def write_index_def require_object_def array_field_def read_unique_def comp_def t(2))
qed

lemma read_write_indexes:
  assumes ok: "tab_ok T" and split: "tm_indexes T = as @ bs"
    and t: "t = \<lparr>tm_name = tm_name T, tm_cols = map (mark (names_of as)) (map unflag (tm_cols T)), tm_indexes = as\<rparr>"
  shows "read_indexes (map write_index bs) t =
    Inr \<lparr>tm_name = tm_name T, tm_cols = map (mark (names_of (as @ bs))) (map unflag (tm_cols T)), tm_indexes = as @ bs\<rparr>"
  using split t
proof (induction bs arbitrary: as t)
  case Nil
  then show ?case by simp
next
  case (Cons ix bs)
  have "\<not> is_index t (map cm_name (ix_cols ix))"
    using ok Cons.prems by (auto simp: tab_ok_def is_index_iff)
  then have "read_index (write_index ix) t =
      Inr (ix, t\<lparr>tm_cols := map (mark (cm_name ` set (ix_cols ix) \<union> names_of as)) (map unflag (tm_cols T))\<rparr>)"
    using Cons.prems by (intro read_write_index [OF ok]) simp_all
  moreover have "read_indexes (map write_index bs) \<lparr>tm_name = tm_name T,
        tm_cols = map (mark (names_of (as @ [ix]))) (map unflag (tm_cols T)), tm_indexes = as @ [ix]\<rparr> =
      Inr \<lparr>tm_name = tm_name T, tm_cols = map (mark (names_of ((as @ [ix]) @ bs))) (map unflag (tm_cols T)),
        tm_indexes = (as @ [ix]) @ bs\<rparr>"
    using Cons.prems(1) by (intro Cons.IH) simp_all
  ultimately show ?case using Cons.prems(2) by simp
qed

lemma read_write_table:
  assumes "tab_ok t"
  shows "read_table (write_table t) = Inr t"
proof -
  let ?t0 = "\<lparr>tm_name = tm_name t, tm_cols = [], tm_indexes = []\<rparr>"
  have cols: "read_columns (map write_column (tm_cols t)) ?t0 0 = Inr (?t0\<lparr>tm_cols := map unflag (tm_cols t)\<rparr>)"
    using read_write_columns [of ?t0 "tm_cols t" 0] assms by (simp add: tab_ok_def)
  have "mark (names_of (tm_indexes t)) (unflag c) = c" if c: "c \<in> set (tm_cols t)" for c
  proof -
    have "cm_name c \<in> names_of (tm_indexes t) \<longleftrightarrow> cm_index c"
    proof
      assume "cm_name c \<in> names_of (tm_indexes t)"
      then obtain ix d where d: "ix \<in> set (tm_indexes t)" "d \<in> set (ix_cols ix)" "cm_name d = cm_name c"
        by (auto simp: names_of_def)
      then have "d \<in> set (tm_cols t)" "cm_index d" using assms by (auto simp: tab_ok_def index_ok_def)
      moreover have "d = c" using calculation d(3) c assms by (auto simp: tab_ok_def cols_ok_def distinct_map dest: inj_onD)
      ultimately show "cm_index c" by simp
    next
      assume "cm_index c"
      with assms c show "cm_name c \<in> names_of (tm_indexes t)" by (auto simp: tab_ok_def names_of_def)
    qed
    then show ?thesis by (cases c) (auto simp: mark_def unflag_def)
  qed
  then have flags: "map (mark (names_of (tm_indexes t))) (map unflag (tm_cols t)) = tm_cols t"
    by (simp add: map_idI)
  have "read_indexes (map write_index (tm_indexes t)) (?t0\<lparr>tm_cols := map unflag (tm_cols t)\<rparr>) = Inr t"
    using read_write_indexes [OF assms, of "[]" "tm_indexes t"] flags by (simp add: comp_def)
  moreover have "tm_name t \<noteq> []" "tm_cols t \<noteq> []" using assms by (simp_all add: tab_ok_def)
  ultimately show ?thesis
    using cols by (simp add: read_table_def write_table_def require_object_def string_field_def array_field_def)
qed

lemma read_write_tables:
  assumes "smap_ok (ms @ ns)" "\<forall>(k, t)\<in>set ns. tm_name t = k \<and> tab_ok t"
  shows "read_tables (map (write_table \<circ> snd) ns) \<lparr>db_name = name, tabs = ms\<rparr> = Inr \<lparr>db_name = name, tabs = ms @ ns\<rparr>"
  using assms
proof (induction ns arbitrary: ms)
  case Nil
  then show ?case by simp
next
  case (Cons e ns)
  obtain k t where e: "e = (k, t)" "tm_name t = k" "tab_ok t" using Cons.prems(2) by (cases e) auto
  have ok1: "smap_ok (ms @ [(k, t)])" using smap_ok_prefix [of "ms @ [(k, t)]" ns] Cons.prems(1) by (simp add: e)
  then have "map_of ms k = None"
    using smap_ok_distinct [OF ok1] by (auto simp: map_of_eq_None_iff)
  moreover have "smap_set k t ms = ms @ [(k, t)]" by (rule smap_set_last [OF ok1])
  ultimately show ?case
    using Cons.IH [of "ms @ [(k, t)]"] Cons.prems e read_write_table [OF e(3)] by (simp add: is_table_def)
qed

lemma read_write_db:
  assumes "db_ok db" "parse (dump (db_json db) @ ''\<newline>'') = Some (db_json db)"
  shows "read_db parse (write_db dump db) = Inr db"
proof -
  have "read_root (db_json db) = Inr db"
    using assms(1) read_write_tables [of "[]" "tabs db" "db_name db"]
    by (cases db) (simp add: read_root_def db_json_def require_object_def string_field_def array_field_def db_ok_def)
  with assms(2) show ?thesis by (simp add: read_db_def write_db_def)
qed

lemma layout_ok_disjoint:
  "layout_ok off cs \<Longrightarrow> \<forall>c\<in>set cs. cm_len c > 0 \<Longrightarrow> i < j \<Longrightarrow> j < length cs \<Longrightarrow>
   cm_offset (cs ! i) + cm_len (cs ! i) \<le> cm_offset (cs ! j)"
proof (induction cs arbitrary: off i j)
  case Nil
  then show ?case by simp
next
  case (Cons c cs)
  obtain j' where j: "j = Suc j'" using Cons.prems(3) by (cases j) auto
  have j': "cs ! j' \<in> set cs" using Cons.prems(4) j by simp
  show ?case
  proof (cases i)
    case 0
    then show ?thesis
      using layout_ok_bound [of "off + cm_len c" cs "cs ! j'"] Cons.prems j j' by simp
  next
    case (Suc i')
    then show ?thesis using Cons.IH [of "off + cm_len c" i' j'] Cons.prems j by simp
  qed
qed

lemma tab_ok_record:
  assumes "tab_ok t" "c \<in> set (tm_cols t)"
  shows "0 \<le> cm_offset c \<and> 0 < cm_len c \<and> cm_offset c + cm_len c \<le> RM_MAX_RECORD_SIZE"
  using assms layout_ok_bound [of 0 "tm_cols t" c] by (auto simp: tab_ok_def cols_ok_def col_ok_def)

lemma length_encode_key:
  assumes "tab_ok t" "ix \<in> set (tm_indexes t)" "length record = 512"
  shows "int (length (encode_key ix record)) = col_tot_len ix"
proof -
  have fold: "foldl (\<lambda>n c. n + cm_len c) n cs = n + sum_list (map cm_len cs)" for n cs
    by (induction cs arbitrary: n) simp_all
  have iok: "index_ok t ix" using assms(1,2) by (simp add: tab_ok_def)
  have slice: "int (length (take (nat (cm_len c)) (drop (nat (cm_offset c)) record))) = cm_len c"
    if "c \<in> set (ix_cols ix)" for c
  proof -
    have "c \<in> set (tm_cols t)" using iok that by (auto simp: index_ok_def)
    from tab_ok_record [OF assms(1) this] assms(3) show ?thesis
      by (auto simp: RM_MAX_RECORD_SIZE_def min_def)
  qed
  have sum: "\<forall>c\<in>set cs. int (length (f c)) = cm_len c \<Longrightarrow> int (length (concat (map f cs))) = sum_list (map cm_len cs)"
    for f :: "ColMeta \<Rightarrow> byte list" and cs
    by (induction cs) simp_all
  have "int (length (encode_key ix record)) = sum_list (map cm_len (ix_cols ix))"
    unfolding encode_key_def using slice by (intro sum) simp
  moreover have "col_tot_len ix = sum_list (map cm_len (ix_cols ix))"
  proof -
    have "ix = rebuild_derived ix" using iok by (simp add: index_ok_def)
    then have "col_tot_len ix = col_tot_len (rebuild_derived ix)" by simp
    then show ?thesis by (simp add: rebuild_derived_def fold)
  qed
  ultimately show ?thesis by simp
qed

section \<open>Properties\<close>

text \<open>
  C21 (the catalog survives a restart). If the JSON parser reads back what the printer wrote for this catalog, then
  writing a well formed database catalog and reading the file gives the same catalog: every field that is not
  stored, the owning table, offsets, index flags and the derived index fields, is rebuilt with its old value.
\<close>

theorem catalog_roundtrip:
  assumes "db_ok db" "parse (dump (db_json db) @ ''\<newline>'') = Some (db_json db)"
  shows "read_db parse (write_db dump db) = Inr db"
  using assms by (rule read_write_db)

definition sample_table :: TabMeta where
  "sample_table =
     (let id = \<lparr>cm_tab = ''t'', cm_name = ''id'', cm_type = TYPE_INT, cm_len = 4, cm_offset = 0, cm_index = True\<rparr>;
          nm = \<lparr>cm_tab = ''t'', cm_name = ''name'', cm_type = TYPE_STRING, cm_len = 8, cm_offset = 4, cm_index = False\<rparr>
      in \<lparr>tm_name = ''t'', tm_cols = [id, nm], tm_indexes = [IndexMeta_make ''t'' [id] True]\<rparr>)"

definition sample_db :: DbMeta where
  "sample_db = \<lparr>db_name = ''db'', tabs = [(''t'', sample_table)]\<rparr>"

lemma sample_db_ok: "db_ok sample_db"
  by (simp add: sample_db_def sample_table_def db_ok_def smap_ok_def tab_ok_def cols_ok_def col_ok_def index_ok_def
      IndexMeta_make_def rebuild_derived_def RM_MAX_RECORD_SIZE_def Let_def)

theorem catalog_roundtrip_witness:
  "read_db (\<lambda>s. if s = ''x\<newline>'' then Some (db_json sample_db) else None) (write_db (\<lambda>j. ''x'') sample_db) = Inr sample_db"
  by (rule catalog_roundtrip) (simp_all add: sample_db_ok)

text \<open>
  C22 (what the catalog reader accepts). In every catalog that is read successfully, whatever the file holds, the
  columns of a table have different names, lie in a record of at most 512 bytes without overlapping, numbers
  have four bytes, and every index consists of columns of its own table, which carry the index flag.
\<close>

theorem catalog_read_layout:
  assumes "read_db parse input = Inr db" "get_table db tab = Inr t"
  shows "tm_name t = tab \<and> distinct (map cm_name (tm_cols t)) \<and>
    (\<forall>c\<in>set (tm_cols t). cm_tab c = tab \<and> 0 \<le> cm_offset c \<and> 0 < cm_len c \<and> cm_offset c + cm_len c \<le> 512 \<and>
      (cm_type c \<noteq> TYPE_STRING \<longrightarrow> cm_len c = 4)) \<and>
    (\<forall>j<length (tm_cols t). \<forall>i<j. cm_offset (tm_cols t ! i) + cm_len (tm_cols t ! i) \<le> cm_offset (tm_cols t ! j)) \<and>
    (\<forall>ix\<in>set (tm_indexes t). ix_cols ix \<noteq> [] \<and> (\<forall>c\<in>set (ix_cols ix). c \<in> set (tm_cols t) \<and> cm_index c))"
proof -
  have "db_ok db" using read_db_ok [OF assms(1)] .
  with get_table_Inr [OF assms(2)] have t: "tm_name t = tab" "tab_ok t" by (auto simp: db_ok_def)
  have lens: "\<forall>c\<in>set (tm_cols t). cm_len c > 0" using t(2) by (simp add: tab_ok_def cols_ok_def col_ok_def)
  have "cm_offset (tm_cols t ! i) + cm_len (tm_cols t ! i) \<le> cm_offset (tm_cols t ! j)"
    if "j < length (tm_cols t)" "i < j" for i j
    using layout_ok_disjoint [OF _ lens that(2,1), of 0] t(2) by (simp add: tab_ok_def cols_ok_def)
  moreover have "cm_tab c = tab \<and> 0 \<le> cm_offset c \<and> 0 < cm_len c \<and> cm_offset c + cm_len c \<le> 512 \<and>
      (cm_type c \<noteq> TYPE_STRING \<longrightarrow> cm_len c = 4)" if "c \<in> set (tm_cols t)" for c
    using tab_ok_record [OF t(2) that] t that by (simp add: RM_MAX_RECORD_SIZE_def tab_ok_def cols_ok_def col_ok_def)
  moreover have "ix_cols ix \<noteq> [] \<and> (\<forall>c\<in>set (ix_cols ix). c \<in> set (tm_cols t) \<and> cm_index c)"
    if "ix \<in> set (tm_indexes t)" for ix
    using t(2) that by (auto simp: tab_ok_def index_ok_def)
  moreover have "distinct (map cm_name (tm_cols t))" using t(2) by (simp add: tab_ok_def cols_ok_def)
  ultimately show ?thesis using t(1) by blast
qed

theorem catalog_read_layout_witness:
  "tm_name sample_table = ''t'' \<and> list_all (\<lambda>c. cm_offset c + cm_len c \<le> 512) (tm_cols sample_table)"
proof -
  have "read_db (\<lambda>s. Some (db_json sample_db)) ''x\<newline>'' = Inr sample_db"
    using read_write_db [OF sample_db_ok, of "\<lambda>s. Some (db_json sample_db)" "\<lambda>j. ''x''"] by (simp add: write_db_def)
  moreover have "get_table sample_db ''t'' = Inr sample_table" by (simp add: get_table_def sample_db_def)
  ultimately show ?thesis using catalog_read_layout by (fastforce simp: list_all_iff)
qed

end
