(* ===== verification/Byte_Memory.thy ===== *)
theory Byte_Memory
  imports Common
begin

text \<open>
  Page buffers as byte lists: four byte integers are loaded and stored by \<^verbatim>\<open>memcpy\<close> in the little endian order of the
  machine, and a store replaces the bytes from an offset on. The lemmas say that a load sees the last store to its
  bytes and nothing of a store elsewhere.
\<close>

named_theorems mem_simps \<open>loads and stores of page buffers\<close>

definition load_i32 :: "byte list \<Rightarrow> i32" where
  "load_i32 p = word_of_nat (le_val (take 4 p))"

definition store_i32 :: "i32 \<Rightarrow> byte list" where
  "store_i32 w = le_bytes 4 (unat w)"

definition splice :: "nat \<Rightarrow> byte list \<Rightarrow> byte list \<Rightarrow> byte list" where
  "splice off bs p = take off p @ bs @ drop (off + length bs) p"

definition get_i32 :: "nat \<Rightarrow> byte list \<Rightarrow> i32" where
  "get_i32 off p = load_i32 (drop off p)"

definition put_i32 :: "nat \<Rightarrow> i32 \<Rightarrow> byte list \<Rightarrow> byte list" where
  "put_i32 off w p = splice off (store_i32 w) p"

lemma length_store_i32 [simp]: "length (store_i32 w) = 4"
  by (simp add: store_i32_def)

lemma load_store_i32 [simp]: "load_i32 (store_i32 w @ bs) = w"
  by (simp add: load_i32_def store_i32_def le_word_roundtrip)

lemma load_store_i32_exact [simp]: "load_i32 (store_i32 w) = w"
  using load_store_i32 [of w "[]"] by simp

lemma le_val_bound: "le_val bs < 256 ^ length bs"
proof -
  have "le_val bs = le_val bs mod 256 ^ length bs"
    using le_val_le_bytes [of "length bs" "le_val bs"] by (simp add: le_bytes_le_val)
  then show ?thesis using mod_less_divisor [of "256 ^ length bs" "le_val bs"] by simp
qed

lemma store_load_i32:
  assumes "4 \<le> length p"
  shows "store_i32 (load_i32 p) = take 4 p"
proof -
  have "le_val (take 4 p) < 2 ^ 32" using le_val_bound [of "take 4 p"] assms by simp
  then have "unat (load_i32 p) = le_val (take 4 p)" by (simp add: load_i32_def unat_of_nat)
  then show ?thesis using le_bytes_le_val [of "take 4 p"] assms by (simp add: store_i32_def)
qed

lemma load_i32_inj: "4 \<le> length a \<Longrightarrow> 4 \<le> length b \<Longrightarrow> load_i32 a = load_i32 b \<Longrightarrow> take 4 a = take 4 b"
  by (metis store_load_i32)

lemma load_i32_take [mem_simps]: "4 \<le> n \<Longrightarrow> load_i32 (take n p) = load_i32 p"
  by (simp add: load_i32_def min_def)

lemma length_splice [mem_simps]: "off + length bs \<le> length p \<Longrightarrow> length (splice off bs p) = length p"
  by (simp add: splice_def)

lemma length_put_i32 [mem_simps]: "off + 4 \<le> length p \<Longrightarrow> length (put_i32 off w p) = length p"
  by (simp add: put_i32_def mem_simps)

lemma take_drop_splice_same [mem_simps]:
  "off + length bs \<le> length p \<Longrightarrow> take (length bs) (drop off (splice off bs p)) = bs"
  by (simp add: splice_def)

lemma take_drop_splice_other [mem_simps]:
  assumes "off + length bs \<le> length p" "a + n \<le> off \<or> off + length bs \<le> a"
  shows "take n (drop a (splice off bs p)) = take n (drop a p)"
  using assms(2)
proof
  assume "a + n \<le> off"
  then show ?thesis using assms(1) by (simp add: splice_def drop_take)
next
  assume "off + length bs \<le> a"
  then have "drop a (splice off bs p) = drop (a - (off + length bs)) (drop (off + length bs) p)"
    using assms(1) by (simp add: splice_def)
  with \<open>off + length bs \<le> a\<close> show ?thesis by simp
qed

lemma get_put_i32_same [mem_simps]: "off + 4 \<le> length p \<Longrightarrow> get_i32 off (put_i32 off w p) = w"
  using take_drop_splice_same [of off "store_i32 w" p] load_i32_take [of 4 "drop off (splice off (store_i32 w) p)"]
  by (simp add: get_i32_def put_i32_def)

lemma get_splice_other [mem_simps]:
  "off + length bs \<le> length p \<Longrightarrow> a + 4 \<le> off \<or> off + length bs \<le> a \<Longrightarrow> get_i32 a (splice off bs p) = get_i32 a p"
  using take_drop_splice_other [of off bs p a 4] load_i32_take [of 4 "drop a (splice off bs p)"] load_i32_take [of 4 "drop a p"]
  by (simp add: get_i32_def)

lemma get_put_i32_other [mem_simps]:
  "off + 4 \<le> length p \<Longrightarrow> a + 4 \<le> off \<or> off + 4 \<le> a \<Longrightarrow> get_i32 a (put_i32 off w p) = get_i32 a p"
  using get_splice_other [of off "store_i32 w" p a] by (simp add: put_i32_def)

lemma take_drop_put_i32_other [mem_simps]:
  "off + 4 \<le> length p \<Longrightarrow> a + n \<le> off \<or> off + 4 \<le> a \<Longrightarrow> take n (drop a (put_i32 off w p)) = take n (drop a p)"
  using take_drop_splice_other [of off "store_i32 w" p a n] by (simp add: put_i32_def)

end
