(* ===== verification/Index_Key.thy ===== *)
theory Index_Key
  imports Byte_Memory
begin

text \<open>
  Key comparison of \<^verbatim>\<open>src/src/index/b_plus_tree.cpp\<close>: one column and composite keys. A comparison that the B+ tree
  can search with has to be a total preorder; the locales state this contract, and the interpretations show that
  the code's comparison keeps it for every key without a NaN. Antisymmetry holds for NaN as well, and is what the
  planner needs to turn a condition around.
\<close>

section \<open>The contract of a comparison\<close>

locale antisym_cmp =
  fixes ok :: "'a \<Rightarrow> bool" and cmp :: "'a \<Rightarrow> 'a \<Rightarrow> int"
  assumes cmp_swap: "ok a \<Longrightarrow> ok b \<Longrightarrow> sgn (cmp b a) = - sgn (cmp a b)"
begin

lemma cmp_refl: "ok a \<Longrightarrow> cmp a a = 0"
  using cmp_swap [of a a] by (simp add: sgn_if split: if_splits)

lemma cmp_flip: "ok a \<Longrightarrow> ok b \<Longrightarrow> cmp b a < 0 \<longleftrightarrow> 0 < cmp a b" "ok a \<Longrightarrow> ok b \<Longrightarrow> cmp b a = 0 \<longleftrightarrow> cmp a b = 0"
  using cmp_swap [of a b] by (auto simp: sgn_if split: if_splits)

end

locale preorder_cmp = antisym_cmp +
  assumes cmp_trans: "ok a \<Longrightarrow> ok b \<Longrightarrow> ok c \<Longrightarrow> cmp a b \<le> 0 \<Longrightarrow> cmp b c \<le> 0 \<Longrightarrow> cmp a c \<le> 0"
begin

lemma cmp_total: "ok a \<Longrightarrow> ok b \<Longrightarrow> cmp a b \<le> 0 \<or> cmp b a \<le> 0"
  using cmp_flip(1) [of b a] by linarith

lemma cmp_eq_trans: "ok a \<Longrightarrow> ok b \<Longrightarrow> ok c \<Longrightarrow> cmp a b = 0 \<Longrightarrow> cmp b c = 0 \<Longrightarrow> cmp a c = 0"
  using cmp_trans [of a b c] cmp_trans [of c b a] cmp_flip [of a c] cmp_flip [of a b] cmp_flip [of b c] by linarith

lemma cmp_less_trans: "ok a \<Longrightarrow> ok b \<Longrightarrow> ok c \<Longrightarrow> cmp a b < 0 \<Longrightarrow> cmp b c \<le> 0 \<Longrightarrow> cmp a c < 0"
  using cmp_trans [of a b c] cmp_trans [of b c a] cmp_flip [of a c] cmp_flip [of a b] by linarith

end

section \<open>Comparison of one column\<close>

text \<open>
  IEEE single precision by its bits: a NaN has all exponent bits and some mantissa bit set and is neither less nor
  greater than anything; other values are ordered by sign and magnitude, and both zeros are equal.
\<close>

definition f32_nan :: "f32 \<Rightarrow> bool" where
  "f32_nan b \<longleftrightarrow> uint (take_bit 31 b) > 0x7f800000"

definition f32_key :: "f32 \<Rightarrow> int" where
  "f32_key b = (if bit b 31 then - uint (take_bit 31 b) else uint (take_bit 31 b))"

definition f32_less :: "f32 \<Rightarrow> f32 \<Rightarrow> bool" where
  "f32_less a b \<longleftrightarrow> \<not> f32_nan a \<and> \<not> f32_nan b \<and> f32_key a < f32_key b"

text \<open>\<^verbatim>\<open>memcmp\<close>: the sign of the first difference.\<close>

fun memcmp :: "nat \<Rightarrow> byte list \<Rightarrow> byte list \<Rightarrow> int" where
  "memcmp (Suc n) (x # xs) (y # ys) = (if x < y then -1 else if y < x then 1 else memcmp n xs ys)"
| "memcmp _ _ _ = 0"

definition compare_column :: "byte list option \<Rightarrow> byte list option \<Rightarrow> ColType \<Rightarrow> int \<Rightarrow> int result" where
  "compare_column left right type column_length =
     (case (left, right) of
        (Some l, Some r) \<Rightarrow>
          if column_length \<le> 0 then Inl (InternalError ''Invalid index comparison input'')
          else (case type of
              TYPE_INT \<Rightarrow>
                if column_length \<noteq> 4 then Inl (InternalError ''Invalid integer index key length'')
                else let lv = sint (load_i32 l); rv = sint (load_i32 r) in
                  Inr (if lv < rv then -1 else if lv > rv then 1 else 0)
            | TYPE_FLOAT \<Rightarrow>
                if column_length \<noteq> 4 then Inl (InternalError ''Invalid float index key length'')
                else let lv = load_i32 l; rv = load_i32 r in
                  Inr (if f32_less lv rv then -1 else if f32_less rv lv then 1 else 0)
            | TYPE_STRING \<Rightarrow> Inr (memcmp (nat column_length) l r))
      | _ \<Rightarrow> Inl (InternalError ''Invalid index comparison input''))"

text \<open>The loop over the columns of a composite key, from \<open>offset\<close> on.\<close>

fun compare_columns :: "byte list \<Rightarrow> byte list \<Rightarrow> ColType list \<Rightarrow> int list \<Rightarrow> int \<Rightarrow> int result" where
  "compare_columns left right (t # ts) (n # ns) offset =
     bindE (compare_column (Some (drop (nat offset) left)) (Some (drop (nat offset) right)) t n) (\<lambda>r.
       if r \<noteq> 0 then Inr r else compare_columns left right ts ns (offset + n))"
| "compare_columns left right _ _ offset = Inr 0"

definition compare_index_key :: "byte list \<Rightarrow> byte list \<Rightarrow> ColType list \<Rightarrow> int list \<Rightarrow> int result" where
  "compare_index_key left right column_types column_lengths =
     (if length column_types \<noteq> length column_lengths then Inl (InternalError ''Invalid composite index metadata'')
      else compare_columns left right column_types column_lengths 0)"

text \<open>The value a comparison with valid metadata returns, and the keys without NaN.\<close>

definition len_ok :: "ColType \<Rightarrow> int \<Rightarrow> bool" where
  "len_ok t n \<longleftrightarrow> n > 0 \<and> (t \<noteq> TYPE_STRING \<longrightarrow> n = 4)"

definition col_cmp :: "ColType \<Rightarrow> int \<Rightarrow> byte list \<Rightarrow> byte list \<Rightarrow> int" where
  "col_cmp t n l r = (case compare_column (Some l) (Some r) t n of Inl e \<Rightarrow> 0 | Inr c \<Rightarrow> c)"

definition col_value_ok :: "ColType \<Rightarrow> int \<Rightarrow> byte list \<Rightarrow> bool" where
  "col_value_ok t n p \<longleftrightarrow> int (length p) \<ge> n \<and> (t = TYPE_FLOAT \<longrightarrow> \<not> f32_nan (load_i32 p))"

fun key_value_ok :: "ColType list \<Rightarrow> int list \<Rightarrow> byte list \<Rightarrow> bool" where
  "key_value_ok (t # ts) (n # ns) p \<longleftrightarrow> col_value_ok t n p \<and> key_value_ok ts ns (drop (nat n) p)"
| "key_value_ok _ _ p \<longleftrightarrow> True"

fun key_cmp :: "ColType list \<Rightarrow> int list \<Rightarrow> byte list \<Rightarrow> byte list \<Rightarrow> int" where
  "key_cmp (t # ts) (n # ns) l r =
     (if col_cmp t n l r \<noteq> 0 then col_cmp t n l r else key_cmp ts ns (drop (nat n) l) (drop (nat n) r))"
| "key_cmp _ _ l r = 0"

lemma compare_column_Inr: "len_ok t n \<Longrightarrow> compare_column (Some l) (Some r) t n = Inr (col_cmp t n l r)"
  by (cases t) (auto simp: compare_column_def col_cmp_def len_ok_def Let_def)

lemma compare_columns_Inr:
  assumes "list_all2 len_ok ts ns" "0 \<le> off"
  shows "compare_columns l r ts ns off = Inr (key_cmp ts ns (drop (nat off) l) (drop (nat off) r))"
  using assms
proof (induction ts ns arbitrary: off rule: list_all2_induct)
  case Nil
  then show ?case by simp
next
  case (Cons t ts n ns)
  have n: "n > 0" using Cons.hyps by (simp add: len_ok_def)
  have "compare_columns l r ts ns (off + n) = Inr (key_cmp ts ns (drop (nat (off + n)) l) (drop (nat (off + n)) r))"
    using Cons n by simp
  moreover have "drop (nat (off + n)) xs = drop (nat n) (drop (nat off) xs)" for xs :: "byte list"
    using n Cons.prems by (simp add: nat_add_distrib add.commute)
  ultimately show ?case using compare_column_Inr [OF Cons.hyps(1)] by simp
qed

lemma compare_index_key_Inr:
  "list_all2 len_ok ts ns \<Longrightarrow> compare_index_key l r ts ns = Inr (key_cmp ts ns l r)"
  using compare_columns_Inr [of ts ns 0 l r] by (auto simp: compare_index_key_def dest: list_all2_lengthD)

section \<open>The code keeps the contract\<close>

lemma memcmp_swap: "memcmp n ys xs = - memcmp n xs ys"
  by (induction n xs ys rule: memcmp.induct) auto

lemma memcmp_range: "memcmp n xs ys \<in> {-1, 0, 1}"
  by (induction n xs ys rule: memcmp.induct) auto

lemma memcmp_eq: "n \<le> length xs \<Longrightarrow> n \<le> length ys \<Longrightarrow> memcmp n xs ys = 0 \<longleftrightarrow> take n xs = take n ys"
proof (induction n xs ys rule: memcmp.induct)
  case (1 n x xs y ys)
  then show ?case by (auto simp: not_less_iff_gr_or_eq)
qed auto

lemma memcmp_trans:
  "n \<le> length xs \<Longrightarrow> n \<le> length ys \<Longrightarrow> n \<le> length zs \<Longrightarrow> memcmp n xs ys \<le> 0 \<Longrightarrow> memcmp n ys zs \<le> 0 \<Longrightarrow>
   memcmp n xs zs \<le> 0"
proof (induction n arbitrary: xs ys zs)
  case 0
  then show ?case by simp
next
  case (Suc n)
  then obtain x xs' y ys' z zs' where l: "xs = x # xs'" "ys = y # ys'" "zs = z # zs'"
    by (metis Suc_le_length_iff)
  have "x \<le> y" "y \<le> z" using Suc.prems l by (auto split: if_splits)
  then consider "x < z" | "x = y" "y = z" by fastforce
  then show ?case
  proof cases
    case 1
    then show ?thesis by (simp add: l)
  next
    case 2
    with Suc.prems Suc.IH [of xs' ys' zs'] show ?thesis by (simp add: l)
  qed
qed

lemma f32_less_asym: "\<not> (f32_less a b \<and> f32_less b a)"
  by (simp add: f32_less_def)

lemma col_cmp_swap: "sgn (col_cmp t n b a) = - sgn (col_cmp t n a b)"
proof (cases "len_ok t n")
  case False
  then show ?thesis by (cases t) (auto simp: col_cmp_def compare_column_def len_ok_def)
next
  case ok: True
  show ?thesis
  proof (cases t)
    case TYPE_INT
    with ok show ?thesis by (simp add: col_cmp_def compare_column_def len_ok_def Let_def)
  next
    case TYPE_FLOAT
    with ok have "col_cmp t n l r =
        (if f32_less (load_i32 l) (load_i32 r) then -1 else if f32_less (load_i32 r) (load_i32 l) then 1 else 0)" for l r
      by (simp add: col_cmp_def compare_column_def len_ok_def Let_def)
    with f32_less_asym [of "load_i32 a" "load_i32 b"] show ?thesis by auto
  next
    case TYPE_STRING
    with ok memcmp_swap [of "nat n" b a] show ?thesis by (simp add: col_cmp_def compare_column_def len_ok_def)
  qed
qed

interpretation col_sym: antisym_cmp "\<lambda>_. True" "col_cmp t n" for t n
  by unfold_locales (rule col_cmp_swap)

lemma col_cmp_trans:
  assumes "col_value_ok t n a" "col_value_ok t n b" "col_value_ok t n c" "col_cmp t n a b \<le> 0" "col_cmp t n b c \<le> 0"
  shows "col_cmp t n a c \<le> 0"
proof (cases "n \<le> 0")
  case True
  then show ?thesis by (simp add: col_cmp_def compare_column_def)
next
  case False
  show ?thesis
  proof (cases t)
    case TYPE_INT
    with assms False show ?thesis
      by (auto simp: col_cmp_def compare_column_def Let_def split: if_splits)
  next
    case TYPE_FLOAT
    with assms False show ?thesis
      by (auto simp: col_cmp_def compare_column_def Let_def f32_less_def col_value_ok_def split: if_splits)
  next
    case TYPE_STRING
    have "nat n \<le> length a" "nat n \<le> length b" "nat n \<le> length c" using assms(1-3) by (auto simp: col_value_ok_def)
    with assms(4,5) False TYPE_STRING memcmp_trans [of "nat n" a b c] show ?thesis by (simp add: col_cmp_def compare_column_def)
  qed
qed

interpretation col_pre: preorder_cmp "col_value_ok t n" "col_cmp t n" for t n
  by unfold_locales (rule col_cmp_swap, erule (4) col_cmp_trans)

lemma key_cmp_swap: "sgn (key_cmp ts ns b a) = - sgn (key_cmp ts ns a b)"
proof (induction ts ns a b rule: key_cmp.induct)
  case (1 t ts n ns l r)
  then show ?case using col_cmp_swap [of t n l r] col_cmp_swap [of t n r l] by (auto simp: sgn_if split: if_splits)
qed simp_all

lemma key_cmp_trans:
  "key_value_ok ts ns a \<Longrightarrow> key_value_ok ts ns b \<Longrightarrow> key_value_ok ts ns c \<Longrightarrow>
   key_cmp ts ns a b \<le> 0 \<Longrightarrow> key_cmp ts ns b c \<le> 0 \<Longrightarrow> key_cmp ts ns a c \<le> 0"
proof (induction ts arbitrary: ns a b c)
  case Nil
  then show ?case by simp
next
  case (Cons t ts)
  show ?case
  proof (cases ns)
    case Nil
    then show ?thesis by simp
  next
    case (Cons n ms)
    let ?d = "drop (nat n)"
    from Cons.prems Cons have ok: "col_value_ok t n a" "col_value_ok t n b" "col_value_ok t n c"
      and oks: "key_value_ok ts ms (?d a)" "key_value_ok ts ms (?d b)" "key_value_ok ts ms (?d c)" by simp_all
    from Cons.prems Cons have le: "col_cmp t n a b \<le> 0" "col_cmp t n b c \<le> 0" by (auto split: if_splits)
    show ?thesis
    proof (cases "col_cmp t n a b = 0 \<and> col_cmp t n b c = 0")
      case True
      with Cons.prems Cons have "key_cmp ts ms (?d a) (?d b) \<le> 0" "key_cmp ts ms (?d b) (?d c) \<le> 0" by simp_all
      with Cons.IH [OF oks] col_pre.cmp_eq_trans [OF ok] True Cons show ?thesis by simp
    next
      case False
      then have "col_cmp t n a c < 0"
        using le ok col_pre.cmp_less_trans [OF ok] col_pre.cmp_trans [OF ok] col_pre.cmp_trans [of t n c a b]
          col_pre.cmp_flip [of t n b c] col_pre.cmp_flip [of t n a c]
        by (metis linorder_not_less order_le_less)
      then show ?thesis by (simp add: Cons)
    qed
  qed
qed

interpretation key_pre: preorder_cmp "key_value_ok ts ns" "key_cmp ts ns" for ts ns
  by unfold_locales (rule key_cmp_swap, erule (4) key_cmp_trans)

text \<open>Without float columns two keys compare equal exactly when their bytes are equal, which is what a unique index relies on.\<close>

lemma col_cmp_eq:
  assumes "len_ok t n" "t \<noteq> TYPE_FLOAT" "n \<le> int (length a)" "n \<le> int (length b)"
  shows "col_cmp t n a b = 0 \<longleftrightarrow> take (nat n) a = take (nat n) b"
proof (cases t)
  case TYPE_INT
  with assms have n: "n = 4" and l: "4 \<le> length a" "4 \<le> length b" by (simp_all add: len_ok_def)
  have "col_cmp t n a b = 0 \<longleftrightarrow> sint (load_i32 a) = sint (load_i32 b)"
    by (simp add: TYPE_INT n col_cmp_def compare_column_def Let_def)
  also have "\<dots> \<longleftrightarrow> load_i32 a = load_i32 b" by (auto intro: signed_word_eqI)
  finally show ?thesis using load_i32_inj [OF l] by (auto simp: n load_i32_def)
next
  case TYPE_STRING
  with assms memcmp_eq [of "nat n" a b] show ?thesis by (simp add: col_cmp_def compare_column_def len_ok_def)
qed (use assms in simp)

lemma key_cmp_eq:
  assumes "list_all2 len_ok ts ns" "TYPE_FLOAT \<notin> set ts" "int (length a) = sum_list ns" "int (length b) = sum_list ns"
  shows "key_cmp ts ns a b = 0 \<longleftrightarrow> a = b"
  using assms
proof (induction ts ns arbitrary: a b rule: list_all2_induct)
  case Nil
  then show ?case by simp
next
  case (Cons t ts n ns)
  have s: "sum_list ns \<ge> 0" using Cons.hyps(2)
    by (induction ts ns rule: list_all2_induct) (auto simp: len_ok_def)
  have n: "n > 0" using Cons.hyps by (simp add: len_ok_def)
  have c: "col_cmp t n a b = 0 \<longleftrightarrow> take (nat n) a = take (nat n) b"
    by (rule col_cmp_eq) (use Cons.hyps Cons.prems s in auto)
  have "key_cmp ts ns (drop (nat n) a) (drop (nat n) b) = 0 \<longleftrightarrow> drop (nat n) a = drop (nat n) b"
    by (rule Cons.IH) (use Cons.prems n s in auto)
  moreover have "take (nat n) a = take (nat n) b \<and> drop (nat n) a = drop (nat n) b \<longleftrightarrow> a = b"
    by (metis append_take_drop_id)
  ultimately show ?case using c by auto
qed

text \<open>
  C23 (key order). Whenever the metadata is valid (positive lengths, four bytes for the numeric types), comparing
  composite keys never fails, and on keys without NaN it is a total preorder: swapping the arguments turns the sign,
  and ``not greater'' is transitive. On keys without float columns it returns zero exactly for equal bytes.
\<close>

theorem index_key_order:
  assumes "list_all2 len_ok ts ns" "key_value_ok ts ns a" "key_value_ok ts ns b" "key_value_ok ts ns c"
  shows "\<exists>ab ba bc ac. compare_index_key a b ts ns = Inr ab \<and> compare_index_key b a ts ns = Inr ba \<and>
           compare_index_key b c ts ns = Inr bc \<and> compare_index_key a c ts ns = Inr ac \<and>
           sgn ba = - sgn ab \<and> (ab \<le> 0 \<and> bc \<le> 0 \<longrightarrow> ac \<le> 0) \<and>
           (TYPE_FLOAT \<notin> set ts \<and> int (length a) = sum_list ns \<and> int (length b) = sum_list ns \<longrightarrow> (ab = 0 \<longleftrightarrow> a = b))"
  using compare_index_key_Inr [OF assms(1)] key_pre.cmp_swap [OF assms(2,3)] key_pre.cmp_trans [OF assms(2-4)]
    key_cmp_eq [OF assms(1)] by auto

theorem index_key_order_witness:
  "\<exists>ab. compare_index_key [1, 0, 0, 0, 97] [2, 0, 0, 0, 97] [TYPE_INT, TYPE_STRING] [4, 1] = Inr ab"
  using index_key_order [of "[TYPE_INT, TYPE_STRING]" "[4, 1]" "[1, 0, 0, 0, 97]" "[2, 0, 0, 0, 97]" "[2, 0, 0, 0, 97]"]
  by (auto simp: len_ok_def col_value_ok_def)

text \<open>
  A NaN compares equal to every float, so with NaN keys ``equal'' is not transitive: 1.0, NaN and 2.0 compare equal
  pairwise around the NaN while 1.0 is less than 2.0.
\<close>

lemma nan_compares_equal:
  "compare_index_key [0, 0, 128, 63] [0, 0, 192, 127] [TYPE_FLOAT] [4] = Inr 0"
  "compare_index_key [0, 0, 192, 127] [0, 0, 0, 64] [TYPE_FLOAT] [4] = Inr 0"
  "compare_index_key [0, 0, 128, 63] [0, 0, 0, 64] [TYPE_FLOAT] [4] = Inr (-1)"
  by (simp_all add: compare_index_key_def compare_column_def load_i32_def f32_less_def f32_nan_def f32_key_def)

end
