(* ===== verification/Index_Header.thy ===== *)
theory Index_Header
  imports Catalog Index_Key
begin

text \<open>
  The header page of an index file (\<^verbatim>\<open>src/src/index/index_types.h\<close>, \<^verbatim>\<open>index_types.cpp\<close>): the page layout computations, the
  serialiser and the checking reader. The serialiser and the reader are inverse to each other on well formed
  headers, and a header that is accepted describes nodes that fit a page. Column types are kept as the stored
  integers, because the reader does not check them.
\<close>

section \<open>Constants and the record\<close>

definition INDEX_NO_PAGE :: i32 where "INDEX_NO_PAGE = - 1"
definition INDEX_FILE_HEADER_PAGE :: i32 where "INDEX_FILE_HEADER_PAGE = 0"
definition INDEX_LEAF_HEADER_PAGE :: i32 where "INDEX_LEAF_HEADER_PAGE = 1"
definition INDEX_INITIAL_ROOT_PAGE :: i32 where "INDEX_INITIAL_ROOT_PAGE = 2"
definition INDEX_INITIAL_PAGE_COUNT :: i32 where "INDEX_INITIAL_PAGE_COUNT = 3"
definition INDEX_MAX_KEY_LENGTH :: int where "INDEX_MAX_KEY_LENGTH = 512"

definition sizeof_IndexPageHeader :: nat where "sizeof_IndexPageHeader = 24"
definition sizeof_Rid :: nat where "sizeof_Rid = 8"
definition alignof_Rid :: nat where "alignof_Rid = 4"

lemmas index_consts = INDEX_NO_PAGE_def INDEX_FILE_HEADER_PAGE_def INDEX_LEAF_HEADER_PAGE_def INDEX_INITIAL_ROOT_PAGE_def
  INDEX_INITIAL_PAGE_COUNT_def INDEX_MAX_KEY_LENGTH_def sizeof_IndexPageHeader_def sizeof_Rid_def alignof_Rid_def

record IndexFileHeader =
  first_free_page :: i32
  page_count :: i32
  root_page :: i32
  column_count :: i32
  column_types :: "i32 list"
  column_lengths :: "i32 list"
  key_length :: i32
  tree_order :: i32
  keys_region_size :: i32
  first_leaf :: i32
  last_leaf :: i32
  hdr_unique :: bool
  hdr_size :: i32

definition fixed_serialized_size :: nat where
  "fixed_serialized_size = 4 * 4 + 4 * 7"

definition max_serialized_columns :: nat where
  "max_serialized_columns = (PAGE_SIZE - fixed_serialized_size) div (4 + 4)"

definition serialized_size :: "nat \<Rightarrow> nat" where
  "serialized_size n = fixed_serialized_size + (4 + 4) * n"

definition calculate_keys_region_size :: "int \<Rightarrow> int \<Rightarrow> int result" where
  "calculate_keys_region_size order key =
     (if order < 0 \<or> key \<le> 0 then Inl (InternalError ''Invalid index page layout'')
      else let raw_size = (order + 1) * key;
               alignment = int alignof_Rid;
               aligned_size = (raw_size + alignment - 1) div alignment * alignment
           in if aligned_size > 2147483647 then Inl (InternalError ''Invalid index page layout'') else Inr aligned_size)"

definition page_layout_fits :: "int \<Rightarrow> int \<Rightarrow> bool result" where
  "page_layout_fits order key =
     (if order < 0 \<or> key \<le> 0 then Inr False
      else bindE (calculate_keys_region_size order key) (\<lambda>region.
        Inr (int sizeof_IndexPageHeader + region + (order + 1) * int sizeof_Rid \<le> int PAGE_SIZE)))"

definition IndexFileHeader_make ::
  "i32 \<Rightarrow> i32 \<Rightarrow> i32 \<Rightarrow> i32 \<Rightarrow> i32 \<Rightarrow> i32 \<Rightarrow> i32 \<Rightarrow> i32 \<Rightarrow> i32 \<Rightarrow> bool \<Rightarrow> IndexFileHeader" where
  "IndexFileHeader_make free pages root cols key order region fst_leaf lst_leaf unique =
     \<lparr>first_free_page = free, page_count = pages, root_page = root, column_count = cols, column_types = [],
      column_lengths = [], key_length = key, tree_order = order, keys_region_size = region, first_leaf = fst_leaf,
      last_leaf = lst_leaf, hdr_unique = unique, hdr_size = 0\<rparr>"

definition update_serialized_size :: "IndexFileHeader \<Rightarrow> IndexFileHeader result" where
  "update_serialized_size h =
     (if sint (column_count h) \<le> 0 \<or> sint (column_count h) > int max_serialized_columns
      then Inl (InternalError ''Index file header exceeds one page'')
      else Inr (h\<lparr>hdr_size := word_of_nat (serialized_size (nat (sint (column_count h))))\<rparr>))"

definition store_values :: "i32 list \<Rightarrow> byte list" where
  "store_values ws = concat (map store_i32 ws)"

definition header_bytes :: "IndexFileHeader \<Rightarrow> byte list" where
  "header_bytes h =
     store_i32 (hdr_size h) @ store_i32 (first_free_page h) @ store_i32 (page_count h) @ store_i32 (root_page h) @
     store_i32 (column_count h) @ store_values (column_types h) @ store_values (column_lengths h) @
     store_i32 (key_length h) @ store_i32 (tree_order h) @ store_i32 (keys_region_size h) @
     store_i32 (first_leaf h) @ store_i32 (last_leaf h) @ store_i32 (if hdr_unique h then 1 else 0)"

definition bad_header :: "'a result" where
  "bad_header = Inl (InternalError ''Invalid index file header'')"

definition serialize :: "byte list option \<Rightarrow> IndexFileHeader \<Rightarrow> byte list result" where
  "serialize dest h =
     (case dest of
        None \<Rightarrow> bad_header
      | Some d \<Rightarrow>
          if sint (column_count h) \<le> 0 \<or> sint (column_count h) > int max_serialized_columns \<or>
             int (length (column_types h)) \<noteq> sint (column_count h) \<or>
             int (length (column_lengths h)) \<noteq> sint (column_count h) \<or>
             sint (hdr_size h) \<noteq> int (serialized_size (nat (sint (column_count h))))
          then bad_header
          else if int (length (header_bytes h)) \<noteq> sint (hdr_size h) then bad_header
          else Inr (splice 0 (header_bytes h) d))"

section \<open>The reader\<close>

definition read_values :: "nat \<Rightarrow> nat \<Rightarrow> byte list \<Rightarrow> i32 list" where
  "read_values n off p = map (\<lambda>i. get_i32 (off + 4 * i) p) [0..<n]"

fun read_lengths :: "nat \<Rightarrow> nat \<Rightarrow> byte list \<Rightarrow> int \<Rightarrow> (i32 list \<times> int) result" where
  "read_lengths 0 off p len_sum = Inr ([], len_sum)"
| "read_lengths (Suc n) off p len_sum =
     (let len = get_i32 off p in
      if sint len \<le> 0 then bad_header
      else bindE (read_lengths n (off + 4) p (len_sum + sint len)) (\<lambda>(ls, s). Inr (len # ls, s)))"

text \<open>The checks at the end of \<^verbatim>\<open>deserialize\<close>, evaluated from left to right: the layout functions may throw.\<close>

definition check_layout :: "int \<Rightarrow> IndexFileHeader \<Rightarrow> IndexFileHeader result" where
  "check_layout col_len_sum h =
     (let key = sint (key_length h); order = sint (tree_order h) in
      if col_len_sum \<noteq> key \<or> key \<le> 0 \<or> key > INDEX_MAX_KEY_LENGTH \<or> order \<le> 2 then bad_header
      else bindE (calculate_keys_region_size order key) (\<lambda>region.
        if sint (keys_region_size h) \<noteq> region then bad_header
        else bindE (page_layout_fits order key) (\<lambda>fits. if \<not> fits then bad_header else Inr h)))"

definition deserialize :: "byte list option \<Rightarrow> nat \<Rightarrow> IndexFileHeader result" where
  "deserialize src src_len =
     (case src of
        None \<Rightarrow> bad_header
      | Some p \<Rightarrow>
          if src_len < fixed_serialized_size then bad_header
          else let sz = get_i32 0 p; count = get_i32 16 p; n = nat (sint count) in
            if sint count \<le> 0 \<or> n > max_serialized_columns \<or> int (serialized_size n) \<noteq> sint sz \<or> serialized_size n > src_len
            then bad_header
            else bindE (read_lengths n (20 + 4 * n) p 0) (\<lambda>(lens, col_len_sum).
              let off = 20 + 8 * n; flag = get_i32 (off + 20) p in
              if flag \<noteq> 0 \<and> flag \<noteq> 1 then bad_header
              else check_layout col_len_sum
                \<lparr>first_free_page = get_i32 4 p, page_count = get_i32 8 p, root_page = get_i32 12 p, column_count = count,
                 column_types = read_values n 20 p, column_lengths = lens, key_length = get_i32 off p,
                 tree_order = get_i32 (off + 4) p, keys_region_size = get_i32 (off + 8) p,
                 first_leaf = get_i32 (off + 12) p, last_leaf = get_i32 (off + 16) p, hdr_unique = (flag = 1),
                 hdr_size = sz\<rparr>))"

section \<open>Well-formed headers\<close>

definition header_ok :: "IndexFileHeader \<Rightarrow> bool" where
  "header_ok h \<longleftrightarrow>
     0 < sint (column_count h) \<and> sint (column_count h) \<le> int max_serialized_columns \<and>
     int (length (column_types h)) = sint (column_count h) \<and> int (length (column_lengths h)) = sint (column_count h) \<and>
     sint (hdr_size h) = int (serialized_size (length (column_types h))) \<and>
     (\<forall>n\<in>set (column_lengths h). sint n > 0) \<and> sint (key_length h) = sum_list (map sint (column_lengths h)) \<and>
     sint (key_length h) \<le> INDEX_MAX_KEY_LENGTH \<and> sint (tree_order h) > 2 \<and>
     calculate_keys_region_size (sint (tree_order h)) (sint (key_length h)) = Inr (sint (keys_region_size h)) \<and>
     page_layout_fits (sint (tree_order h)) (sint (key_length h)) = Inr True"

lemma sum_pos: "xs \<noteq> [] \<Longrightarrow> (\<forall>x\<in>set xs. (0 :: int) < x) \<Longrightarrow> 0 < sum_list xs"
  by (induction xs rule: list_nonempty_induct) auto

lemma header_ok_key_pos: "header_ok h \<Longrightarrow> sint (key_length h) > 0"
proof -
  assume h: "header_ok h"
  then have "column_lengths h \<noteq> []" by (auto simp: header_ok_def)
  with h show ?thesis using sum_pos [of "map sint (column_lengths h)"] by (simp add: header_ok_def)
qed

lemma length_store_values [simp]: "length (store_values ws) = 4 * length ws"
  by (induction ws) (simp_all add: store_values_def)

lemma length_header_bytes:
  "length (column_lengths h) = length (column_types h) \<Longrightarrow> length (header_bytes h) = serialized_size (length (column_types h))"
  by (simp add: header_bytes_def serialized_size_def fixed_serialized_size_def)

lemma get_here [simp]: "get_i32 0 (store_i32 w @ r) = w"
  by (simp add: get_i32_def)

lemma get_skip: "length s \<le> off \<Longrightarrow> get_i32 off (s @ r) = get_i32 (off - length s) r"
  by (simp add: get_i32_def)

lemma read_values_Suc: "read_values (Suc n) off p = get_i32 off p # read_values n (off + 4) p"
  by (simp add: read_values_def upt_conv_Cons map_Suc_upt [symmetric] comp_def add.assoc del: upt_Suc)

lemma read_values_store: "read_values (length ws) (length pre) (pre @ store_values ws @ r) = ws"
proof (induction ws arbitrary: pre)
  case Nil
  then show ?case by (simp add: read_values_def)
next
  case (Cons w ws)
  from Cons.IH [of "pre @ store_i32 w"] show ?case by (simp add: read_values_Suc store_values_def get_skip)
qed

lemma read_lengths_store:
  "\<forall>w\<in>set ws. sint w > 0 \<Longrightarrow>
   read_lengths (length ws) (length pre) (pre @ store_values ws @ r) s = Inr (ws, s + sum_list (map sint ws))"
proof (induction ws arbitrary: pre s)
  case Nil
  then show ?case by simp
next
  case (Cons w ws)
  from Cons.IH [of "pre @ store_i32 w" "s + sint w"] Cons.prems show ?case
    by (simp add: store_values_def get_skip Let_def)
qed

section \<open>Printing and reading are inverse\<close>

lemma check_layout_ok:
  "check_layout s h = Inr h' \<longleftrightarrow>
     h' = h \<and> s = sint (key_length h) \<and> 0 < sint (key_length h) \<and> sint (key_length h) \<le> INDEX_MAX_KEY_LENGTH \<and>
     2 < sint (tree_order h) \<and>
     calculate_keys_region_size (sint (tree_order h)) (sint (key_length h)) = Inr (sint (keys_region_size h)) \<and>
     page_layout_fits (sint (tree_order h)) (sint (key_length h)) = Inr True"
  by (auto simp: check_layout_def Let_def bad_header_def bindE_def split: sum.splits if_splits)

lemma deserialize_header_bytes:
  assumes "header_ok h" "serialized_size (length (column_types h)) \<le> src_len"
  shows "deserialize (Some (header_bytes h @ r)) src_len = Inr h"
proof -
  define n where "n = length (column_types h)"
  let ?p = "header_bytes h @ r"
  have n: "sint (column_count h) = int n" "length (column_lengths h) = n" "length (column_types h) = n" "0 < n"
    "n \<le> max_serialized_columns" "sint (hdr_size h) = int (serialized_size n)"
    using assms(1) by (auto simp: header_ok_def n_def)
  have g: "get_i32 0 ?p = hdr_size h" "get_i32 4 ?p = first_free_page h" "get_i32 8 ?p = page_count h"
      "get_i32 12 ?p = root_page h" "get_i32 16 ?p = column_count h" "get_i32 (20 + 8 * n) ?p = key_length h"
      "get_i32 (24 + 8 * n) ?p = tree_order h" "get_i32 (28 + 8 * n) ?p = keys_region_size h"
      "get_i32 (32 + 8 * n) ?p = first_leaf h" "get_i32 (36 + 8 * n) ?p = last_leaf h"
      "get_i32 (40 + 8 * n) ?p = (if hdr_unique h then 1 else 0)"
    by (simp_all add: header_bytes_def get_skip n)
  let ?pre = "store_i32 (hdr_size h) @ store_i32 (first_free_page h) @ store_i32 (page_count h) @
    store_i32 (root_page h) @ store_i32 (column_count h)"
  obtain tl where tl: "?p = ?pre @ store_values (column_types h) @ store_values (column_lengths h) @ tl"
    by (simp add: header_bytes_def)
  have types: "read_values n 20 ?p = column_types h"
    using read_values_store [of "column_types h" ?pre "store_values (column_lengths h) @ tl"] by (simp add: tl n)
  have lens: "read_lengths n (20 + 4 * n) ?p 0 = Inr (column_lengths h, sint (key_length h))"
    using read_lengths_store [of "column_lengths h" "?pre @ store_values (column_types h)" tl 0] assms(1)
    by (simp add: tl n header_ok_def)
  have "check_layout (sint (key_length h)) h = Inr h"
    using assms(1) header_ok_key_pos [OF assms(1)] unfolding check_layout_ok header_ok_def by blast
  moreover have "fixed_serialized_size \<le> src_len" using assms(2) by (simp add: serialized_size_def)
  moreover have same: "\<lparr>first_free_page = first_free_page h, page_count = page_count h, root_page = root_page h,
      column_count = column_count h, column_types = column_types h, column_lengths = column_lengths h,
      key_length = key_length h, tree_order = tree_order h, keys_region_size = keys_region_size h,
      first_leaf = first_leaf h, last_leaf = last_leaf h, hdr_unique = u, hdr_size = hdr_size h\<rparr> = h"
    if "hdr_unique h = u" for u
    using that by (cases h) simp
  ultimately show ?thesis
    using assms(2) n by (cases "hdr_unique h") (simp_all add: deserialize_def g types lens Let_def same [of True] same [of False])
qed

lemma take_header_piece: "off + 4 \<le> length p \<Longrightarrow> store_i32 (get_i32 off p) = take 4 (drop off p)"
  by (simp add: get_i32_def store_load_i32)

lemma store_read_values: "off + 4 * n \<le> length p \<Longrightarrow> store_values (read_values n off p) = take (4 * n) (drop off p)"
proof (induction n arbitrary: off)
  case 0
  then show ?case by (simp add: store_values_def read_values_def)
next
  case (Suc n)
  have "take (4 * Suc n) (drop off p) = take 4 (drop off p) @ take (4 * n) (drop (off + 4) p)"
    using take_add [of 4 "4 * n" "drop off p"] by (simp add: add.commute)
  with Suc show ?case by (simp add: read_values_Suc store_values_def take_header_piece)
qed

lemma read_lengths_Inr:
  "read_lengths n off p s = Inr (ls, t) \<Longrightarrow>
   ls = read_values n off p \<and> t = s + sum_list (map sint ls) \<and> (\<forall>l\<in>set ls. sint l > 0)"
proof (induction n arbitrary: off s ls t)
  case 0
  then show ?case by (simp add: read_values_def)
next
  case (Suc n)
  then show ?case
    by (auto simp: Let_def bad_header_def bindE_def read_values_Suc split: if_splits sum.splits)
      (metis add.assoc)+
qed

lemma take_chunks: "take (a + b) (drop off p) = take a (drop off p) @ take b (drop (off + a) p)"
  using take_add [of a b "drop off p"] by (simp add: add.commute)

lemma deserialize_Inr:
  assumes "deserialize (Some p) src_len = Inr h" "src_len \<le> length p"
  shows "header_ok h" "header_bytes h = take (length (header_bytes h)) p"
proof -
  define n where "n = nat (sint (get_i32 16 p))"
  from assms(1) obtain lens s where
    c: "0 < sint (get_i32 16 p)" "n \<le> max_serialized_columns" "int (serialized_size n) = sint (get_i32 0 p)"
      "serialized_size n \<le> src_len" and
    l: "read_lengths n (20 + 4 * n) p 0 = Inr (lens, s)" and
    f: "get_i32 (20 + 8 * n + 20) p = 0 \<or> get_i32 (20 + 8 * n + 20) p = 1" and
    h: "check_layout s \<lparr>first_free_page = get_i32 4 p, page_count = get_i32 8 p, root_page = get_i32 12 p,
       column_count = get_i32 16 p, column_types = read_values n 20 p, column_lengths = lens,
       key_length = get_i32 (20 + 8 * n) p, tree_order = get_i32 (20 + 8 * n + 4) p,
       keys_region_size = get_i32 (20 + 8 * n + 8) p, first_leaf = get_i32 (20 + 8 * n + 12) p,
       last_leaf = get_i32 (20 + 8 * n + 16) p, hdr_unique = (get_i32 (20 + 8 * n + 20) p = 1), hdr_size = get_i32 0 p\<rparr> = Inr h"
    by (auto simp: deserialize_def Let_def bad_header_def bindE_def n_def [symmetric] split: if_splits sum.splits)
  note rl = read_lengths_Inr [OF l]
  note hh = h [unfolded check_layout_ok]
  have len: "44 + 8 * n \<le> length p" using c(4) assms(2) by (simp add: serialized_size_def fixed_serialized_size_def)
  have nlen: "length (read_values m off p) = m" for m off by (simp add: read_values_def)
  show "header_ok h"
    using hh c rl nlen by (auto simp: header_ok_def n_def)
  have flag: "(if get_i32 (20 + 8 * n + 20) p = 1 then 1 else 0) = get_i32 (20 + 8 * n + 20) p" using f by auto
  have flag': "store_i32 (if get_i32 (40 + 8 * n) p = 1 then 1 else 0) = take 4 (drop (40 + 8 * n) p)"
    using flag take_header_piece [of "40 + 8 * n" p] len by (simp add: add.commute add.left_commute)
  have "header_bytes h = take 4 (drop 0 p) @ take 4 (drop 4 p) @ take 4 (drop 8 p) @ take 4 (drop 12 p) @ take 4 (drop 16 p) @
      take (4 * n) (drop 20 p) @ take (4 * n) (drop (20 + 4 * n) p) @ take 4 (drop (20 + 8 * n) p) @
      take 4 (drop (20 + 8 * n + 4) p) @ take 4 (drop (20 + 8 * n + 8) p) @ take 4 (drop (20 + 8 * n + 12) p) @
      take 4 (drop (20 + 8 * n + 16) p) @ take 4 (drop (20 + 8 * n + 20) p)"
    using hh rl len by (simp add: header_bytes_def store_read_values take_header_piece flag')
  also have "\<dots> = take (44 + 8 * n) (drop 0 p)"
  proof -
    have e: "44 + 8 * n = 4 + (4 + (4 + (4 + (4 + (4 * n + (4 * n + (4 + (4 + (4 + (4 + (4 + 4)))))))))))" by simp
    show ?thesis unfolding e take_chunks by (simp add: add.assoc add.commute add.left_commute)
  qed
  finally have eq: "header_bytes h = take (44 + 8 * n) p" by simp
  then have "length (header_bytes h) = 44 + 8 * n" using len by simp
  with eq show "header_bytes h = take (length (header_bytes h)) p" by simp
qed

lemma serialize_ok:
  assumes "header_ok h"
  shows "serialize (Some d) h = Inr (header_bytes h @ drop (length (header_bytes h)) d)"
    "length (header_bytes h) = serialized_size (length (column_types h))"
proof -
  show l: "length (header_bytes h) = serialized_size (length (column_types h))"
    by (rule length_header_bytes) (use assms in \<open>simp add: header_ok_def\<close>)
  have c: "nat (sint (column_count h)) = length (column_types h)"
    using assms unfolding header_ok_def by (metis nat_int)
  show "serialize (Some d) h = Inr (header_bytes h @ drop (length (header_bytes h)) d)"
    using assms unfolding serialize_def header_ok_def option.case c l by (simp add: splice_def l)
qed

text \<open>The node layout of a well formed header: keys and record ids of one entry more than the order, in disjoint parts of a page.\<close>

lemma header_ok_layout:
  assumes "header_ok h"
  shows "2 < sint (tree_order h) \<and> 0 < sint (key_length h) \<and> sint (key_length h) \<le> 512 \<and>
    (sint (tree_order h) + 1) * sint (key_length h) \<le> sint (keys_region_size h) \<and> 4 dvd sint (keys_region_size h) \<and>
    24 + sint (keys_region_size h) + (sint (tree_order h) + 1) * 8 \<le> 4096"
proof -
  have k: "0 < sint (key_length h)" using header_ok_key_pos [OF assms] .
  from assms have o: "2 < sint (tree_order h)" "sint (key_length h) \<le> 512"
    and r: "calculate_keys_region_size (sint (tree_order h)) (sint (key_length h)) = Inr (sint (keys_region_size h))"
    and f: "page_layout_fits (sint (tree_order h)) (sint (key_length h)) = Inr True"
    unfolding header_ok_def INDEX_MAX_KEY_LENGTH_def by blast+
  define raw where "raw = (sint (tree_order h) + 1) * sint (key_length h)"
  have "sint (keys_region_size h) = (3 + raw) div 4 * 4"
    using r k o by (simp add: calculate_keys_region_size_def index_consts Let_def raw_def split: if_splits)
  then have "raw \<le> sint (keys_region_size h)" "4 dvd sint (keys_region_size h)" by presburger+
  moreover have "24 + sint (keys_region_size h) + (sint (tree_order h) + 1) * 8 \<le> 4096"
    using f r k o by (simp add: page_layout_fits_def index_consts PAGE_SIZE_def)
  ultimately show ?thesis using k o by (simp add: raw_def)
qed

section \<open>Properties\<close>

text \<open>
  The index header survives a restart. A well formed header is serialised into any buffer that is long enough,
  and reading the buffer gives the header back, whatever follows it in the page.
\<close>

theorem index_header_roundtrip:
  assumes "header_ok h" "serialized_size (length (column_types h)) \<le> src_len" "src_len \<le> length d"
  shows "\<exists>p. serialize (Some d) h = Inr p \<and> length p = length d \<and> deserialize (Some p) src_len = Inr h"
proof -
  show ?thesis
    using serialize_ok(1) [OF assms(1), of d] serialize_ok(2) [OF assms(1)] deserialize_header_bytes [OF assms(1,2)] assms(2,3) by auto
qed

definition sample_header :: IndexFileHeader where
  "sample_header =
     \<lparr>first_free_page = - 1, page_count = 3, root_page = 2, column_count = 1, column_types = [0], column_lengths = [4],
      key_length = 4, tree_order = 338, keys_region_size = 1356, first_leaf = 2, last_leaf = 2, hdr_unique = True,
      hdr_size = 52\<rparr>"

lemma sample_header_ok: "header_ok sample_header"
  by (simp add: sample_header_def header_ok_def max_serialized_columns_def fixed_serialized_size_def PAGE_SIZE_def
      serialized_size_def calculate_keys_region_size_def page_layout_fits_def index_consts Let_def)

theorem index_header_roundtrip_witness:
  "\<exists>p. serialize (Some (replicate PAGE_SIZE 0)) sample_header = Inr p \<and> deserialize (Some p) PAGE_SIZE = Inr sample_header"
  using index_header_roundtrip [OF sample_header_ok, of PAGE_SIZE "replicate PAGE_SIZE 0"]
  by (auto simp: sample_header_def serialized_size_def fixed_serialized_size_def PAGE_SIZE_def)

text \<open>
  C29 (what the header reader accepts). A header page that is accepted is the serialisation of the header that is
  returned, and the node layout it describes is safe: the keys and the record ids of one more entry than the order,
  which an overfull node needs, lie behind the page header in two disjoint parts of a page.
\<close>

theorem index_header_accept:
  assumes "deserialize (Some p) src_len = Inr h" "src_len \<le> length p"
  shows "serialize (Some p) h = Inr p \<and> 2 < sint (tree_order h) \<and> 0 < sint (key_length h) \<and> sint (key_length h) \<le> 512 \<and>
    (sint (tree_order h) + 1) * sint (key_length h) \<le> sint (keys_region_size h) \<and> 4 dvd sint (keys_region_size h) \<and>
    24 + sint (keys_region_size h) + (sint (tree_order h) + 1) * 8 \<le> 4096"
proof -
  note ok = deserialize_Inr [OF assms]
  have "serialize (Some p) h = Inr (header_bytes h @ drop (length (header_bytes h)) p)" by (rule serialize_ok(1) [OF ok(1)])
  also have "\<dots> = Inr p" by (metis append_take_drop_id ok(2))
  finally have ser: "serialize (Some p) h = Inr p" .
  with header_ok_layout [OF ok(1)] show ?thesis by simp
qed

theorem index_header_accept_witness:
  "24 + sint (keys_region_size sample_header) + (sint (tree_order sample_header) + 1) * 8 \<le> 4096"
proof -
  have "deserialize (Some (header_bytes sample_header)) 52 = Inr sample_header"
    using deserialize_header_bytes [OF sample_header_ok, of 52 "[]"]
    by (simp add: sample_header_def serialized_size_def fixed_serialized_size_def)
  moreover have "52 \<le> length (header_bytes sample_header)"
    by (simp add: header_bytes_def sample_header_def)
  ultimately show ?thesis using index_header_accept by blast
qed

end
