(* ===== verification/Effects.thy ===== *)
theory Effects
  imports Common
begin

text \<open>
  Computations that change a state and may throw: a function from the state to a result and the new state. An exception
  keeps the state changes made before it, as C++ does. The disk manager's file operations, which the code calls but
  does not implement, are such computations over an arbitrary state of the disk.
\<close>

type_synonym ('s, 'a) eff = "'s \<Rightarrow> 'a result \<times> 's"

named_theorems eff_simps \<open>evaluation of effectful computations\<close>

definition retS :: "'a \<Rightarrow> ('s, 'a) eff" where
  "retS x s = (Inr x, s)"

definition throwS :: "rmdb_error \<Rightarrow> ('s, 'a) eff" where
  "throwS e s = (Inl e, s)"

definition bindS :: "('s, 'a) eff \<Rightarrow> ('a \<Rightarrow> ('s, 'b) eff) \<Rightarrow> ('s, 'b) eff" where
  "bindS m f s = (case m s of (Inl e, s') \<Rightarrow> (Inl e, s') | (Inr x, s') \<Rightarrow> f x s')"

definition thenS :: "('s, 'a) eff \<Rightarrow> ('s, 'b) eff \<Rightarrow> ('s, 'b) eff" where
  "thenS m n = bindS m (\<lambda>_. n)"

text \<open>\<^verbatim>\<open>try { m } catch (...) { h; throw; }\<close>: the handler runs on the state the exception left; if it throws itself, its exception wins.\<close>

definition cleanupS :: "('s, 'a) eff \<Rightarrow> ('s, unit) eff \<Rightarrow> ('s, 'a) eff" where
  "cleanupS m h s =
     (case m s of
        (Inr x, s') \<Rightarrow> (Inr x, s')
      | (Inl e, s') \<Rightarrow> (case h s' of (Inr u, s'') \<Rightarrow> (Inl e, s'') | (Inl e', s'') \<Rightarrow> (Inl e', s'')))"

definition liftE :: "'a result \<Rightarrow> ('s, 'a) eff" where
  "liftE r s = (r, s)"

text \<open>A computation on a part of the state.\<close>

definition onS :: "('t \<Rightarrow> 's) \<Rightarrow> ('s \<Rightarrow> 't \<Rightarrow> 't) \<Rightarrow> ('s, 'a) eff \<Rightarrow> ('t, 'a) eff" where
  "onS get put m t = (case m (get t) of (r, s) \<Rightarrow> (r, put s t))"

lemmas eff_defs = retS_def throwS_def bindS_def thenS_def cleanupS_def liftE_def onS_def

lemma bindS_Inr [eff_simps]: "m s = (Inr x, s') \<Longrightarrow> bindS m f s = f x s'"
  by (simp add: bindS_def)

lemma bindS_Inl [eff_simps]: "m s = (Inl e, s') \<Longrightarrow> bindS m f s = (Inl e, s')"
  by (simp add: bindS_def)

lemma bindS_split:
  "bindS m f s = (r, t) \<longleftrightarrow>
     (\<exists>e. m s = (Inl e, t) \<and> r = Inl e) \<or> (\<exists>x s'. m s = (Inr x, s') \<and> f x s' = (r, t))"
  by (cases "m s") (auto simp: bindS_def split: sum.splits)

lemma thenS_split:
  "thenS m n s = (r, t) \<longleftrightarrow>
     (\<exists>e. m s = (Inl e, t) \<and> r = Inl e) \<or> (\<exists>x s'. m s = (Inr x, s') \<and> n s' = (r, t))"
  by (simp add: thenS_def bindS_split)

section \<open>The disk manager's operations\<close>

text \<open>
  The file operations of \<^verbatim>\<open>DiskManager\<close> are exercises without a body in this repository; \<^verbatim>\<open>discard_file_pages\<close> of the buffer
  pool rests on such operations. They are the components of this record, over an arbitrary state \<open>'d\<close> of disk and pool.
\<close>

record 'd disk_ops =
  create_file_op :: "string \<Rightarrow> ('d, unit) eff"
  destroy_file_op :: "string \<Rightarrow> ('d, unit) eff"
  open_file_op :: "string \<Rightarrow> ('d, int) eff"
  close_file_op :: "int \<Rightarrow> ('d, unit) eff"
  write_page_op :: "int \<Rightarrow> int \<Rightarrow> byte list \<Rightarrow> ('d, unit) eff"
  read_page_op :: "int \<Rightarrow> int \<Rightarrow> nat \<Rightarrow> ('d, byte list) eff"
  file_size_op :: "int \<Rightarrow> ('d, int) eff"
  set_fd2pageno_op :: "int \<Rightarrow> int \<Rightarrow> ('d, unit) eff"
  discard_pages_op :: "int \<Rightarrow> ('d, unit) eff"

end
