(* ===== verification/Index_Tree.thy ===== *)
theory Index_Tree
  imports Index_Header Effects
begin

text \<open>
  The parts of the B+ tree that the repository implements (\<^verbatim>\<open>src/src/index/b_plus_tree.h\<close>, \<^verbatim>\<open>b_plus_tree.cpp\<close>,
  \<^verbatim>\<open>index_scan.cpp\<close>): the view of a node over the bytes of its page, fetching nodes, unlinking a leaf from the leaf
  chain, propagating a changed first key to the ancestors, and the scan along the leaves. Search, insertion, splitting and
  merging are exercises without a body. The lemmas show that the chain stays a ring without the unlinked leaf, that
  separator keys are repaired up to the root, and that a scan visits every entry once and reaches its end.
\<close>

section \<open>Nodes\<close>

definition get_size :: "byte list \<Rightarrow> i32" where "get_size p = get_i32 8 p"
definition set_size :: "i32 \<Rightarrow> byte list \<Rightarrow> byte list" where "set_size n p = put_i32 8 n p"

definition get_max_size :: "IndexFileHeader \<Rightarrow> int" where "get_max_size h = sint (tree_order h) + 1"
definition get_min_size :: "IndexFileHeader \<Rightarrow> int" where "get_min_size h = get_max_size h div 2"

definition get_parent_page_no :: "byte list \<Rightarrow> i32" where "get_parent_page_no p = get_i32 4 p"
definition set_parent_page_no :: "i32 \<Rightarrow> byte list \<Rightarrow> byte list" where "set_parent_page_no n p = put_i32 4 n p"

definition is_leaf_page :: "byte list \<Rightarrow> bool" where "is_leaf_page p \<longleftrightarrow> p ! 12 \<noteq> 0"
definition is_root_page :: "byte list \<Rightarrow> bool" where "is_root_page p \<longleftrightarrow> get_parent_page_no p = INDEX_NO_PAGE"

definition get_prev_leaf :: "byte list \<Rightarrow> i32" where "get_prev_leaf p = get_i32 16 p"
definition get_next_leaf :: "byte list \<Rightarrow> i32" where "get_next_leaf p = get_i32 20 p"
definition set_prev_leaf :: "i32 \<Rightarrow> byte list \<Rightarrow> byte list" where "set_prev_leaf n p = put_i32 16 n p"
definition set_next_leaf :: "i32 \<Rightarrow> byte list \<Rightarrow> byte list" where "set_next_leaf n p = put_i32 20 n p"

definition key_off :: "IndexFileHeader \<Rightarrow> nat \<Rightarrow> nat" where
  "key_off h i = sizeof_IndexPageHeader + i * nat (sint (key_length h))"

definition rid_off :: "IndexFileHeader \<Rightarrow> nat \<Rightarrow> nat" where
  "rid_off h i = sizeof_IndexPageHeader + nat (sint (keys_region_size h)) + i * sizeof_Rid"

definition get_key :: "IndexFileHeader \<Rightarrow> nat \<Rightarrow> byte list \<Rightarrow> byte list" where
  "get_key h i p = take (nat (sint (key_length h))) (drop (key_off h i) p)"

definition set_key :: "IndexFileHeader \<Rightarrow> nat \<Rightarrow> byte list \<Rightarrow> byte list \<Rightarrow> byte list" where
  "set_key h i key p = splice (key_off h i) (take (nat (sint (key_length h))) key) p"

definition key_at :: "IndexFileHeader \<Rightarrow> nat \<Rightarrow> byte list \<Rightarrow> i32" where
  "key_at h i p = load_i32 (drop (key_off h i) p)"

definition node_rid :: "IndexFileHeader \<Rightarrow> nat \<Rightarrow> byte list \<Rightarrow> Rid" where
  "node_rid h i p = \<lparr>page_no = sint (get_i32 (rid_off h i) p), slot_no = sint (get_i32 (rid_off h i + 4) p)\<rparr>"

definition set_rid :: "IndexFileHeader \<Rightarrow> nat \<Rightarrow> Rid \<Rightarrow> byte list \<Rightarrow> byte list" where
  "set_rid h i r p =
     put_i32 (rid_off h i + 4) (word_of_int (slot_no r)) (put_i32 (rid_off h i) (word_of_int (page_no r)) p)"

definition value_at :: "IndexFileHeader \<Rightarrow> nat \<Rightarrow> byte list \<Rightarrow> i32" where
  "value_at h i p = get_i32 (rid_off h i) p"

text \<open>The search loop of \<^verbatim>\<open>find_child\<close>, and its assertion.\<close>

fun find_child_from :: "IndexFileHeader \<Rightarrow> i32 \<Rightarrow> byte list \<Rightarrow> nat \<Rightarrow> nat \<Rightarrow> nat" where
  "find_child_from h child p i 0 = i"
| "find_child_from h child p i (Suc n) = (if value_at h i p \<noteq> child then find_child_from h child p (i + 1) n else i)"

definition find_child :: "IndexFileHeader \<Rightarrow> i32 \<Rightarrow> byte list \<Rightarrow> nat result" where
  "find_child h child p =
     (let n = nat (sint (get_size p)); i = find_child_from h child p 0 n in
      if i < n then Inr i else Inl AssertionFailure)"

text \<open>\<^verbatim>\<open>erase_pair\<close> is an exercise; it is the argument \<open>erase\<close>.\<close>

definition remove_and_return_only_child ::
  "(nat \<Rightarrow> byte list \<Rightarrow> byte list) \<Rightarrow> IndexFileHeader \<Rightarrow> byte list \<Rightarrow> i32 result \<times> byte list" where
  "remove_and_return_only_child erase h p =
     (if get_size p \<noteq> 1 then (Inl AssertionFailure, p)
      else let child_page_no = value_at h 0 p; p1 = erase 0 p in
        if get_size p1 \<noteq> 0 then (Inl AssertionFailure, p1) else (Inr child_page_no, p1))"

section \<open>The tree\<close>

text \<open>
  Pages as the buffer pool shows them. Whether the pool can serve a fetch is not decided here: \<open>bt_serves\<close> answers the
  fetches in their order, \<open>bt_tick\<close> counts them. A node handle is the page number, or \<open>None\<close> for a failed fetch; handles
  to the same page see the same bytes.
\<close>

record BPlusTree =
  bt_fd :: int
  bt_header :: IndexFileHeader
  bt_pages :: "i32 \<Rightarrow> byte list option"
  bt_serves :: "nat \<Rightarrow> bool"
  bt_tick :: nat

definition bt_page :: "BPlusTree \<Rightarrow> i32 \<Rightarrow> byte list" where
  "bt_page t n = (case bt_pages t n of None \<Rightarrow> [] | Some p \<Rightarrow> p)"

definition write_node :: "i32 \<Rightarrow> (byte list \<Rightarrow> byte list) \<Rightarrow> BPlusTree \<Rightarrow> BPlusTree" where
  "write_node n f t = t\<lparr>bt_pages := (bt_pages t)(n \<mapsto> f (bt_page t n))\<rparr>"

definition fetch_node :: "i32 \<Rightarrow> BPlusTree \<Rightarrow> i32 option \<times> BPlusTree" where
  "fetch_node n t =
     ((if bt_serves t (bt_tick t) \<and> bt_pages t n \<noteq> None then Some n else None), t\<lparr>bt_tick := Suc (bt_tick t)\<rparr>)"

definition create_node :: "(BPlusTree \<Rightarrow> i32 option \<times> BPlusTree) \<Rightarrow> BPlusTree \<Rightarrow> i32 option \<times> BPlusTree" where
  "create_node new_page_guard t =
     (case new_page_guard t of
        (None, t1) \<Rightarrow> (None, t1)
      | (Some n, t1) \<Rightarrow> (Some n, t1\<lparr>bt_header := (bt_header t1)\<lparr>page_count := page_count (bt_header t1) + 1\<rparr>\<rparr>))"

definition record_page_deletion :: "BPlusTree \<Rightarrow> BPlusTree" where
  "record_page_deletion t = t\<lparr>bt_header := (bt_header t)\<lparr>page_count := page_count (bt_header t) - 1\<rparr>\<rparr>"

definition bt_is_unique :: "BPlusTree \<Rightarrow> bool" where "bt_is_unique t \<longleftrightarrow> hdr_unique (bt_header t)"
definition bt_is_empty :: "BPlusTree \<Rightarrow> bool" where "bt_is_empty t \<longleftrightarrow> root_page (bt_header t) = INDEX_NO_PAGE"

definition set_root_page :: "i32 \<Rightarrow> BPlusTree \<Rightarrow> BPlusTree" where
  "set_root_page root t = t\<lparr>bt_header := (bt_header t)\<lparr>root_page := root\<rparr>\<rparr>"

definition update_child_parent :: "i32 option \<Rightarrow> nat \<Rightarrow> BPlusTree \<Rightarrow> BPlusTree" where
  "update_child_parent node child_idx t =
     (case node of
        None \<Rightarrow> t
      | Some n \<Rightarrow>
          if is_leaf_page (bt_page t n) then t
          else (case fetch_node (value_at (bt_header t) child_idx (bt_page t n)) t of
             (None, t1) \<Rightarrow> t1
           | (Some c, t1) \<Rightarrow> write_node c (set_parent_page_no n) t1))"

text \<open>Unlinking a leaf, with the roll-back of the first link when the second page cannot be fetched.\<close>

definition unlink_leaf :: "i32 option \<Rightarrow> (BPlusTree, unit) eff" where
  "unlink_leaf leaf t =
     (case leaf of
        None \<Rightarrow> (Inl (InternalError ''unlink_leaf requires a valid leaf node''), t)
      | Some leaf_page \<Rightarrow>
          if \<not> is_leaf_page (bt_page t leaf_page) then (Inl (InternalError ''unlink_leaf requires a valid leaf node''), t)
          else let prev_page = get_prev_leaf (bt_page t leaf_page); next_page = get_next_leaf (bt_page t leaf_page) in
            (case fetch_node prev_page t of
               (None, t1) \<Rightarrow> (Inl (InternalError ''unlink_leaf failed to fetch previous leaf''), t1)
             | (Some prev, t1) \<Rightarrow>
                 let t2 = write_node prev (set_next_leaf next_page) t1 in
                 (case fetch_node next_page t2 of
                    (Some nxt, t3) \<Rightarrow> (Inr (), write_node nxt (set_prev_leaf prev_page) t3)
                  | (None, t3) \<Rightarrow>
                      (Inl (InternalError ''unlink_leaf failed to fetch next leaf; previous link rolled back''),
                       (case fetch_node prev_page t3 of
                          (Some prev', t4) \<Rightarrow> write_node prev' (set_next_leaf leaf_page) t4
                        | (None, t4) \<Rightarrow> t4)))))"

text \<open>The loop that repairs separator keys from a node up; \<open>None\<close> when the fuel does not suffice.\<close>

fun update_ancestor_keys :: "nat \<Rightarrow> i32 \<Rightarrow> BPlusTree \<Rightarrow> (unit result \<times> BPlusTree) option" where
  "update_ancestor_keys 0 current_page t = None"
| "update_ancestor_keys (Suc fuel) current_page t =
     (let h = bt_header t in
      case fetch_node current_page t of
        (None, t1) \<Rightarrow> Some (Inr (), t1)
      | (Some current, t1) \<Rightarrow>
          if get_parent_page_no (bt_page t1 current) = INDEX_NO_PAGE then Some (Inr (), t1)
          else (case fetch_node (get_parent_page_no (bt_page t1 current)) t1 of
             (None, t2) \<Rightarrow> Some (Inr (), t2)
           | (Some parent, t2) \<Rightarrow>
               (case find_child h current (bt_page t2 parent) of
                  Inl e \<Rightarrow> Some (Inl e, t2)
                | Inr rank \<Rightarrow>
                    if get_key h rank (bt_page t2 parent) = get_key h 0 (bt_page t2 current) then Some (Inr (), t2)
                    else update_ancestor_keys fuel parent
                      (write_node parent (set_key h rank (get_key h 0 (bt_page t2 current))) t2))))"

section \<open>Scanning\<close>

record IndexPosition =
  pos_page :: i32
  pos_slot :: int

definition leaf_begin :: "BPlusTree \<Rightarrow> IndexPosition" where
  "leaf_begin t = \<lparr>pos_page = first_leaf (bt_header t), pos_slot = 0\<rparr>"

definition leaf_end :: "(BPlusTree, IndexPosition) eff" where
  "leaf_end t =
     (case fetch_node (last_leaf (bt_header t)) t of
        (None, t1) \<Rightarrow> (Inl (InternalError ''failed to fetch last leaf for index scan''), t1)
      | (Some n, t1) \<Rightarrow> (Inr \<lparr>pos_page = last_leaf (bt_header t), pos_slot = sint (get_size (bt_page t1 n))\<rparr>, t1))"

definition get_rid :: "IndexPosition \<Rightarrow> (BPlusTree, Rid) eff" where
  "get_rid pos t =
     (case fetch_node (pos_page pos) t of
        (None, t1) \<Rightarrow> (Inl IndexEntryNotFoundError, t1)
      | (Some n, t1) \<Rightarrow>
          if pos_slot pos < 0 \<or> pos_slot pos \<ge> sint (get_size (bt_page t1 n)) then (Inl IndexEntryNotFoundError, t1)
          else (Inr (node_rid (bt_header t) (nat (pos_slot pos)) (bt_page t1 n)), t1))"

record IndexScan =
  is_position :: IndexPosition
  is_end_pos :: IndexPosition

definition scan_is_end :: "IndexScan \<Rightarrow> bool" where
  "scan_is_end s \<longleftrightarrow> is_position s = is_end_pos s"

definition scan_next :: "IndexScan \<Rightarrow> (BPlusTree, IndexScan) eff" where
  "scan_next s t =
     (if scan_is_end s then (Inl AssertionFailure, t)
      else (case fetch_node (pos_page (is_position s)) t of
         (None, t1) \<Rightarrow> (Inl AssertionFailure, t1)
       | (Some n, t1) \<Rightarrow>
           let p = bt_page t1 n; pos = is_position s; pos1 = pos\<lparr>pos_slot := pos_slot pos + 1\<rparr> in
           if \<not> is_leaf_page p \<or> \<not> pos_slot pos < sint (get_size p) then (Inl AssertionFailure, t1)
           else if pos_page pos \<noteq> last_leaf (bt_header t1) \<and> pos_slot pos1 = sint (get_size p)
             then (Inr (s\<lparr>is_position := \<lparr>pos_page = get_next_leaf p, pos_slot = 0\<rparr>\<rparr>), t1)
           else (Inr (s\<lparr>is_position := pos1\<rparr>), t1)))"

definition scan_rid :: "IndexScan \<Rightarrow> (BPlusTree, Rid) eff" where
  "scan_rid s = get_rid (is_position s)"

text \<open>The loop of a scan: read the record identifier, step, until the end; \<open>None\<close> when the fuel does not suffice.\<close>

fun scan_all :: "nat \<Rightarrow> IndexScan \<Rightarrow> BPlusTree \<Rightarrow> (Rid list result \<times> BPlusTree) option" where
  "scan_all 0 s t = None"
| "scan_all (Suc fuel) s t =
     (if scan_is_end s then Some (Inr [], t)
      else (case scan_rid s t of
         (Inl e, t1) \<Rightarrow> Some (Inl e, t1)
       | (Inr r, t1) \<Rightarrow>
           (case scan_next s t1 of
              (Inl e, t2) \<Rightarrow> Some (Inl e, t2)
            | (Inr s', t2) \<Rightarrow>
                map_option (\<lambda>(q, t3). (case q of Inl e \<Rightarrow> Inl e | Inr rs \<Rightarrow> Inr (r # rs), t3)) (scan_all fuel s' t2))))"

section \<open>The leaf chain\<close>

text \<open>Neighbours in a list of pages point at each other.\<close>

fun linked :: "(i32 \<Rightarrow> i32) \<Rightarrow> (i32 \<Rightarrow> i32) \<Rightarrow> i32 list \<Rightarrow> bool" where
  "linked nx pv (x # y # zs) \<longleftrightarrow> nx x = y \<and> pv y = x \<and> linked nx pv (y # zs)"
| "linked nx pv _ \<longleftrightarrow> True"

lemma linked_append: "linked nx pv (xs @ y # z # zs) \<longleftrightarrow> linked nx pv (xs @ [y]) \<and> linked nx pv (y # z # zs)"
proof (induction xs)
  case Nil
  then show ?case by simp
next
  case (Cons x xs)
  then show ?case by (cases xs) auto
qed

lemma linked_cong:
  "(\<And>x. x \<in> set (butlast xs) \<Longrightarrow> nx' x = nx x) \<Longrightarrow> (\<And>x. x \<in> set (tl xs) \<Longrightarrow> pv' x = pv x) \<Longrightarrow>
   linked nx' pv' xs \<longleftrightarrow> linked nx pv xs"
proof (induction nx pv xs rule: linked.induct)
  case (1 nx pv x y zs)
  have "linked nx' pv' (y # zs) \<longleftrightarrow> linked nx pv (y # zs)"
    by (rule "1.IH") (use "1.prems" in \<open>auto dest: list.set_sel(2) split: if_splits\<close>)
  with "1.prems" show ?case by simp
qed simp_all

text \<open>Removing a page of a ring: both neighbours skip it.\<close>

lemma ring_remove:
  assumes "distinct (c # xs @ l # ys)" "linked nx pv (c # xs @ l # ys @ [c])"
  shows "linked (nx(pv l := nx l)) (pv(nx l := pv l)) (c # xs @ ys @ [c])" "pv l \<in> set (c # xs)" "nx l \<in> set (c # ys)"
    "nx (pv l) = l" "pv (nx l) = l"
proof -
  obtain u p where u: "c # xs = u @ [p]" by (cases "c # xs" rule: rev_cases) auto
  obtain n v where v: "ys @ [c] = n # v" by (cases "ys @ [c]") auto
  have "linked nx pv (u @ p # l # n # v)" using assms(2) u v by (metis append.assoc append_Cons append_Nil)
  then have parts: "linked nx pv (u @ [p])" "nx p = l" "pv l = p" "nx l = n" "pv n = l" "linked nx pv (n # v)"
    by (simp_all add: linked_append)
  have "distinct ((c # xs) @ l # ys)" using assms(1) by simp
  then have d: "distinct (u @ [p])" unfolding u distinct_append by blast
  have mem: "p \<in> set (c # xs)" "n \<in> set (c # ys)" by (simp add: u, cases ys) (use v in auto)
  have "linked (nx(p := n)) (pv(n := p)) (u @ [p]) \<longleftrightarrow> linked nx pv (u @ [p])"
  proof (rule linked_cong)
    show "(nx(p := n)) x = nx x" if "x \<in> set (butlast (u @ [p]))" for x
      using that d by auto
    show "(pv(n := p)) x = pv x" if "x \<in> set (tl (u @ [p]))" for x
      using that assms(1) mem(2) unfolding u [symmetric] by auto
  qed
  moreover have "linked (nx(p := n)) (pv(n := p)) (n # v) \<longleftrightarrow> linked nx pv (n # v)"
  proof (rule linked_cong)
    show "(nx(p := n)) x = nx x" if "x \<in> set (butlast (n # v))" for x
      using that assms(1) mem(1) unfolding v [symmetric] by auto
    have "distinct (n # v)" using assms(1) unfolding v [symmetric] by auto
    then show "(pv(n := p)) x = pv x" if "x \<in> set (tl (n # v))" for x using that by auto
  qed
  ultimately have "linked (nx(p := n)) (pv(n := p)) (u @ p # n # v)" using parts by (simp add: linked_append)
  also have "u @ p # n # v = c # xs @ ys @ [c]" using u v by (metis append.assoc append_Cons append_Nil)
  finally show "linked (nx(pv l := nx l)) (pv(nx l := pv l)) (c # xs @ ys @ [c])" by (simp only: parts(3,4))
  show "pv l \<in> set (c # xs)" "nx l \<in> set (c # ys)" "nx (pv l) = l" "pv (nx l) = l" using mem parts by auto
qed

text \<open>The leaves form a ring through the sentinel page, and all its pages are whole.\<close>

definition leaf_ring :: "BPlusTree \<Rightarrow> i32 list \<Rightarrow> bool" where
  "leaf_ring t leaves \<longleftrightarrow>
     distinct (INDEX_LEAF_HEADER_PAGE # leaves) \<and>
     list_all (\<lambda>n. map_option length (bt_pages t n) = Some PAGE_SIZE) (INDEX_LEAF_HEADER_PAGE # leaves) \<and>
     linked (\<lambda>n. get_next_leaf (bt_page t n)) (\<lambda>n. get_prev_leaf (bt_page t n))
       (INDEX_LEAF_HEADER_PAGE # leaves @ [INDEX_LEAF_HEADER_PAGE])"

lemma set_leaf_simps [mem_simps]:
  assumes "length p = PAGE_SIZE"
  shows "length (set_next_leaf n p) = PAGE_SIZE" "length (set_prev_leaf n p) = PAGE_SIZE"
    "get_next_leaf (set_next_leaf n p) = n" "get_prev_leaf (set_next_leaf n p) = get_prev_leaf p"
    "get_prev_leaf (set_prev_leaf n p) = n" "get_next_leaf (set_prev_leaf n p) = get_next_leaf p"
  using assms
  by (simp_all add: set_next_leaf_def set_prev_leaf_def get_next_leaf_def get_prev_leaf_def mem_simps PAGE_SIZE_def)

lemma put_i32_back: "off + 4 \<le> length p \<Longrightarrow> put_i32 off (get_i32 off p) (put_i32 off w p) = p"
proof -
  assume len: "off + 4 \<le> length p"
  have "store_i32 (get_i32 off p) = take 4 (drop off p)" using len by (simp add: get_i32_def store_load_i32)
  moreover have "take 4 (drop off p) @ drop (4 + off) p = drop off p" by (metis add.commute append_take_drop_id drop_drop)
  ultimately show ?thesis using len by (simp add: put_i32_def splice_def min_def add.commute)
qed

lemma bt_page_write [mem_simps]:
  "bt_page (write_node n f t) m = (if m = n then f (bt_page t n) else bt_page t m)"
  "bt_pages (write_node n f t) m = (if m = n then Some (f (bt_page t n)) else bt_pages t m)"
  by (simp_all add: write_node_def bt_page_def)

lemma fetch_node_simps [mem_simps]:
  "bt_pages (snd (fetch_node n t)) = bt_pages t" "bt_header (snd (fetch_node n t)) = bt_header t"
  "bt_page (snd (fetch_node n t)) m = bt_page t m"
  by (simp_all add: fetch_node_def bt_page_def)

lemma fetch_node_cases:
  "fetch_node n t = (r, t1) \<Longrightarrow>
   t1 = t\<lparr>bt_tick := Suc (bt_tick t)\<rparr> \<and> (r = None \<or> r = Some n \<and> bt_serves t (bt_tick t) \<and> bt_pages t n \<noteq> None)"
  by (auto simp: fetch_node_def split: if_splits)

lemma bt_page_tick [simp]:
  "bt_page (t\<lparr>bt_tick := k\<rparr>) n = bt_page t n" "write_node n f (t\<lparr>bt_tick := k\<rparr>) = (write_node n f t)\<lparr>bt_tick := k\<rparr>"
  "bt_serves (write_node n f t) = bt_serves t" "bt_tick (write_node n f t) = bt_tick t" "bt_header (write_node n f t) = bt_header t"
  by (simp_all add: bt_page_def write_node_def)

lemma fetch_served: "bt_serves t (bt_tick t) \<Longrightarrow> bt_pages t n \<noteq> None \<Longrightarrow> fetch_node n t = (Some n, t\<lparr>bt_tick := Suc (bt_tick t)\<rparr>)"
  by (simp add: fetch_node_def)

lemma fetch_refused: "\<not> bt_serves t (bt_tick t) \<Longrightarrow> fetch_node n t = (None, t\<lparr>bt_tick := Suc (bt_tick t)\<rparr>)"
  by (simp add: fetch_node_def)

lemma leaf_ring_page: "leaf_ring t leaves \<Longrightarrow> n \<in> set (INDEX_LEAF_HEADER_PAGE # leaves) \<Longrightarrow> bt_pages t n \<noteq> None \<and> length (bt_page t n) = PAGE_SIZE"
  by (auto simp: leaf_ring_def list_all_iff bt_page_def split: option.splits)

text \<open>What the two writes of a successful unlink do to the links.\<close>

lemma unlink_links:
  assumes "leaf_ring t (xs @ l # ys)"
    and t': "t' = write_node (get_next_leaf (bt_page t l)) (set_prev_leaf (get_prev_leaf (bt_page t l)))
      (write_node (get_prev_leaf (bt_page t l)) (set_next_leaf (get_next_leaf (bt_page t l))) t)"
  shows "leaf_ring t' (xs @ ys)"
proof -
  let ?nx = "\<lambda>n. get_next_leaf (bt_page t n)" and ?pv = "\<lambda>n. get_prev_leaf (bt_page t n)" and ?c = INDEX_LEAF_HEADER_PAGE
  have d: "distinct (?c # xs @ l # ys)" and lk: "linked ?nx ?pv (?c # xs @ l # ys @ [?c])"
    using assms(1) by (simp_all add: leaf_ring_def)
  note rr = ring_remove [OF d lk]
  have pg: "bt_pages t n \<noteq> None" "length (bt_page t n) = PAGE_SIZE" if "n \<in> set (?c # xs @ ys)" for n
    using leaf_ring_page [OF assms(1), of n] that by auto
  have len: "length (bt_page t (?pv l)) = PAGE_SIZE" "length (bt_page t (?nx l)) = PAGE_SIZE"
    using pg(2) [of "?pv l"] pg(2) [of "?nx l"] rr(2,3) by auto
  have nx': "(\<lambda>n. get_next_leaf (bt_page t' n)) = ?nx(?pv l := ?nx l)" and pv': "(\<lambda>n. get_prev_leaf (bt_page t' n)) = ?pv(?nx l := ?pv l)"
    using len by (auto simp: t' mem_simps fun_eq_iff)
  have "map_option length (bt_pages t' n) = Some PAGE_SIZE" if "n \<in> set (?c # xs @ ys)" for n
    using pg [OF that] len by (auto simp: t' mem_simps bt_page_def split: option.splits)
  then show ?thesis using d rr(1) unfolding leaf_ring_def nx' pv' by (auto simp: list_all_iff)
qed

text \<open>
  C32 (unlinking a leaf). For a leaf of the ring: if the buffer pool serves the pages, the call succeeds. After success the
  remaining leaves form the ring in their old order. If it fails, the buffer pool refused a page, and unless it also refuses the
  page for the roll-back, every page is as before.
\<close>

theorem unlink_leaf_ring:
  assumes "leaf_ring t (xs @ l # ys)" "is_leaf_page (bt_page t l)" "unlink_leaf (Some l) t = (r, t')"
  shows "(r = Inr () \<longrightarrow> leaf_ring t' (xs @ ys)) \<and>
    (bt_serves t (bt_tick t) \<and> bt_serves t (bt_tick t + 1) \<longrightarrow> r = Inr ()) \<and>
    (r \<noteq> Inr () \<and> bt_serves t (bt_tick t + 2) \<longrightarrow> bt_pages t' = bt_pages t)"
proof -
  let ?p = "get_prev_leaf (bt_page t l)" and ?n = "get_next_leaf (bt_page t l)" and ?c = INDEX_LEAF_HEADER_PAGE
  have d: "distinct (?c # xs @ l # ys)" and lk: "linked (\<lambda>n. get_next_leaf (bt_page t n)) (\<lambda>n. get_prev_leaf (bt_page t n)) (?c # xs @ l # ys @ [?c])"
    using assms(1) by (simp_all add: leaf_ring_def)
  note rr = ring_remove [OF d lk]
  have pg: "bt_pages t ?p \<noteq> None" "length (bt_page t ?p) = PAGE_SIZE" "bt_pages t ?n \<noteq> None"
    using leaf_ring_page [OF assms(1), of ?p] leaf_ring_page [OF assms(1), of ?n] rr(2,3) by auto
  have tick: "leaf_ring (u\<lparr>bt_tick := k\<rparr>) zs \<longleftrightarrow> leaf_ring u zs" for u k zs by (simp add: leaf_ring_def)
  have undo_eq: "set_next_leaf l (set_next_leaf ?n (bt_page t ?p)) = bt_page t ?p"
    using put_i32_back [of 20 "bt_page t ?p" ?n] rr(4) pg(2) by (simp add: set_next_leaf_def get_next_leaf_def PAGE_SIZE_def)
  have same: "(bt_pages t)(?p \<mapsto> bt_page t ?p) = bt_pages t" using pg(1) by (auto simp: bt_page_def fun_eq_iff)
  consider "\<not> bt_serves t (bt_tick t)" | "bt_serves t (bt_tick t)" "\<not> bt_serves t (bt_tick t + 1)"
    | "bt_serves t (bt_tick t)" "bt_serves t (bt_tick t + 1)" by blast
  then show ?thesis
  proof cases
    case 1
    with assms(2,3) show ?thesis by (auto simp: unlink_leaf_def fetch_node_def Let_def)
  next
    case 2
    have "r = Inl (InternalError ''unlink_leaf failed to fetch next leaf; previous link rolled back'')"
      using assms(2,3) 2 pg by (simp add: unlink_leaf_def fetch_served fetch_refused Let_def)
    moreover have "bt_pages t' = bt_pages t" if "bt_serves t (bt_tick t + 2)"
    proof -
      have "t' = (write_node ?p (set_next_leaf l) (write_node ?p (set_next_leaf ?n) t))\<lparr>bt_tick := Suc (Suc (Suc (bt_tick t)))\<rparr>"
        using assms(2,3) 2 pg that by (simp add: unlink_leaf_def fetch_served fetch_refused Let_def mem_simps)
      then show ?thesis using undo_eq same by (simp add: write_node_def bt_page_def)
    qed
    ultimately show ?thesis using 2 by simp
  next
    case 3
    have "r = Inr ()" and t': "t' = (write_node ?n (set_prev_leaf ?p) (write_node ?p (set_next_leaf ?n) t))\<lparr>bt_tick := Suc (Suc (bt_tick t))\<rparr>"
      using assms(2,3) 3 pg by (simp_all add: unlink_leaf_def fetch_served Let_def mem_simps)
    with unlink_links [OF assms(1) refl] show ?thesis by (simp add: tick)
  qed
qed

section \<open>Separator keys\<close>

definition klen :: "IndexFileHeader \<Rightarrow> nat" where "klen h = nat (sint (key_length h))"

text \<open>A page whose entries lie within the layout of the header.\<close>

definition node_ok :: "IndexFileHeader \<Rightarrow> byte list \<Rightarrow> bool" where
  "node_ok h p \<longleftrightarrow> length p = PAGE_SIZE \<and> sint (get_size p) \<le> get_max_size h"

lemma key_room:
  assumes "header_ok h" "int i < get_max_size h" "length p = PAGE_SIZE"
  shows "key_off h i + klen h \<le> length p" "key_off h i + klen h \<le> rid_off h j" "24 \<le> key_off h i"
proof -
  note lay = header_ok_layout [OF assms(1)]
  have "(int i + 1) * sint (key_length h) \<le> (sint (tree_order h) + 1) * sint (key_length h)"
    using assms(2) lay by (intro mult_right_mono) (auto simp: get_max_size_def)
  with lay have a: "(int i + 1) * sint (key_length h) \<le> sint (keys_region_size h)" by linarith
  have k: "int (klen h) = sint (key_length h)" using lay by (simp add: klen_def)
  have "0 \<le> (int i + 1) * sint (key_length h)" using lay by simp
  with a have "0 \<le> sint (keys_region_size h)" by linarith
  then have r: "sint (keys_region_size h) = int (nat (sint (keys_region_size h)))" "sint (keys_region_size h) \<le> 4072"
    using lay by auto
  have "int (i * klen h + klen h) = (int i + 1) * sint (key_length h)" by (simp add: k algebra_simps)
  with a r(1) have b: "i * klen h + klen h \<le> nat (sint (keys_region_size h))" by linarith
  then show "key_off h i + klen h \<le> rid_off h j" by (simp add: key_off_def rid_off_def klen_def)
  show "key_off h i + klen h \<le> length p" using b r assms(3) by (simp add: key_off_def klen_def index_consts PAGE_SIZE_def)
  show "24 \<le> key_off h i" by (simp add: key_off_def index_consts)
qed

lemma set_key_simps:
  assumes "header_ok h" "int i < get_max_size h" "length p = PAGE_SIZE" "length k = klen h"
  shows "get_key h i (set_key h i k p) = k" "length (set_key h i k p) = PAGE_SIZE" "get_size (set_key h i k p) = get_size p"
    "get_parent_page_no (set_key h i k p) = get_parent_page_no p" "value_at h j (set_key h i k p) = value_at h j p"
proof -
  note room = key_room [OF assms(1-3)]
  have s: "set_key h i k p = splice (key_off h i) k p" using assms(4) by (simp add: set_key_def klen_def)
  have off: "key_off h i + length k \<le> length p" using room(1) assms(4) by simp
  show "get_key h i (set_key h i k p) = k"
    unfolding s using take_drop_splice_same [OF off] assms(4) by (simp add: get_key_def klen_def)
  show "length (set_key h i k p) = PAGE_SIZE" unfolding s using length_splice [OF off] assms(3) by simp
  show "get_size (set_key h i k p) = get_size p" "get_parent_page_no (set_key h i k p) = get_parent_page_no p"
    unfolding s get_size_def get_parent_page_no_def using room(3) by (simp_all add: get_splice_other [OF off])
  show "value_at h j (set_key h i k p) = value_at h j p"
    unfolding s value_at_def using room(2) [of j] assms(4) by (simp add: get_splice_other [OF off])
qed

lemma find_child_set_key:
  assumes "header_ok h" "int i < get_max_size h" "length p = PAGE_SIZE" "length k = klen h"
  shows "find_child h c (set_key h i k p) = find_child h c p"
proof -
  have "find_child_from h c (set_key h i k p) j n = find_child_from h c p j n" for j n
    by (induction n arbitrary: j) (simp_all add: set_key_simps [OF assms])
  then show ?thesis by (simp add: find_child_def set_key_simps [OF assms])
qed

lemma find_child_bound: "find_child h c p = Inr r \<Longrightarrow> int r < sint (get_size p)"
  by (auto simp: find_child_def Let_def split: if_splits)

lemma length_get_key: "header_ok h \<Longrightarrow> length p = PAGE_SIZE \<Longrightarrow> length (get_key h 0 p) = klen h"
  using key_room(1) [of h 0 p] header_ok_layout [of h] by (simp add: get_key_def klen_def get_max_size_def)

text \<open>The pages from a node up to the root, and the separators along this path.\<close>

fun root_path :: "BPlusTree \<Rightarrow> i32 list \<Rightarrow> bool" where
  "root_path t [] \<longleftrightarrow> False"
| "root_path t [c] \<longleftrightarrow> bt_pages t c \<noteq> None \<and> node_ok (bt_header t) (bt_page t c) \<and> is_root_page (bt_page t c)"
| "root_path t (c # p # ps) \<longleftrightarrow>
     bt_pages t c \<noteq> None \<and> node_ok (bt_header t) (bt_page t c) \<and> get_parent_page_no (bt_page t c) = p \<and> p \<noteq> INDEX_NO_PAGE \<and>
     (\<exists>r. find_child (bt_header t) c (bt_page t p) = Inr r) \<and> root_path t (p # ps)"

definition edge_ok :: "BPlusTree \<Rightarrow> i32 \<Rightarrow> i32 \<Rightarrow> bool" where
  "edge_ok t c p \<longleftrightarrow>
     (case find_child (bt_header t) c (bt_page t p) of
        Inl e \<Rightarrow> False
      | Inr r \<Rightarrow> get_key (bt_header t) r (bt_page t p) = get_key (bt_header t) 0 (bt_page t c))"

fun separators_ok :: "BPlusTree \<Rightarrow> i32 list \<Rightarrow> bool" where
  "separators_ok t (c # p # ps) \<longleftrightarrow> edge_ok t c p \<and> separators_ok t (p # ps)"
| "separators_ok t _ \<longleftrightarrow> True"

lemma root_path_node: "root_path t (c # ps) \<Longrightarrow> bt_pages t c \<noteq> None \<and> node_ok (bt_header t) (bt_page t c)"
  by (cases ps) auto

lemma path_cong:
  "bt_header t' = bt_header t \<Longrightarrow> (\<And>n. n \<in> set ps \<Longrightarrow> bt_pages t' n = bt_pages t n) \<Longrightarrow>
   (root_path t' ps \<longleftrightarrow> root_path t ps) \<and> (separators_ok t' ps \<longleftrightarrow> separators_ok t ps)"
proof (induction ps rule: induct_list012)
  case 1
  then show ?case by simp
next
  case (2 x)
  have "bt_page t' x = bt_page t x" by (simp add: bt_page_def "2.prems")
  then show ?case using "2.prems" by simp
next
  case (3 x y zs)
  have "bt_page t' x = bt_page t x" "bt_page t' y = bt_page t y" by (simp_all add: bt_page_def "3.prems")
  then show ?case using "3.IH"(2) "3.prems" by (simp add: edge_ok_def split: sum.splits)
qed

text \<open>One step of the loop.\<close>

lemma update_step:
  assumes "header_ok (bt_header t)" "root_path t (c # p # ps)" "distinct (c # p # ps)"
    and r: "find_child (bt_header t) c (bt_page t p) = Inr r"
    and t2: "t2 = write_node p (set_key (bt_header t) r (get_key (bt_header t) 0 (bt_page t c))) t"
  shows "root_path t2 (p # ps)" "separators_ok t ps \<Longrightarrow> separators_ok t2 ps" "edge_ok t2 c p"
    "bt_pages t2 c = bt_pages t c" "bt_header t2 = bt_header t"
proof -
  let ?h = "bt_header t" and ?k = "get_key (bt_header t) 0 (bt_page t c)"
  have ok: "node_ok ?h (bt_page t c)" "node_ok ?h (bt_page t p)" "root_path t (p # ps)"
    using assms(2) root_path_node [of t p ps] by auto
  have b: "int r < get_max_size ?h" using find_child_bound [OF r] ok(2) by (simp add: node_ok_def)
  have k: "length ?k = klen ?h" using length_get_key [OF assms(1)] ok(1) by (simp add: node_ok_def)
  have len: "length (bt_page t p) = PAGE_SIZE" using ok(2) by (simp add: node_ok_def)
  note sk = set_key_simps [OF assms(1) b len k] and fc = find_child_set_key [OF assms(1) b len k]
  show h: "bt_header t2 = bt_header t" and "bt_pages t2 c = bt_pages t c" using assms(3) by (simp_all add: t2 mem_simps)
  have page: "bt_page t2 n = (if n = p then set_key ?h r ?k (bt_page t p) else bt_page t n)" for n by (simp add: t2 mem_simps)
  have rest: "bt_pages t2 n = bt_pages t n" if "n \<in> set ps" for n using that assms(3) by (auto simp: t2 mem_simps)
  show "edge_ok t2 c p" using assms(3) by (simp add: edge_ok_def h page fc r sk(1))
  show "separators_ok t2 ps" if "separators_ok t ps" using path_cong [OF h rest] that by blast
  show "root_path t2 (p # ps)"
  proof (cases ps)
    case Nil
    with ok(3) show ?thesis by (simp add: h page node_ok_def is_root_page_def sk t2 mem_simps)
  next
    case (Cons q qs)
    have "root_path t2 ps \<longleftrightarrow> root_path t ps" using path_cong [OF h rest] by blast
    moreover have "q \<noteq> p" using assms(3) Cons by auto
    ultimately show ?thesis using ok(3) Cons by (simp add: h page node_ok_def sk) (simp add: t2 mem_simps)
  qed
qed

lemma update_ancestor_keys_path:
  assumes "header_ok (bt_header t)" "root_path t (c # ps)" "distinct (c # ps)" "separators_ok t ps" "\<And>k. bt_serves t k"
    and "length ps < fuel"
  shows "\<exists>t'. update_ancestor_keys fuel c t = Some (Inr (), t') \<and> separators_ok t' (c # ps) \<and> bt_header t' = bt_header t \<and>
    (\<forall>n. n \<notin> set ps \<longrightarrow> bt_pages t' n = bt_pages t n)"
  using assms
proof (induction ps arbitrary: c t fuel)
  case Nil
  then obtain f where f: "fuel = Suc f" by (cases fuel) auto
  have "update_ancestor_keys fuel c t = Some (Inr (), t\<lparr>bt_tick := Suc (bt_tick t)\<rparr>)"
    using Nil.prems by (simp add: f fetch_served is_root_page_def Let_def)
  then show ?case by simp
next
  case (Cons p ps)
  then obtain f where f: "fuel = Suc f" "length ps < f" by (cases fuel) auto
  let ?h = "bt_header t" and ?t2 = "t\<lparr>bt_tick := Suc (Suc (bt_tick t))\<rparr>"
  from Cons.prems(2) obtain r where r: "find_child ?h c (bt_page t p) = Inr r" by auto
  have c: "bt_pages t c \<noteq> None" "bt_pages t p \<noteq> None" "get_parent_page_no (bt_page t c) = p" "p \<noteq> INDEX_NO_PAGE"
    using Cons.prems(2) root_path_node [of t p ps] by auto
  have run: "update_ancestor_keys fuel c t =
    (if get_key ?h r (bt_page t p) = get_key ?h 0 (bt_page t c) then Some (Inr (), ?t2)
     else update_ancestor_keys f p (write_node p (set_key ?h r (get_key ?h 0 (bt_page t c))) ?t2))"
    using c r Cons.prems(5) by (simp add: f fetch_served Let_def)
  show ?case
  proof (cases "get_key ?h r (bt_page t p) = get_key ?h 0 (bt_page t c)")
    case True
    have "separators_ok ?t2 (c # p # ps)"
      using path_cong [of ?t2 t "p # ps"] Cons.prems(4) r True by (simp add: edge_ok_def)
    with run True show ?thesis by simp
  next
    case False
    let ?u = "write_node p (set_key ?h r (get_key ?h 0 (bt_page t c))) ?t2"
    have path: "root_path ?t2 (c # p # ps)" "separators_ok ?t2 ps"
      using path_cong [of ?t2 t "c # p # ps"] path_cong [of ?t2 t ps] Cons.prems(2,4) by (cases ps; simp)+
    have st: "root_path ?u (p # ps)" "separators_ok ?u ps" "edge_ok ?u c p" "bt_pages ?u c = bt_pages t c" "bt_header ?u = ?h"
      using update_step [of ?t2 c p ps r ?u] path Cons.prems(1,3) r by simp_all
    from Cons.IH [of ?u p f] st Cons.prems f(2) obtain t' where t': "update_ancestor_keys f p ?u = Some (Inr (), t')"
      "separators_ok t' (p # ps)" "bt_header t' = ?h" "\<forall>n. n \<notin> set ps \<longrightarrow> bt_pages t' n = bt_pages ?u n" by auto
    have cp: "c \<notin> set ps" "p \<notin> set ps" using Cons.prems(3) by auto
    then have "bt_page t' c = bt_page ?u c" "bt_page t' p = bt_page ?u p" using t'(4) by (simp_all add: bt_page_def)
    then have "edge_ok t' c p" using st(3,5) t'(3) by (simp add: edge_ok_def split: sum.splits)
    moreover have "bt_pages t' n = bt_pages t n" if "n \<notin> set (p # ps)" for n using t'(4) that by (simp add: mem_simps)
    ultimately show ?thesis using run False t' by simp
  qed
qed

section \<open>Scans reach their end\<close>

definition node_size :: "BPlusTree \<Rightarrow> i32 \<Rightarrow> nat" where
  "node_size t n = nat (sint (get_size (bt_page t n)))"

definition leaf_entries :: "BPlusTree \<Rightarrow> i32 \<Rightarrow> Rid list" where
  "leaf_entries t n = map (\<lambda>i. node_rid (bt_header t) i (bt_page t n)) [0..<node_size t n]"

text \<open>Leaves in chain order; only the last one may be empty.\<close>

fun leaf_run :: "BPlusTree \<Rightarrow> i32 list \<Rightarrow> bool" where
  "leaf_run t [] \<longleftrightarrow> False"
| "leaf_run t (n # ns) \<longleftrightarrow>
     bt_pages t n \<noteq> None \<and> is_leaf_page (bt_page t n) \<and> 0 \<le> sint (get_size (bt_page t n)) \<and>
     (case ns of [] \<Rightarrow> True | m # _ \<Rightarrow> 0 < sint (get_size (bt_page t n)) \<and> get_next_leaf (bt_page t n) = m \<and> leaf_run t ns)"

lemma leaf_run_node: "leaf_run t (n # ns) \<Longrightarrow> bt_pages t n \<noteq> None \<and> is_leaf_page (bt_page t n) \<and> sint (get_size (bt_page t n)) = int (node_size t n)"
  by (auto simp: node_size_def)

lemma node_size_tick [simp]: "node_size (t\<lparr>bt_tick := k\<rparr>) n = node_size t n"
  by (simp add: node_size_def)

lemma scan_rid_here:
  assumes "leaf_run t (n # ns)" "k < node_size t n" "\<And>j. bt_serves t j"
  shows "scan_rid \<lparr>is_position = \<lparr>pos_page = n, pos_slot = int k\<rparr>, is_end_pos = e\<rparr> (t\<lparr>bt_tick := j\<rparr>) =
    (Inr (leaf_entries t n ! k), t\<lparr>bt_tick := Suc j\<rparr>)"
  using leaf_run_node [OF assms(1)] assms(2,3) by (simp add: scan_rid_def get_rid_def fetch_served leaf_entries_def)

lemma scan_next_here:
  assumes "leaf_run t (n # ns)" "k < node_size t n" "\<And>j. bt_serves t j" "distinct (n # ns)" "last_leaf (bt_header t) = last (n # ns)"
    and e: "e = \<lparr>pos_page = last (n # ns), pos_slot = int (node_size t (last (n # ns)))\<rparr>"
  shows "scan_next \<lparr>is_position = \<lparr>pos_page = n, pos_slot = int k\<rparr>, is_end_pos = e\<rparr> (t\<lparr>bt_tick := j\<rparr>) =
    (Inr \<lparr>is_position = (if ns \<noteq> [] \<and> Suc k = node_size t n then \<lparr>pos_page = hd ns, pos_slot = 0\<rparr>
        else \<lparr>pos_page = n, pos_slot = int (Suc k)\<rparr>), is_end_pos = e\<rparr>, t\<lparr>bt_tick := Suc j\<rparr>)"
proof -
  note nd = leaf_run_node [OF assms(1)]
  have last: "n = last (n # ns) \<longleftrightarrow> ns = []" using assms(4) by (cases ns) auto
  have nx: "ns \<noteq> [] \<Longrightarrow> get_next_leaf (bt_page t n) = hd ns" using assms(1) by (cases ns) auto
  have "int k \<noteq> int (node_size t n)" using assms(2) by simp
  then have "\<not> scan_is_end \<lparr>is_position = \<lparr>pos_page = n, pos_slot = int k\<rparr>, is_end_pos = e\<rparr>"
    using last by (cases ns) (auto simp: scan_is_end_def e)
  moreover have "int k + 1 = int (node_size t n) \<longleftrightarrow> Suc k = node_size t n" by linarith
  ultimately show ?thesis
    using nd assms(2,3,5) last nx by (auto simp: scan_next_def fetch_served Let_def)
qed

lemma scan_all_from:
  assumes "leaf_run t (n # ns)" "distinct (n # ns)" "last_leaf (bt_header t) = last (n # ns)" "\<And>j. bt_serves t j"
    and "k \<le> node_size t n" "ns \<noteq> [] \<Longrightarrow> k < node_size t n"
    and e: "e = \<lparr>pos_page = last (n # ns), pos_slot = int (node_size t (last (n # ns)))\<rparr>"
    and "node_size t n - k + sum_list (map (node_size t) ns) < fuel"
  shows "\<exists>j'. scan_all fuel \<lparr>is_position = \<lparr>pos_page = n, pos_slot = int k\<rparr>, is_end_pos = e\<rparr> (t\<lparr>bt_tick := j\<rparr>) =
    Some (Inr (drop k (leaf_entries t n) @ concat (map (leaf_entries t) ns)), t\<lparr>bt_tick := j'\<rparr>)"
  using assms
proof (induction fuel arbitrary: n ns k j)
  case 0
  then show ?case by simp
next
  case (Suc fuel)
  have len: "length (leaf_entries t n) = node_size t n" by (simp add: leaf_entries_def)
  show ?case
  proof (cases "k < node_size t n")
    case False
    then have "ns = []" "k = node_size t n" using Suc.prems(5,6) by auto
    then show ?thesis using len by (auto simp: scan_is_end_def Suc.prems(7))
  next
    case True
    have ne: "\<not> scan_is_end \<lparr>is_position = \<lparr>pos_page = n, pos_slot = int k\<rparr>, is_end_pos = e\<rparr>"
      using True Suc.prems(2) by (cases ns) (auto simp: scan_is_end_def Suc.prems(7))
    note rid = scan_rid_here [OF Suc.prems(1) True Suc.prems(4)]
    note nxt = scan_next_here [OF Suc.prems(1) True Suc.prems(4,2,3,7)]
    have hd: "drop k (leaf_entries t n) = leaf_entries t n ! k # drop (Suc k) (leaf_entries t n)"
      using True len by (simp add: Cons_nth_drop_Suc)
    show ?thesis
    proof (cases "ns \<noteq> [] \<and> Suc k = node_size t n")
      case True
      then obtain m ms where ns: "ns = m # ms" by (cases ns) auto
      have m: "leaf_run t (m # ms)" "0 \<le> node_size t m" "ms \<noteq> [] \<Longrightarrow> 0 < node_size t m"
        using Suc.prems(1) ns by (auto simp: node_size_def split: list.splits)
      have "node_size t m - 0 + sum_list (map (node_size t) ms) < fuel" using Suc.prems(8) True ns by simp
      from Suc.IH [of m ms 0 "Suc (Suc j)", OF m(1) _ _ Suc.prems(4) m(2,3) _ this] Suc.prems(2,3,7) ns
      obtain j' where "scan_all fuel \<lparr>is_position = \<lparr>pos_page = m, pos_slot = 0\<rparr>, is_end_pos = e\<rparr> (t\<lparr>bt_tick := Suc (Suc j)\<rparr>) =
        Some (Inr (leaf_entries t m @ concat (map (leaf_entries t) ms)), t\<lparr>bt_tick := j'\<rparr>)" by auto
      then show ?thesis using ne rid nxt hd True ns len by auto
    next
      case False
      have "node_size t n - Suc k + sum_list (map (node_size t) ns) < fuel" using Suc.prems(8) True by linarith
      from Suc.IH [of n ns "Suc k" "Suc (Suc j)", OF Suc.prems(1-4) _ _ Suc.prems(7) this] True False
      obtain j' where "scan_all fuel \<lparr>is_position = \<lparr>pos_page = n, pos_slot = int (Suc k)\<rparr>, is_end_pos = e\<rparr> (t\<lparr>bt_tick := Suc (Suc j)\<rparr>) =
        Some (Inr (drop (Suc k) (leaf_entries t n) @ concat (map (leaf_entries t) ns)), t\<lparr>bt_tick := j'\<rparr>)" by fastforce
      then show ?thesis using ne rid nxt hd False by auto
    qed
  qed
qed

section \<open>The pages of a new index\<close>

text \<open>The page image that \<^verbatim>\<open>create_index\<close> writes for the sentinel and for the first root: a leaf without entries.\<close>

definition empty_leaf :: "i32 \<Rightarrow> byte list" where
  "empty_leaf neighbour =
     put_i32 20 neighbour (put_i32 16 neighbour (put_i32 8 0 (put_i32 4 INDEX_NO_PAGE (put_i32 0 INDEX_NO_PAGE
       ((replicate PAGE_SIZE 0)[12 := 1])))))"

lemma nth_put_i32_other:
  "off + 4 \<le> length p \<Longrightarrow> i < length p \<Longrightarrow> i < off \<or> off + 4 \<le> i \<Longrightarrow> put_i32 off w p ! i = p ! i"
  by (auto simp: put_i32_def splice_def nth_append min_def)

lemma length_empty_leaf [simp]: "length (empty_leaf n) = PAGE_SIZE"
  by (simp add: empty_leaf_def mem_simps PAGE_SIZE_def)

lemma empty_leaf_simps [mem_simps]:
  "get_size (empty_leaf n) = 0" "get_next_leaf (empty_leaf n) = n" "get_prev_leaf (empty_leaf n) = n"
  "get_parent_page_no (empty_leaf n) = INDEX_NO_PAGE" "is_leaf_page (empty_leaf n)"
  by (simp_all add: empty_leaf_def mem_simps PAGE_SIZE_def get_size_def get_next_leaf_def get_prev_leaf_def
      get_parent_page_no_def is_leaf_page_def nth_put_i32_other)

definition sample_tree :: BPlusTree where
  "sample_tree =
     \<lparr>bt_fd = 3, bt_header = sample_header,
      bt_pages = [1 \<mapsto> empty_leaf 2, 2 \<mapsto> set_size 1 (empty_leaf 1)], bt_serves = (\<lambda>k. True), bt_tick = 0\<rparr>"

lemma set_size_simps [mem_simps]:
  assumes "length p = PAGE_SIZE"
  shows "length (set_size n p) = PAGE_SIZE" "get_size (set_size n p) = n" "get_next_leaf (set_size n p) = get_next_leaf p"
    "get_prev_leaf (set_size n p) = get_prev_leaf p" "is_leaf_page (set_size n p) = is_leaf_page p"
    "get_parent_page_no (set_size n p) = get_parent_page_no p"
  using assms by (simp_all add: set_size_def get_size_def get_next_leaf_def get_prev_leaf_def is_leaf_page_def
      get_parent_page_no_def mem_simps nth_put_i32_other PAGE_SIZE_def)

lemma sample_tree_page: "bt_page sample_tree 1 = empty_leaf 2" "bt_page sample_tree 2 = set_size 1 (empty_leaf 1)"
  by (simp_all add: sample_tree_def bt_page_def)

lemma sample_tree_ring: "leaf_ring sample_tree ([] @ 2 # [])"
  by (simp add: leaf_ring_def sample_tree_page index_consts mem_simps) (simp add: sample_tree_def mem_simps)

lemma sample_tree_run: "leaf_run sample_tree [2]"
  by (simp add: sample_tree_page mem_simps) (simp add: sample_tree_def)

theorem unlink_leaf_ring_witness: "\<exists>t'. unlink_leaf (Some 2) sample_tree = (Inr (), t') \<and> leaf_ring t' []"
proof -
  obtain r t' where u: "unlink_leaf (Some 2) sample_tree = (r, t')" by fastforce
  have "is_leaf_page (bt_page sample_tree 2)" by (simp add: sample_tree_page mem_simps)
  from unlink_leaf_ring [OF sample_tree_ring this u] u show ?thesis by (simp add: sample_tree_def)
qed

text \<open>
  C31 (separator keys). Let the pages from a node to the root be linked by their parent fields, every parent contain its child, and
  all separators above the node's own be right. If the buffer pool serves the pages, the repair loop ends after at most one round
  per page of the path, and then every separator on the path is the first key of the child it belongs to; pages off the path
  and the node itself are untouched.
\<close>

theorem ancestor_keys_repaired:
  assumes "header_ok (bt_header t)" "root_path t (c # ps)" "distinct (c # ps)" "separators_ok t ps" "\<And>k. bt_serves t k"
    and "length ps < fuel"
  shows "\<exists>t'. update_ancestor_keys fuel c t = Some (Inr (), t') \<and> separators_ok t' (c # ps) \<and> bt_header t' = bt_header t \<and>
    (\<forall>n. n \<notin> set ps \<longrightarrow> bt_pages t' n = bt_pages t n)"
  using assms by (rule update_ancestor_keys_path)

definition sample_inner :: BPlusTree where
  "sample_inner =
     \<lparr>bt_fd = 3, bt_header = sample_header,
      bt_pages = [2 \<mapsto> put_i32 1380 3 (set_size 1 (empty_leaf 1)), 3 \<mapsto> put_i32 24 7 (set_parent_page_no 2 (set_size 1 (empty_leaf 1)))],
      bt_serves = (\<lambda>k. True), bt_tick = 0\<rparr>"

lemma sample_inner_path: "root_path sample_inner [3, 2]"
proof -
  let ?r = "put_i32 1380 3 (set_size 1 (empty_leaf 1))" and ?c = "put_i32 24 7 (set_parent_page_no 2 (set_size 1 (empty_leaf 1)))"
  have l: "length (set_size 1 (empty_leaf 1)) = 4096" by (simp add: mem_simps) (simp add: PAGE_SIZE_def)
  then have lp: "length (set_parent_page_no 2 (set_size 1 (empty_leaf 1))) = 4096" by (simp add: set_parent_page_no_def mem_simps)
  have r: "get_size ?r = 1" "get_parent_page_no ?r = INDEX_NO_PAGE" "value_at sample_header 0 ?r = 3" "length ?r = 4096"
    using l set_size_simps(2,6) [of "empty_leaf 1" 1] empty_leaf_simps(4) [of 1]
    by (simp_all add: get_size_def get_parent_page_no_def value_at_def rid_off_def sample_header_def index_consts mem_simps)
  have c: "get_size ?c = 1" "get_parent_page_no ?c = 2" "length ?c = 4096"
    using l lp set_size_simps(2) [of "empty_leaf 1" 1]
    by (simp_all add: get_size_def get_parent_page_no_def set_parent_page_no_def mem_simps)
  have f: "find_child sample_header 3 ?r = Inr 0" by (simp add: find_child_def r Let_def)
  have h: "bt_header sample_inner = sample_header" "bt_page sample_inner 2 = ?r" "bt_page sample_inner 3 = ?c"
    "bt_pages sample_inner 2 \<noteq> None" "bt_pages sample_inner 3 \<noteq> None"
    by (simp_all add: sample_inner_def bt_page_def)
  have "get_max_size sample_header = 339" by (simp add: get_max_size_def sample_header_def)
  then show ?thesis using h r c f by (simp add: node_ok_def is_root_page_def PAGE_SIZE_def index_consts)
qed

theorem ancestor_keys_repaired_witness:
  "\<exists>t'. update_ancestor_keys 2 3 sample_inner = Some (Inr (), t') \<and> separators_ok t' [3, 2]"
  using ancestor_keys_repaired [OF _ sample_inner_path, of 2] sample_header_ok by (auto simp: sample_inner_def)

text \<open>
  C30 (index scans end). If the leaves from the first to the last are chained and only the last one may be empty, then a scan from
  \<^verbatim>\<open>leaf_begin\<close> to \<^verbatim>\<open>leaf_end\<close> ends, one step per entry, without failing an assertion, and returns the record identifiers of all
  leaves in chain order, each entry once.
\<close>

theorem scan_visits_all:
  assumes "leaf_run t leaves" "distinct leaves" "first_leaf (bt_header t) = hd leaves" "last_leaf (bt_header t) = last leaves"
    and "\<And>j. bt_serves t j" "leaf_end t = (Inr e, t1)" "sum_list (map (node_size t) leaves) < fuel"
  shows "\<exists>t'. scan_all fuel \<lparr>is_position = leaf_begin t, is_end_pos = e\<rparr> t1 = Some (Inr (concat (map (leaf_entries t) leaves)), t')"
proof -
  obtain n ns where l: "leaves = n # ns" using assms(1) by (cases leaves) auto
  have last: "leaf_run t xs \<Longrightarrow> leaf_run t [last xs]" for xs
    by (induction xs) (auto split: list.splits)
  have z: "bt_pages t (last leaves) \<noteq> None" "sint (get_size (bt_page t (last leaves))) = int (node_size t (last leaves))"
    using leaf_run_node [OF last [OF assms(1)]] by auto
  have e: "e = \<lparr>pos_page = last (n # ns), pos_slot = int (node_size t (last (n # ns)))\<rparr>" "t1 = t\<lparr>bt_tick := Suc (bt_tick t)\<rparr>"
    using assms(4,5,6) z by (auto simp: leaf_end_def fetch_served l)
  have "0 < node_size t n" if "ns \<noteq> []" using assms(1) l that by (auto simp: node_size_def split: list.splits)
  from scan_all_from [of t n ns 0 e fuel "Suc (bt_tick t)", OF _ _ _ assms(5) _ this e(1)] assms(1,2,4,7) l
  have "\<exists>j'. scan_all fuel \<lparr>is_position = \<lparr>pos_page = n, pos_slot = 0\<rparr>, is_end_pos = e\<rparr> t1 =
    Some (Inr (leaf_entries t n @ concat (map (leaf_entries t) ns)), t\<lparr>bt_tick := j'\<rparr>)" by (simp add: e(2))
  then show ?thesis using assms(3) l by (auto simp: leaf_begin_def)
qed

theorem scan_visits_all_witness:
  "\<exists>t'. scan_all 2 \<lparr>is_position = leaf_begin sample_tree, is_end_pos = \<lparr>pos_page = 2, pos_slot = 1\<rparr>\<rparr> (sample_tree\<lparr>bt_tick := 1\<rparr>) =
     Some (Inr (leaf_entries sample_tree 2), t')"
proof -
  have h: "bt_header sample_tree = sample_header" "bt_serves sample_tree j" for j by (simp_all add: sample_tree_def)
  have size: "node_size sample_tree 2 = 1" "sint (get_size (bt_page sample_tree 2)) = 1"
    by (simp_all add: node_size_def sample_tree_page mem_simps)
  have "leaf_end sample_tree = (Inr \<lparr>pos_page = 2, pos_slot = 1\<rparr>, sample_tree\<lparr>bt_tick := 1\<rparr>)"
    using size by (simp add: leaf_end_def h sample_header_def fetch_node_def) (simp add: sample_tree_def)
  from scan_visits_all [OF sample_tree_run _ _ _ h(2) this, of 2] size show ?thesis by (simp add: h sample_header_def)
qed

end
