(* ===== verification/Disk_Contract.thy ===== *)
theory Disk_Contract
  imports Effects "HOL-Library.AList"
begin

text \<open>
  What the code relies on of the disk manager's file operations, whose bodies are not part of this repository: which
  files exist changes only by creating and destroying them. The in-memory disk at the end satisfies these laws; the
  examples of the later theories run on it.
\<close>

text \<open>A computation keeps a view \<open>f\<close> of its state.\<close>

definition keeps :: "('s \<Rightarrow> 'v) \<Rightarrow> ('s, 'a) eff \<Rightarrow> bool" where
  "keeps f m \<longleftrightarrow> (\<forall>s. f (snd (m s)) = f s)"

named_theorems keeps_intros \<open>computations that keep a view of the state\<close>

lemma keepsD: "keeps f m \<Longrightarrow> m s = (r, s') \<Longrightarrow> f s' = f s"
  unfolding keeps_def by (metis snd_conv)

lemma keeps_ret [keeps_intros]: "keeps f (retS x)" "keeps f (throwS e)" "keeps f (liftE r)"
  by (simp_all add: keeps_def eff_defs)

lemma keeps_bind [keeps_intros]: "keeps f m \<Longrightarrow> (\<And>x. keeps f (k x)) \<Longrightarrow> keeps f (bindS m k)"
  by (auto simp: keeps_def bindS_def split: prod.splits sum.splits) (metis snd_conv)+

lemma keeps_then [keeps_intros]: "keeps f m \<Longrightarrow> keeps f n \<Longrightarrow> keeps f (thenS m n)"
  by (simp add: thenS_def keeps_bind)

definition create_law :: "'d disk_ops \<Rightarrow> ('d \<Rightarrow> string set) \<Rightarrow> bool" where
  "create_law D files \<longleftrightarrow> (\<forall>n d. case create_file_op D n d of
     (Inr u, d') \<Rightarrow> n \<notin> files d \<and> files d' = insert n (files d) | (Inl e, d') \<Rightarrow> files d' = files d)"

definition destroy_law :: "'d disk_ops \<Rightarrow> ('d \<Rightarrow> string set) \<Rightarrow> bool" where
  "destroy_law D files \<longleftrightarrow> (\<forall>n d. case destroy_file_op D n d of
     (Inr u, d') \<Rightarrow> files d' = files d - {n} | (Inl e, d') \<Rightarrow> files d' = files d)"

definition access_law :: "'d disk_ops \<Rightarrow> ('d \<Rightarrow> string set) \<Rightarrow> bool" where
  "access_law D files \<longleftrightarrow>
     (\<forall>n. keeps files (open_file_op D n)) \<and> (\<forall>fd. keeps files (close_file_op D fd)) \<and>
     (\<forall>fd p bs. keeps files (write_page_op D fd p bs)) \<and> (\<forall>fd p n. keeps files (read_page_op D fd p n)) \<and>
     (\<forall>fd. keeps files (file_size_op D fd)) \<and> (\<forall>fd n. keeps files (set_fd2pageno_op D fd n)) \<and>
     (\<forall>fd. keeps files (discard_pages_op D fd))"

definition disk_laws :: "'d disk_ops \<Rightarrow> ('d \<Rightarrow> string set) \<Rightarrow> bool" where
  "disk_laws D files \<longleftrightarrow> create_law D files \<and> destroy_law D files \<and> access_law D files"

lemma disk_keeps [keeps_intros]:
  assumes "disk_laws D files"
  shows "keeps files (open_file_op D n)" "keeps files (close_file_op D fd)" "keeps files (write_page_op D fd p bs)"
    "keeps files (read_page_op D fd p k)" "keeps files (file_size_op D fd)" "keeps files (set_fd2pageno_op D fd q)"
    "keeps files (discard_pages_op D fd)"
  using assms by (simp_all add: disk_laws_def access_law_def)

lemma disk_create:
  assumes "disk_laws D files"
  shows "create_file_op D n d = (Inr u, d') \<Longrightarrow> n \<notin> files d \<and> files d' = insert n (files d)"
    "create_file_op D n d = (Inl e, d') \<Longrightarrow> files d' = files d"
proof -
  have "create_law D files" using assms by (simp add: disk_laws_def)
  note law = this [unfolded create_law_def, THEN spec, of n, THEN spec, of d]
  show "create_file_op D n d = (Inr u, d') \<Longrightarrow> n \<notin> files d \<and> files d' = insert n (files d)"
    "create_file_op D n d = (Inl e, d') \<Longrightarrow> files d' = files d" using law by simp_all
qed

lemma disk_destroy:
  assumes "disk_laws D files"
  shows "destroy_file_op D n d = (Inr u, d') \<Longrightarrow> files d' = files d - {n}"
    "destroy_file_op D n d = (Inl e, d') \<Longrightarrow> files d' = files d"
proof -
  have "destroy_law D files" using assms by (simp add: disk_laws_def)
  note law = this [unfolded destroy_law_def, THEN spec, of n, THEN spec, of d]
  show "destroy_file_op D n d = (Inr u, d') \<Longrightarrow> files d' = files d - {n}"
    "destroy_file_op D n d = (Inl e, d') \<Longrightarrow> files d' = files d" using law by simp_all
qed

section \<open>An in-memory disk\<close>

text \<open>Files with their pages, the open descriptors, and the descriptor the next open returns.\<close>

record mem_disk =
  md_files :: "(string \<times> (int \<times> byte list) list) list"
  md_fds :: "(int \<times> string) list"
  md_next :: int

definition mem_files :: "mem_disk \<Rightarrow> string set" where
  "mem_files d = fst ` set (md_files d)"

definition mem_create :: "string \<Rightarrow> (mem_disk, unit) eff" where
  "mem_create n d =
     (if n \<in> mem_files d then (Inl (FileExistsError n), d) else (Inr (), d\<lparr>md_files := (n, []) # md_files d\<rparr>))"

definition mem_destroy :: "string \<Rightarrow> (mem_disk, unit) eff" where
  "mem_destroy n d =
     (if n \<notin> mem_files d then (Inl (FileNotFoundError n), d)
      else if n \<in> snd ` set (md_fds d) then (Inl (FileNotClosedError n), d)
      else (Inr (), d\<lparr>md_files := filter (\<lambda>f. fst f \<noteq> n) (md_files d)\<rparr>))"

definition mem_open :: "string \<Rightarrow> (mem_disk, int) eff" where
  "mem_open n d =
     (if n \<notin> mem_files d then (Inl (FileNotFoundError n), d)
      else if n \<in> snd ` set (md_fds d) then (Inl (FileNotClosedError n), d)
      else (Inr (md_next d), d\<lparr>md_fds := (md_next d, n) # md_fds d, md_next := md_next d + 1\<rparr>))"

definition mem_close :: "int \<Rightarrow> (mem_disk, unit) eff" where
  "mem_close fd d =
     (if map_of (md_fds d) fd = None then (Inl (FileNotOpenError fd), d)
      else (Inr (), d\<lparr>md_fds := filter (\<lambda>f. fst f \<noteq> fd) (md_fds d)\<rparr>))"

definition mem_write :: "int \<Rightarrow> int \<Rightarrow> byte list \<Rightarrow> (mem_disk, unit) eff" where
  "mem_write fd p bs d =
     (case map_of (md_fds d) fd of
        None \<Rightarrow> (Inl (InternalError ''DiskManager::write_page Error''), d)
      | Some n \<Rightarrow> (Inr (), d\<lparr>md_files := map (\<lambda>(m, ps). if m = n then (m, AList.update p bs ps) else (m, ps)) (md_files d)\<rparr>))"

definition mem_read :: "int \<Rightarrow> int \<Rightarrow> nat \<Rightarrow> (mem_disk, byte list) eff" where
  "mem_read fd p k d =
     (case map_of (md_fds d) fd of
        None \<Rightarrow> (Inl (InternalError ''DiskManager::read_page Error''), d)
      | Some n \<Rightarrow>
          (case map_of (md_files d) n of
             None \<Rightarrow> (Inl (InternalError ''DiskManager::read_page Error''), d)
           | Some ps \<Rightarrow>
               (case map_of ps p of
                  None \<Rightarrow> (Inl (InternalError ''DiskManager::read_page Error''), d)
                | Some bs \<Rightarrow> (Inr (take k bs), d))))"

definition mem_size :: "int \<Rightarrow> (mem_disk, int) eff" where
  "mem_size fd d =
     (case map_of (md_fds d) fd of
        None \<Rightarrow> (Inr (- 1), d)
      | Some n \<Rightarrow> (Inr (4096 * int (length (case map_of (md_files d) n of None \<Rightarrow> [] | Some ps \<Rightarrow> ps))), d))"

definition mem_ops :: "mem_disk disk_ops" where
  "mem_ops =
     \<lparr>create_file_op = mem_create, destroy_file_op = mem_destroy, open_file_op = mem_open, close_file_op = mem_close,
      write_page_op = mem_write, read_page_op = mem_read, file_size_op = mem_size,
      set_fd2pageno_op = (\<lambda>fd n. retS ()), discard_pages_op = (\<lambda>fd. retS ())\<rparr>"

definition empty_disk :: mem_disk where
  "empty_disk = \<lparr>md_files = [], md_fds = [], md_next = 3\<rparr>"

lemmas mem_ops_defs = mem_ops_def mem_create_def mem_destroy_def mem_open_def mem_close_def mem_write_def mem_read_def
  mem_size_def mem_files_def empty_disk_def

lemma fst_map_pages: "fst ` (\<lambda>(m, ps). if m = n then (m, f ps) else (m, ps)) ` A = fst ` A"
  unfolding image_image by (rule image_cong) (simp_all add: case_prod_beta)

lemma mem_disk_laws: "disk_laws mem_ops mem_files"
proof -
  have "keeps mem_files (mem_open n)" "keeps mem_files (mem_close fd)" "keeps mem_files (mem_read fd p k)"
    "keeps mem_files (mem_size fd)" for n fd p k
    by (auto simp: keeps_def mem_ops_defs split: option.splits)
  moreover have "keeps mem_files (mem_write fd p bs)" for fd p bs
    by (auto simp: keeps_def mem_write_def fst_map_pages mem_files_def split: option.splits)
  ultimately have "access_law mem_ops mem_files" by (simp add: access_law_def mem_ops_def keeps_intros)
  moreover have "create_law mem_ops mem_files" by (simp add: create_law_def mem_ops_defs)
  moreover have "destroy_law mem_ops mem_files" by (auto simp: destroy_law_def mem_ops_defs)
  ultimately show ?thesis by (simp add: disk_laws_def)
qed

end
