(* ===== verification/Index_Manager.thy ===== *)
theory Index_Manager
  imports Index_Tree Disk_Contract
begin

text \<open>
  \<^verbatim>\<open>IndexManager\<close> of \<^verbatim>\<open>src/src/index/index_manager.cpp\<close> and the constructor of \<^verbatim>\<open>BPlusTree\<close>: file names, the checks and the page
  layout computed when an index is created, the three pages written to the new file, and opening and closing. The lemmas
  show that the computed order is the largest that fits and that the written header is well formed.
\<close>

definition make_index_name :: "string \<Rightarrow> string list \<Rightarrow> string" where
  "make_index_name table_name index_columns = table_name @ concat (map (\<lambda>column. ''_'' @ column) index_columns) @ ''.idx''"

definition index_exists :: "(string \<Rightarrow> bool) \<Rightarrow> string \<Rightarrow> string list \<Rightarrow> bool" where
  "index_exists is_file table_name index_columns = is_file (make_index_name table_name index_columns)"

text \<open>The loop over the key's columns: the length of the key, or why it is refused.\<close>

fun check_key_columns :: "ColMeta list \<Rightarrow> int \<Rightarrow> int result" where
  "check_key_columns [] key = Inr key"
| "check_key_columns (column # columns) key =
     (let valid_length = cm_len column > 0 \<and> (cm_type column \<noteq> TYPE_STRING \<longrightarrow> cm_len column = 4);
          key' = key + cm_len column in
      if \<not> valid_length then Inl (InvalidColLengthError (cm_len column))
      else if key' > INDEX_MAX_KEY_LENGTH then Inl (InvalidColLengthError key')
      else check_key_columns columns key')"

text \<open>The loop that lowers the order until the node layout fits a page.\<close>

function fit_order :: "int \<Rightarrow> int \<Rightarrow> int result" where
  "fit_order order key =
     (if order > 2 then bindE (page_layout_fits order key) (\<lambda>fits. if \<not> fits then fit_order (order - 1) key else Inr order)
      else Inr order)"
  by pat_completeness auto
termination
  by (relation "measure (\<lambda>(order, key). nat order)") auto

declare fit_order.simps [simp del]

definition tree_order_for :: "int \<Rightarrow> int result" where
  "tree_order_for key =
     (let start = (int PAGE_SIZE - int sizeof_IndexPageHeader) div (key + int sizeof_Rid) - 1 in
      bindE (fit_order start key) (\<lambda>order.
        if order \<le> 2 then Inl (InvalidColLengthError key)
        else bindE (page_layout_fits order key) (\<lambda>fits. if \<not> fits then Inl (InvalidColLengthError key) else Inr order)))"

definition new_index_header :: "IndexMeta \<Rightarrow> IndexFileHeader result" where
  "new_index_header index =
     (let index_columns = ix_cols index in
      if index_columns = [] \<or> length index_columns > max_serialized_columns
      then Inl (InternalError ''Invalid number of index columns'')
      else bindE (check_key_columns index_columns 0) (\<lambda>key.
        bindE (tree_order_for key) (\<lambda>order.
          bindE (calculate_keys_region_size order key) (\<lambda>region.
            update_serialized_size
              ((IndexFileHeader_make INDEX_NO_PAGE INDEX_INITIAL_PAGE_COUNT INDEX_INITIAL_ROOT_PAGE
                 (word_of_nat (length index_columns)) (word_of_int key) (word_of_int order) (word_of_int region)
                 INDEX_INITIAL_ROOT_PAGE INDEX_INITIAL_ROOT_PAGE (ix_unique index))
               \<lparr>column_types := map (\<lambda>c. word_of_int (coltype_ord (cm_type c))) index_columns,
                column_lengths := map (\<lambda>c. word_of_int (cm_len c)) index_columns\<rparr>)))))"

definition create_index :: "'d disk_ops \<Rightarrow> IndexMeta \<Rightarrow> ('d, unit) eff" where
  "create_index D index =
     bindS (liftE (bindE (new_index_header index) (\<lambda>h.
              bindE (serialize (Some (replicate (nat (sint (hdr_size h))) 0)) h) (\<lambda>bytes. Inr bytes)))) (\<lambda>header_data.
     let index_name = make_index_name (ix_tab index) (map cm_name (ix_cols index)) in
     thenS (create_file_op D index_name)
     (bindS (open_file_op D index_name) (\<lambda>fd.
       thenS (write_page_op D fd (sint INDEX_FILE_HEADER_PAGE) header_data)
      (thenS (write_page_op D fd (sint INDEX_LEAF_HEADER_PAGE) (empty_leaf INDEX_INITIAL_ROOT_PAGE))
      (thenS (write_page_op D fd (sint INDEX_INITIAL_ROOT_PAGE) (empty_leaf INDEX_LEAF_HEADER_PAGE))
      (thenS (set_fd2pageno_op D fd (sint INDEX_INITIAL_PAGE_COUNT))
             (close_file_op D fd)))))))"

definition destroy_index :: "'d disk_ops \<Rightarrow> string \<Rightarrow> string list \<Rightarrow> ('d, unit) eff" where
  "destroy_index D table_name index_columns = destroy_file_op D (make_index_name table_name index_columns)"

text \<open>The constructor of the tree: the header page, and the first page number that no page of the file uses.\<close>

definition BPlusTree_make :: "'d disk_ops \<Rightarrow> int \<Rightarrow> ('d, int \<times> IndexFileHeader) eff" where
  "BPlusTree_make D fd =
     bindS (read_page_op D fd (sint INDEX_FILE_HEADER_PAGE) PAGE_SIZE) (\<lambda>buf.
     bindS (liftE (deserialize (Some (take PAGE_SIZE (buf @ replicate PAGE_SIZE 0))) PAGE_SIZE)) (\<lambda>h.
     bindS (file_size_op D fd) (\<lambda>file_size.
       if file_size < 0 then throwS (InternalError ''BPlusTree: cannot stat index file'')
       else let physical_pages = file_size div int PAGE_SIZE + (if file_size mod int PAGE_SIZE \<noteq> 0 then 1 else 0) in
         if physical_pages > 2147483647 then throwS (InternalError ''BPlusTree: index file is too large'')
         else thenS (set_fd2pageno_op D fd (max (sint (page_count h)) physical_pages)) (retS (fd, h)))))"

definition open_index :: "'d disk_ops \<Rightarrow> string \<Rightarrow> string list \<Rightarrow> ('d, int \<times> IndexFileHeader) eff" where
  "open_index D table_name index_columns =
     bindS (open_file_op D (make_index_name table_name index_columns)) (\<lambda>fd.
       cleanupS (BPlusTree_make D fd) (close_file_op D fd))"

definition close_index :: "'d disk_ops \<Rightarrow> int \<times> IndexFileHeader \<Rightarrow> ('d, unit) eff" where
  "close_index D index =
     (case index of (fd, h) \<Rightarrow>
        bindS (liftE (serialize (Some (replicate (nat (sint (hdr_size h))) 0)) h)) (\<lambda>header_data.
          thenS (write_page_op D fd (sint INDEX_FILE_HEADER_PAGE) header_data)
         (thenS (discard_pages_op D fd) (close_file_op D fd))))"

text \<open>Different indexes of one table can have the same file name: an underscore also separates the columns.\<close>

lemma make_index_name_collision: "make_index_name ''t'' [''a'', ''b''] = make_index_name ''t'' [''a_b'']"
  by (simp add: make_index_name_def)

section \<open>The computed layout\<close>

lemma align_bounds: "(3 + x) div 4 * 4 \<le> 3 + x" "x \<le> (3 + x) div 4 * 4" for x :: int
  by presburger+

lemma fits_iff:
  assumes "0 \<le> order" "order \<le> 5000" "0 < key" "key \<le> 512"
  shows "page_layout_fits order key = Inr (24 + (3 + (order + 1) * key) div 4 * 4 + (order + 1) * 8 \<le> 4096)"
    "calculate_keys_region_size order key = Inr ((3 + (order + 1) * key) div 4 * 4)"
proof -
  have "(order + 1) * key \<le> 5001 * 512" using assms by (intro mult_mono) auto
  moreover have "(3 + (order + 1) * key) div 4 * 4 \<le> 3 + (order + 1) * key" by (rule align_bounds)
  ultimately show "calculate_keys_region_size order key = Inr ((3 + (order + 1) * key) div 4 * 4)"
    using assms by (simp add: calculate_keys_region_size_def index_consts Let_def)
  then show "page_layout_fits order key = Inr (24 + (3 + (order + 1) * key) div 4 * 4 + (order + 1) * 8 \<le> 4096)"
    using assms by (simp add: page_layout_fits_def index_consts PAGE_SIZE_def)
qed

definition fits_page :: "int \<Rightarrow> int \<Rightarrow> bool" where
  "fits_page order key \<longleftrightarrow> 24 + (3 + (order + 1) * key) div 4 * 4 + (order + 1) * 8 \<le> 4096"

lemma fit_order_spec:
  assumes "0 < key" "key \<le> 512" "order \<le> 5000" "2 < order"
  shows "\<exists>k. fit_order order key = Inr k \<and> k \<le> order \<and> 2 \<le> k \<and> (k = 2 \<or> fits_page k key) \<and>
    (\<forall>m. k < m \<and> m \<le> order \<longrightarrow> \<not> fits_page m key)"
  using assms
proof (induction order key rule: fit_order.induct)
  case (1 order key)
  have f: "page_layout_fits order key = Inr (fits_page order key)" using fits_iff(1) [of order key] "1.prems" by (simp add: fits_page_def)
  show ?case
  proof (cases "fits_page order key")
    case True
    then show ?thesis using "1.prems" by (auto simp: fit_order.simps [of order] f)
  next
    case False
    have e: "fit_order order key = fit_order (order - 1) key" using False "1.prems" by (simp add: fit_order.simps [of order] f)
    have split: "m \<le> order - 1 \<or> m = order" if "m \<le> order" for m using that by linarith
    show ?thesis
    proof (cases "order - 1 > 2")
      case True
      from "1.IH" [OF "1.prems"(4) _ _ "1.prems"(1,2)] True False "1.prems"(3) obtain k where
        "fit_order (order - 1) key = Inr k" "k \<le> order - 1" "2 \<le> k" "k = 2 \<or> fits_page k key"
        "\<forall>m. k < m \<and> m \<le> order - 1 \<longrightarrow> \<not> fits_page m key" using f by auto
      then show ?thesis using e False split by (intro exI [of _ k]) auto
    next
      case b: False
      then have "order - 1 = 2" using "1.prems"(4) by linarith
      moreover from this have "fit_order (order - 1) key = Inr 2" by (simp add: fit_order.simps [of 2])
      moreover have "\<not> fits_page m key" if "2 < m" "m \<le> order" for m
      proof -
        have "m = order" using that \<open>order - 1 = 2\<close> by linarith
        with False show ?thesis by simp
      qed
      ultimately show ?thesis using e by (intro exI [of _ 2]) auto
    qed
  qed
qed

lemma fits_page_small: "0 < key \<Longrightarrow> key \<le> 512 \<Longrightarrow> fits_page 6 key"
  unfolding fits_page_def by presburger

lemma fits_page_bound:
  assumes "fits_page order key" "0 < key" "0 \<le> order"
  shows "order \<le> 4072 div (key + 8) - 1"
proof -
  have "(order + 1) * key \<le> (3 + (order + 1) * key) div 4 * 4" by (rule align_bounds)
  with assms(1) have "(order + 1) * (key + 8) \<le> 4072" by (simp add: fits_page_def algebra_simps)
  then have "(order + 1) * (key + 8) div (key + 8) \<le> 4072 div (key + 8)" using assms(2) by (intro zdiv_mono1) auto
  moreover have "(order + 1) * (key + 8) div (key + 8) = order + 1" using assms(2) by (intro nonzero_mult_div_cancel_right) auto
  ultimately have "order + 1 \<le> 4072 div (key + 8)" by simp
  then show ?thesis by simp
qed

lemma tree_order_for_best:
  assumes "0 < key" "key \<le> 512"
  shows "\<exists>k. tree_order_for key = Inr k \<and> 6 \<le> k \<and> k \<le> 1000 \<and> fits_page k key \<and> (\<forall>m. k < m \<longrightarrow> \<not> fits_page m key)"
proof -
  let ?s = "4072 div (key + 8) - 1"
  have s: "6 \<le> ?s" using fits_page_bound [OF fits_page_small [OF assms]] assms by simp
  have "4072 div (key + 8) \<le> 4072 div 9" using assms by (intro zdiv_mono2) auto
  then have s2: "?s \<le> 1000" by simp
  obtain k where k: "fit_order ?s key = Inr k" "k \<le> ?s" "2 \<le> k" "k = 2 \<or> fits_page k key"
    "\<forall>m. k < m \<and> m \<le> ?s \<longrightarrow> \<not> fits_page m key"
    using fit_order_spec [OF assms, of ?s] s s2 by auto
  have six: "6 \<le> k" using k(5) fits_page_small [OF assms] s by (meson not_le)
  have best: "\<not> fits_page m key" if "k < m" for m 
  proof
    assume "fits_page m key"
    moreover from this have "m \<le> ?s" using that six assms by (intro fits_page_bound) auto
    ultimately show False using k(5) that by blast
  qed
  have "page_layout_fits k key = Inr True" using fits_iff(1) [of k key] six k(2,4) s2 assms by (simp add: fits_page_def)
  then have "tree_order_for key = Inr k" using k(1) six by (simp add: tree_order_for_def index_consts PAGE_SIZE_def Let_def)
  with six k s2 best show ?thesis by auto
qed

section \<open>Headers of new indexes\<close>

lemma check_key_columns_ok:
  "\<forall>c\<in>set cs. cm_len c > 0 \<and> (cm_type c \<noteq> TYPE_STRING \<longrightarrow> cm_len c = 4) \<Longrightarrow> key + sum_list (map cm_len cs) \<le> 512 \<Longrightarrow>
   check_key_columns cs key = Inr (key + sum_list (map cm_len cs))"
proof (induction cs arbitrary: key)
  case Nil
  then show ?case by simp
next
  case (Cons c cs)
  have "0 \<le> sum_list (map cm_len cs)" using Cons.prems(1) by (intro sum_list_nonneg) auto
  with Cons.prems Cons.IH [of "key + cm_len c"] show ?case by (auto simp: INDEX_MAX_KEY_LENGTH_def Let_def add.assoc)
qed

lemma index_key_sum:
  assumes "tab_ok t" "ix \<in> set (tm_indexes t)"
  shows "col_tot_len ix = sum_list (map cm_len (ix_cols ix))" "0 < sum_list (map cm_len (ix_cols ix))"
    "sum_list (map cm_len (ix_cols ix)) \<le> 512" "\<forall>c\<in>set (ix_cols ix). cm_len c > 0 \<and> (cm_type c \<noteq> TYPE_STRING \<longrightarrow> cm_len c = 4)"
    "ix_cols ix \<noteq> []"
proof -
  have iok: "ix_cols ix \<noteq> []" "distinct (map cm_name (ix_cols ix))" "set (ix_cols ix) \<subseteq> set (tm_cols t)" "rebuild_derived ix = ix"
    using assms by (auto simp: tab_ok_def index_ok_def)
  have tok: "tm_cols t \<noteq> []" "distinct (map cm_name (tm_cols t))" "layout_ok 0 (tm_cols t)" "\<forall>c\<in>set (tm_cols t). col_ok (tm_name t) c"
    using assms(1) by (auto simp: tab_ok_def cols_ok_def)
  have fold: "foldl (\<lambda>n c. n + cm_len c) n cs = n + sum_list (map cm_len cs)" for n cs by (induction cs arbitrary: n) simp_all
  have "col_tot_len ix = col_tot_len (rebuild_derived ix)" using iok(4) by simp
  then show "col_tot_len ix = sum_list (map cm_len (ix_cols ix))" by (simp add: rebuild_derived_def fold)
  show valid: "\<forall>c\<in>set (ix_cols ix). cm_len c > 0 \<and> (cm_type c \<noteq> TYPE_STRING \<longrightarrow> cm_len c = 4)"
    using iok(3) tok(4) by (auto simp: col_ok_def)
  have "sum_list (map cm_len (ix_cols ix)) = sum cm_len (set (ix_cols ix))"
    using iok(2) by (simp add: distinct_map sum_list_distinct_conv_sum_set)
  also have "\<dots> \<le> sum cm_len (set (tm_cols t))" using iok(3) tok(4) by (intro sum_mono2) (auto simp: col_ok_def intro: less_imp_le)
  also have "\<dots> = sum_list (map cm_len (tm_cols t))" using tok(2) by (simp add: distinct_map sum_list_distinct_conv_sum_set)
  also have "\<dots> \<le> 512" using layout_ok_sum [OF tok(3,1)] by (simp add: RM_MAX_RECORD_SIZE_def)
  finally show "sum_list (map cm_len (ix_cols ix)) \<le> 512" .
  show "0 < sum_list (map cm_len (ix_cols ix))" using sum_pos [of "map cm_len (ix_cols ix)"] iok(1) valid by auto
  show "ix_cols ix \<noteq> []" by (rule iok(1))
qed

lemma new_index_header_ok:
  assumes cols: "ix_cols ix \<noteq> []" "length (ix_cols ix) \<le> max_serialized_columns"
    and valid: "\<forall>c\<in>set (ix_cols ix). cm_len c > 0 \<and> (cm_type c \<noteq> TYPE_STRING \<longrightarrow> cm_len c = 4)"
    and key: "key = sum_list (map cm_len (ix_cols ix))" "0 < key" "key \<le> 512"
  shows "\<exists>h. new_index_header ix = Inr h \<and> header_ok h \<and> sint (key_length h) = key \<and> hdr_unique h = ix_unique ix \<and>
    (\<forall>m. sint (tree_order h) < m \<longrightarrow> \<not> fits_page m key)"
proof -
  obtain k where k: "tree_order_for key = Inr k" "6 \<le> k" "k \<le> 1000" "fits_page k key" "\<forall>m. k < m \<longrightarrow> \<not> fits_page m key"
    using tree_order_for_best [OF key(2,3)] by auto
  define region where "region = (3 + (k + 1) * key) div 4 * 4"
  have reg: "calculate_keys_region_size k key = Inr region" "page_layout_fits k key = Inr True"
    using fits_iff [of k key] k key by (simp_all add: region_def fits_page_def)
  have "0 \<le> (k + 1) * key" using k(2) key(2) by simp
  then have "0 \<le> region" using align_bounds(2) [of "(k + 1) * key"] by (simp add: region_def)
  moreover have "region \<le> 4096" using k(2,4) by (simp add: region_def fits_page_def)
  ultimately have rb: "0 \<le> region" "region \<le> 4096" .
  have len: "length (ix_cols ix) \<le> 506" using cols(2) by (simp add: max_serialized_columns_def fixed_serialized_size_def PAGE_SIZE_def)
  have small: "0 < cm_len c \<and> cm_len c \<le> 512" if "c \<in> set (ix_cols ix)" for c
  proof -
    have "cm_len c \<le> sum_list (map cm_len (ix_cols ix))"
      using that valid by (intro member_le_sum_list) (auto intro: less_imp_le)
    then show ?thesis using that valid key by auto
  qed
  have sint_len: "sint (word_of_int (cm_len c) :: i32) = cm_len c" if "c \<in> set (ix_cols ix)" for c
    using small [OF that] by (intro sint_of_small_int) auto
  have lens: "map (sint \<circ> (\<lambda>c. word_of_int (cm_len c) :: i32)) (ix_cols ix) = map cm_len (ix_cols ix)"
    by (simp add: sint_len)
  have chk: "check_key_columns (ix_cols ix) 0 = Inr key" using check_key_columns_ok [OF valid, of 0] key by simp
  have sz: "sint (word_of_nat (serialized_size (length (ix_cols ix))) :: i32) = int (serialized_size (length (ix_cols ix)))"
    using len by (intro sint_of_small) (simp add: serialized_size_def fixed_serialized_size_def)
  let ?h = "(IndexFileHeader_make INDEX_NO_PAGE INDEX_INITIAL_PAGE_COUNT INDEX_INITIAL_ROOT_PAGE
      (word_of_nat (length (ix_cols ix))) (word_of_int key) (word_of_int k) (word_of_int region)
      INDEX_INITIAL_ROOT_PAGE INDEX_INITIAL_ROOT_PAGE (ix_unique ix))
    \<lparr>column_types := map (\<lambda>c. word_of_int (coltype_ord (cm_type c))) (ix_cols ix),
     column_lengths := map (\<lambda>c. word_of_int (cm_len c)) (ix_cols ix), hdr_size := word_of_nat (serialized_size (length (ix_cols ix)))\<rparr>"
  have f: "sint (column_count ?h) = int (length (ix_cols ix))" "sint (key_length ?h) = key" "sint (tree_order ?h) = k"
    "sint (keys_region_size ?h) = region" "sint (hdr_size ?h) = int (serialized_size (length (ix_cols ix)))"
    "length (column_types ?h) = length (ix_cols ix)" "length (column_lengths ?h) = length (ix_cols ix)"
    "map sint (column_lengths ?h) = map cm_len (ix_cols ix)"
    using len k key rb lens sz by (simp_all add: IndexFileHeader_make_def sint_of_small sint_of_small_int)
  have "new_index_header ix = Inr ?h"
    using cols chk k(1) reg(1) f(1) len unfolding new_index_header_def
    by (simp add: Let_def update_serialized_size_def IndexFileHeader_make_def sint_of_small)
  moreover have "sint n > 0" if "n \<in> set (column_lengths ?h)" for n
    using that small by (auto simp: sint_len)
  then have "header_ok ?h" unfolding header_ok_def f using f(8) reg cols key k(2) by (simp add: INDEX_MAX_KEY_LENGTH_def)
  ultimately show ?thesis using f k(5) by (intro exI [of _ ?h]) (simp add: IndexFileHeader_make_def)
qed



text \<open>Opening an index that cannot be read closes the file descriptor again; the record manager's counterpart does not.\<close>

lemma open_index_closes:
  assumes "open_file_op D (make_index_name tab cols) d = (Inr fd, d1)" "BPlusTree_make D fd d1 = (Inl e, d2)"
    "close_file_op D fd d2 = (Inr u, d3)"
  shows "open_index D tab cols d = (Inl e, d3)"
  using assms by (simp add: open_index_def bindS_def cleanupS_def)

end
