(* ===== verification/Disk_Log.thy ===== *)
theory Disk_Log
  imports Index_Header Effects
begin

text \<open>
  The log records of \<^verbatim>\<open>src/src/recovery/log_manager.h\<close> and the parts of \<^verbatim>\<open>src/src/storage/disk_manager.cpp\<close> that have a
  body: the log file, directories, file sizes, the table of open files and the page counters. The outcome of a system
  call is an argument. The lemmas show that a record appended to the log is read back as the record that was logged.
\<close>

section \<open>Log records\<close>

definition OFFSET_LOG_TYPE :: nat where "OFFSET_LOG_TYPE = 0"
definition OFFSET_LSN :: nat where "OFFSET_LSN = 4"
definition OFFSET_LOG_TOT_LEN :: nat where "OFFSET_LOG_TOT_LEN = OFFSET_LSN + 4"
definition OFFSET_LOG_TID :: nat where "OFFSET_LOG_TID = OFFSET_LOG_TOT_LEN + 4"
definition OFFSET_PREV_LSN :: nat where "OFFSET_PREV_LSN = OFFSET_LOG_TID + 4"
definition OFFSET_LOG_DATA :: nat where "OFFSET_LOG_DATA = OFFSET_PREV_LSN + 4"
definition LOG_HEADER_SIZE :: nat where "LOG_HEADER_SIZE = OFFSET_LOG_DATA"
definition LOG_BUFFER_SIZE :: int where "LOG_BUFFER_SIZE = 1024 * int PAGE_SIZE"

lemmas log_offsets = OFFSET_LOG_TYPE_def OFFSET_LSN_def OFFSET_LOG_TOT_LEN_def OFFSET_LOG_TID_def OFFSET_PREV_LSN_def
  OFFSET_LOG_DATA_def LOG_HEADER_SIZE_def

datatype LogType = LOG_UPDATE | LOG_INSERT | LOG_DELETE | LOG_begin | LOG_commit | LOG_ABORT

text \<open>The enumeration is stored as an \<^verbatim>\<open>int\<close>; a record read from a file may hold any value.\<close>

fun log_type_code :: "LogType \<Rightarrow> i32" where
  "log_type_code LOG_UPDATE = 0"
| "log_type_code LOG_INSERT = 1"
| "log_type_code LOG_DELETE = 2"
| "log_type_code LOG_begin = 3"
| "log_type_code LOG_commit = 4"
| "log_type_code LOG_ABORT = 5"

record LogRecord =
  log_type :: i32
  lsn :: i32
  log_tot_len :: i32
  log_tid :: i32
  prev_lsn :: i32

definition LogRecord_serialize :: "('a LogRecord_scheme) \<Rightarrow> byte list \<Rightarrow> byte list" where
  "LogRecord_serialize r dest =
     (let d = put_i32 OFFSET_LOG_TYPE (log_type r) dest;
          d = put_i32 OFFSET_LSN (lsn r) d;
          d = put_i32 OFFSET_LOG_TOT_LEN (log_tot_len r) d;
          d = put_i32 OFFSET_LOG_TID (log_tid r) d
      in put_i32 OFFSET_PREV_LSN (prev_lsn r) d)"

definition LogRecord_deserialize :: "byte list \<Rightarrow> 'a LogRecord_scheme \<Rightarrow> 'a LogRecord_scheme" where
  "LogRecord_deserialize src r =
     r\<lparr>log_type := get_i32 OFFSET_LOG_TYPE src, lsn := get_i32 OFFSET_LSN src, log_tot_len := get_i32 OFFSET_LOG_TOT_LEN src,
       log_tid := get_i32 OFFSET_LOG_TID src, prev_lsn := get_i32 OFFSET_PREV_LSN src\<rparr>"

definition BeginLogRecord :: "i32 \<Rightarrow> LogRecord" where
  "BeginLogRecord txn_id =
     \<lparr>log_type = log_type_code LOG_begin, lsn = word_of_int INVALID_LSN, log_tot_len = word_of_nat LOG_HEADER_SIZE,
      log_tid = txn_id, prev_lsn = word_of_int INVALID_LSN\<rparr>"

text \<open>The name's pointer is null in a default record.\<close>

record InsertLogRecord = LogRecord +
  insert_value :: RmRecord
  ins_rid :: Rid
  log_table_name :: "byte list option"
  table_name_size :: "64 word"

definition InsertLogRecord_default :: InsertLogRecord where
  "InsertLogRecord_default =
     \<lparr>log_type = log_type_code LOG_INSERT, lsn = word_of_int INVALID_LSN, log_tot_len = word_of_nat LOG_HEADER_SIZE,
      log_tid = word_of_int INVALID_TXN_ID, prev_lsn = word_of_int INVALID_LSN, insert_value = RmRecord_null,
      ins_rid = \<lparr>page_no = INVALID_PAGE_ID, slot_no = -1\<rparr>, log_table_name = None, table_name_size = 0\<rparr>"

definition InsertLogRecord_make :: "i32 \<Rightarrow> RmRecord \<Rightarrow> Rid \<Rightarrow> string \<Rightarrow> InsertLogRecord result" where
  "InsertLogRecord_make txn_id v rid name =
     bindE (copy_assign False (insert_value InsertLogRecord_default) v) (\<lambda>v'.
       Inr (InsertLogRecord_default
         \<lparr>log_tid := txn_id, insert_value := v', ins_rid := rid,
          table_name_size := word_of_nat (length name), log_table_name := Some (map byte_of_char name),
          log_tot_len := log_tot_len InsertLogRecord_default + 4 + word_of_int (rec_size v') + word_of_nat sizeof_Rid +
            (8 + word_of_nat (length name))\<rparr>))"

text \<open>\<^verbatim>\<open>memcpy\<close> of \<open>n\<close> bytes behind a pointer; nothing is copied from the null pointer, whose size is zero.\<close>

definition copied :: "nat \<Rightarrow> byte list option \<Rightarrow> byte list" where
  "copied n p = (case p of None \<Rightarrow> [] | Some bs \<Rightarrow> take n bs)"

definition rid_bytes :: "Rid \<Rightarrow> byte list" where
  "rid_bytes r = store_i32 (word_of_int (page_no r)) @ store_i32 (word_of_int (slot_no r))"

definition InsertLogRecord_serialize :: "InsertLogRecord \<Rightarrow> byte list \<Rightarrow> byte list" where
  "InsertLogRecord_serialize r dest =
     (let d = LogRecord_serialize r dest;
          offset = OFFSET_LOG_DATA;
          d = put_i32 offset (word_of_int (rec_size (insert_value r))) d;
          offset = offset + 4;
          n = nat (rec_size (insert_value r));
          d = splice offset (copied n (rec_data (insert_value r))) d;
          offset = offset + n;
          d = splice offset (rid_bytes (ins_rid r)) d;
          offset = offset + sizeof_Rid;
          d = splice offset (le_bytes 8 (unat (table_name_size r))) d;
          offset = offset + 8
      in splice offset (copied (unat (table_name_size r)) (log_table_name r)) d)"

text \<open>The base fields are already read when the record's size is refused.\<close>

definition InsertLogRecord_deserialize :: "byte list \<Rightarrow> (InsertLogRecord, unit) eff" where
  "InsertLogRecord_deserialize src r =
     (let r1 = LogRecord_deserialize src r in
      case Deserialize (Some (drop OFFSET_LOG_DATA src)) (insert_value r1) of
        Inl e \<Rightarrow> (Inl e, r1)
      | Inr v \<Rightarrow>
          let offset = nat (int OFFSET_LOG_DATA + rec_size v) + 4;
              rid = \<lparr>page_no = sint (get_i32 offset src), slot_no = sint (get_i32 (offset + 4) src)\<rparr>;
              offset = offset + sizeof_Rid;
              n = word_of_nat (le_val (take 8 (drop offset src)));
              offset = offset + 8
          in (Inr (), r1\<lparr>insert_value := v, ins_rid := rid, table_name_size := n,
                        log_table_name := Some (take (unat n) (drop offset src))\<rparr>))"

section \<open>The log buffer\<close>

record LogBuffer =
  log_buffer :: "byte list"
  log_offset :: int

definition LogBuffer_make :: LogBuffer where
  "LogBuffer_make = \<lparr>log_buffer = replicate (nat LOG_BUFFER_SIZE + 1) 0, log_offset = 0\<rparr>"

definition is_full :: "LogBuffer \<Rightarrow> int \<Rightarrow> bool" where
  "is_full b append_size \<longleftrightarrow> log_offset b + append_size > LOG_BUFFER_SIZE"

section \<open>The disk manager\<close>

text \<open>
  The page counters are a fixed array of atomics, one for each file descriptor. The maps between paths and descriptors
  are kept by \<^verbatim>\<open>open_file\<close> and \<^verbatim>\<open>close_file\<close>, which have no body; \<open>open_op\<close> is what \<^verbatim>\<open>open_file\<close> does.
\<close>

definition MAX_FD :: int where "MAX_FD = 8192"

record DiskManager =
  path2fd :: "string \<Rightarrow> int option"
  fd2path :: "int \<Rightarrow> string option"
  dm_log_fd :: int
  fd2pageno :: "int \<Rightarrow> i32"
  log_content :: "byte list"

definition allocate_page :: "int \<Rightarrow> (DiskManager, i32) eff" where
  "allocate_page fd d =
     (if \<not> (0 \<le> fd \<and> fd < MAX_FD) then (Inl AssertionFailure, d)
      else (Inr (fd2pageno d fd), d\<lparr>fd2pageno := (fd2pageno d)(fd := fd2pageno d fd + 1)\<rparr>))"

definition set_fd2pageno :: "int \<Rightarrow> i32 \<Rightarrow> DiskManager \<Rightarrow> DiskManager" where
  "set_fd2pageno fd start_page_no d = d\<lparr>fd2pageno := (fd2pageno d)(fd := start_page_no)\<rparr>"

text \<open>\<open>created\<close> is the value of \<^verbatim>\<open>create_directory\<close>, \<open>removed\<close> that of \<^verbatim>\<open>remove_all\<close>, \<open>err\<close> the message of the error code if it is set.\<close>

definition create_dir :: "bool \<Rightarrow> string option \<Rightarrow> string \<Rightarrow> unit result" where
  "create_dir created err path =
     (if created then Inr ()
      else (case err of
          Some m \<Rightarrow> Inl (InternalError (''cannot create directory '' @ path @ '': '' @ m))
        | None \<Rightarrow> Inl (FileExistsError path)))"

definition destroy_dir :: "nat \<Rightarrow> string option \<Rightarrow> string \<Rightarrow> unit result" where
  "destroy_dir removed err path =
     (case err of
        Some m \<Rightarrow> Inl (InternalError (''cannot remove directory '' @ path @ '': '' @ m))
      | None \<Rightarrow> if removed = 0 then Inl (FileNotFoundError path) else Inr ())"

text \<open>\<open>st\<close> is the size \<^verbatim>\<open>stat\<close> reports, if it succeeds.\<close>

definition get_file_size :: "int option \<Rightarrow> string \<Rightarrow> int result" where
  "get_file_size st file_name =
     (case st of
        None \<Rightarrow> Inr (- 1)
      | Some n \<Rightarrow>
          if n < 0 \<or> n > 2147483647
          then Inl (InternalError (''file is too large for the teaching storage manager: '' @ file_name))
          else Inr n)"

definition get_file_name :: "int \<Rightarrow> DiskManager \<Rightarrow> string result" where
  "get_file_name fd d = (case fd2path d fd of None \<Rightarrow> Inl (FileNotOpenError fd) | Some p \<Rightarrow> Inr p)"

definition get_file_fd :: "(string \<Rightarrow> (DiskManager, int) eff) \<Rightarrow> string \<Rightarrow> (DiskManager, int) eff" where
  "get_file_fd open_op file_name d =
     (case path2fd d file_name of None \<Rightarrow> open_op file_name d | Some fd \<Rightarrow> (Inr fd, d))"

text \<open>
  What the operating system does in one call on the log file: whether \<^verbatim>\<open>stat\<close> and \<^verbatim>\<open>lseek\<close> succeed, how many bytes
  \<^verbatim>\<open>read\<close> or \<^verbatim>\<open>write\<close> moves at most (a negative number for an error), and the text of \<^verbatim>\<open>errno\<close>.
\<close>

record log_env =
  stat_ok :: bool
  seek_ok :: bool
  io_count :: int
  errno_text :: string

definition log_name :: string where "log_name = ''db.log''"

definition open_log :: "(string \<Rightarrow> (DiskManager, int) eff) \<Rightarrow> (DiskManager, unit) eff" where
  "open_log open_op =
     thenS (\<lambda>d. if dm_log_fd d = - 1 then bindS (open_op log_name) (\<lambda>fd d'. (Inr (), d'\<lparr>dm_log_fd := fd\<rparr>)) d else (Inr (), d))
       (\<lambda>d. if dm_log_fd d < 0 then (Inl (FileNotOpenError (dm_log_fd d)), d) else (Inr (), d))"

definition read_log ::
    "(string \<Rightarrow> (DiskManager, int) eff) \<Rightarrow> log_env \<Rightarrow> int \<Rightarrow> int \<Rightarrow> (DiskManager, int \<times> byte list) eff" where
  "read_log open_op E size' offset =
     thenS (open_log open_op) (\<lambda>d.
       case get_file_size (if stat_ok E then Some (int (length (log_content d))) else None) log_name of
         Inl e \<Rightarrow> (Inl e, d)
       | Inr file_size \<Rightarrow>
           if offset > file_size then (Inr (- 1, []), d)
           else let size' = min size' (file_size - offset) in
             if size' = 0 then (Inr (0, []), d)
             else if \<not> seek_ok E \<or> offset < 0 then (Inl (UnixError (errno_text E)), d)
             else let bytes_read = min (io_count E) (min size' (int (length (log_content d)) - offset)) in
               if bytes_read < 0 then (Inl (UnixError (errno_text E)), d)
               else if bytes_read \<noteq> size' then (Inl (InternalError ''short read from database log''), d)
               else (Inr (bytes_read, take (nat bytes_read) (drop (nat offset) (log_content d))), d))"

definition write_log :: "(string \<Rightarrow> (DiskManager, int) eff) \<Rightarrow> log_env \<Rightarrow> byte list \<Rightarrow> int \<Rightarrow> (DiskManager, unit) eff" where
  "write_log open_op E log_data size' =
     thenS (open_log open_op) (\<lambda>d.
       if \<not> seek_ok E then (Inl (UnixError (errno_text E)), d)
       else let bytes_write = min (io_count E) size';
                d' = d\<lparr>log_content := log_content d @ take (nat bytes_write) log_data\<rparr>
            in if bytes_write \<noteq> size' then (Inl (UnixError (errno_text E)), d') else (Inr (), d'))"

section \<open>Images of log records\<close>

named_theorems image_simps \<open>stores and loads in a concatenation, from its front\<close>

lemma splice_skip [image_simps]: "length a \<le> k \<Longrightarrow> splice k bs (a @ d) = a @ splice (k - length a) bs d"
  by (simp add: splice_def)

lemma splice_front [image_simps]: "splice 0 bs d = bs @ drop (length bs) d"
  by (simp add: splice_def)

lemma put_i32_skip [image_simps]: "length a \<le> k \<Longrightarrow> put_i32 k w (a @ d) = a @ put_i32 (k - length a) w d"
  by (simp add: put_i32_def splice_skip)

lemma put_i32_front [image_simps]: "put_i32 0 w d = store_i32 w @ drop 4 d"
  by (simp add: put_i32_def splice_front)

lemma get_i32_skip [image_simps]: "length a \<le> k \<Longrightarrow> get_i32 k (a @ d) = get_i32 (k - length a) d"
  by (simp add: get_i32_def)

lemma get_i32_front [image_simps]: "get_i32 0 (store_i32 w @ d) = w"
  by (simp add: get_i32_def)

definition header_image :: "('a LogRecord_scheme) \<Rightarrow> byte list" where
  "header_image r = store_i32 (log_type r) @ store_i32 (lsn r) @ store_i32 (log_tot_len r) @ store_i32 (log_tid r) @
     store_i32 (prev_lsn r)"

definition insert_image :: "InsertLogRecord \<Rightarrow> byte list" where
  "insert_image r = header_image r @ store_i32 (word_of_int (rec_size (insert_value r))) @
     copied (nat (rec_size (insert_value r))) (rec_data (insert_value r)) @ rid_bytes (ins_rid r) @
     le_bytes 8 (unat (table_name_size r)) @ copied (unat (table_name_size r)) (log_table_name r)"

lemma length_header_image [simp]: "length (header_image r) = 20"
  by (simp add: header_image_def)

lemma length_rid_bytes [simp]: "length (rid_bytes r) = 8"
  by (simp add: rid_bytes_def)

lemma LogRecord_serialize_image: "LogRecord_serialize r dest = header_image r @ drop 20 dest"
  by (simp add: LogRecord_serialize_def header_image_def log_offsets image_simps)

lemma LogRecord_deserialize_image:
  "LogRecord_deserialize (header_image r @ d) s =
     s\<lparr>log_type := log_type r, lsn := lsn r, log_tot_len := log_tot_len r, log_tid := log_tid r, prev_lsn := prev_lsn r\<rparr>"
  by (simp add: LogRecord_deserialize_def header_image_def log_offsets image_simps)

text \<open>A record whose buffers have the sizes it declares, with every number in the range of its type.\<close>

definition rid_ok :: "Rid \<Rightarrow> bool" where
  "rid_ok r \<longleftrightarrow> - 2147483648 \<le> page_no r \<and> page_no r < 2147483648 \<and> - 2147483648 \<le> slot_no r \<and> slot_no r < 2147483648"

definition record_ok :: "RmRecord \<Rightarrow> bool" where
  "record_ok v \<longleftrightarrow> 0 \<le> rec_size v \<and> rec_size v \<le> RM_MAX_RECORD_SIZE \<and> rec_allocated v = (rec_data v \<noteq> None) \<and>
     (case rec_data v of None \<Rightarrow> rec_size v = 0 | Some bs \<Rightarrow> bs \<noteq> [] \<and> rec_size v = int (length bs))"

definition log_insert_ok :: "InsertLogRecord \<Rightarrow> bool" where
  "log_insert_ok r \<longleftrightarrow> record_ok (insert_value r) \<and> rid_ok (ins_rid r) \<and>
     (case log_table_name r of None \<Rightarrow> False | Some n \<Rightarrow> unat (table_name_size r) = length n)"

lemma copied_record: "record_ok v \<Longrightarrow> int (length (copied (nat (rec_size v)) (rec_data v))) = rec_size v"
  by (auto simp: record_ok_def copied_def split: option.splits)

lemma InsertLogRecord_serialize_image:
  assumes "log_insert_ok r"
  shows "InsertLogRecord_serialize r dest = insert_image r @ drop (length (insert_image r)) dest"
proof -
  let ?n = "nat (rec_size (insert_value r))"
  have n: "length (copied ?n (rec_data (insert_value r))) = ?n"
    using copied_record [of "insert_value r"] assms by (simp add: log_insert_ok_def)
  show ?thesis
    by (simp add: InsertLogRecord_serialize_def LogRecord_serialize_image Let_def log_offsets sizeof_Rid_def n image_simps
        insert_image_def ac_simps)
qed

lemma Deserialize_image:
  assumes "record_ok v"
  shows "Deserialize (Some (store_i32 (word_of_int (rec_size v)) @ copied (nat (rec_size v)) (rec_data v) @ d)) w = Inr v"
proof -
  have s: "sint (word_of_int (rec_size v) :: i32) = rec_size v"
    using assms by (intro sint_of_small_int) (simp_all add: record_ok_def RM_MAX_RECORD_SIZE_def)
  have l: "word_of_nat (le_val (store_i32 x)) = x" for x :: i32
    using load_store_i32_exact [of x] by (simp add: load_i32_def)
  show ?thesis
    using assms s
    by (cases v; cases "rec_data v") (auto simp: Deserialize_def l record_ok_def copied_def Let_def RM_MAX_RECORD_SIZE_def)
qed

lemma le_u64_roundtrip: "word_of_nat (le_val (le_bytes 8 (unat w))) = (w :: 64 word)"
proof -
  have "unat w < 2 ^ LENGTH(64)" by (rule unsigned_less)
  then show ?thesis by (simp add: le_val_le_bytes)
qed

lemma insert_log_image:
  assumes "log_insert_ok r"
  shows "InsertLogRecord_deserialize (insert_image r @ d) s = (Inr (), r)"
proof -
  let ?v = "insert_value r"
  let ?n = "nat (rec_size ?v)"
  have v: "record_ok ?v" and rid: "rid_ok (ins_rid r)" using assms by (simp_all add: log_insert_ok_def)
  have n: "length (copied ?n (rec_data ?v)) = ?n" "0 \<le> rec_size ?v"
    using copied_record [OF v] v by (simp_all add: record_ok_def)
  obtain nm where nm: "log_table_name r = Some nm" "unat (table_name_size r) = length nm"
    using assms by (auto simp: log_insert_ok_def split: option.splits)
  have D: "Deserialize (Some (drop OFFSET_LOG_DATA (insert_image r @ d))) w = Inr ?v" for w
    using Deserialize_image [OF v] by (simp add: insert_image_def log_offsets)
  have R: "sint (word_of_int (page_no (ins_rid r)) :: i32) = page_no (ins_rid r)"
    "sint (word_of_int (slot_no (ins_rid r)) :: i32) = slot_no (ins_rid r)"
    using rid by (simp_all add: rid_ok_def sint_of_small_int)
  have off: "nat (int OFFSET_LOG_DATA + rec_size ?v) + 4 = 24 + ?n" using n by (simp add: log_offsets nat_add_distrib)
  have tl: "word_of_nat (le_val (le_bytes 8 (length nm))) = table_name_size r" using le_u64_roundtrip nm(2) by metis
  show ?thesis
    unfolding InsertLogRecord_deserialize_def Let_def D sum.case off
    by (simp add: insert_image_def LogRecord_deserialize_image image_simps rid_bytes_def R nm tl n(1) sizeof_Rid_def)
      (use nm in \<open>cases r; cases s; simp add: copied_def\<close>)
qed

lemma InsertLogRecord_make_ok:
  assumes "record_ok v" "rid_ok rid" "length name < 2 ^ 32" "InsertLogRecord_make txn v rid name = Inr r"
  shows "log_insert_ok (r\<lparr>lsn := l, prev_lsn := p\<rparr>)" "insert_value r = v" "ins_rid r = rid" "log_tid r = txn"
    "log_table_name r = Some (map byte_of_char name)"
    "log_tot_len r = word_of_nat (length (insert_image (r\<lparr>lsn := l, prev_lsn := p\<rparr>)))"
proof -
  have "copy_assign False (insert_value InsertLogRecord_default) v = Inr v"
    using assms(1) by (cases v; cases "rec_data v") (auto simp: record_ok_def copy_assign_def copy_data_def)
  then have r: "r = InsertLogRecord_default
      \<lparr>log_tid := txn, insert_value := v, ins_rid := rid, table_name_size := word_of_nat (length name),
       log_table_name := Some (map byte_of_char name),
       log_tot_len := log_tot_len InsertLogRecord_default + 4 + word_of_int (rec_size v) + word_of_nat sizeof_Rid +
         (8 + word_of_nat (length name))\<rparr>"
    using assms(4) by (simp add: InsertLogRecord_make_def)
  have u: "unat (word_of_nat (length name) :: 64 word) = length name"
    using assms(3) by (simp add: unat_of_nat)
  show "log_insert_ok (r\<lparr>lsn := l, prev_lsn := p\<rparr>)" using assms(1,2) u by (simp add: r log_insert_ok_def)
  show "insert_value r = v" "ins_rid r = rid" "log_tid r = txn" "log_table_name r = Some (map byte_of_char name)"
    by (simp_all add: r)
  have n: "length (copied (nat (rec_size v)) (rec_data v)) = nat (rec_size v)" "0 \<le> rec_size v"
    using copied_record [OF assms(1)] assms(1) by (simp_all add: record_ok_def)
  have "word_of_int (rec_size v) = (word_of_nat (nat (rec_size v)) :: i32)" using n(2) by simp
  then show "log_tot_len r = word_of_nat (length (insert_image (r\<lparr>lsn := l, prev_lsn := p\<rparr>)))"
    using n(1) by (simp add: r insert_image_def u InsertLogRecord_default_def log_offsets sizeof_Rid_def copied_def)
qed

section \<open>The log file\<close>

text \<open>The log file can be opened, if it is not open yet, without touching its content.\<close>

definition log_opens :: "(string \<Rightarrow> (DiskManager, int) eff) \<Rightarrow> DiskManager \<Rightarrow> bool" where
  "log_opens open_op d \<longleftrightarrow> 0 \<le> dm_log_fd d \<or>
     dm_log_fd d = - 1 \<and> (case open_op log_name d of (Inr fd, d') \<Rightarrow> 0 \<le> fd \<and> log_content d' = log_content d | _ \<Rightarrow> False)"

lemma open_log_ok:
  assumes "log_opens open_op d"
  obtains d' where "open_log open_op d = (Inr (), d')" "log_content d' = log_content d" "0 \<le> dm_log_fd d'"
proof (cases "0 \<le> dm_log_fd d")
  case True
  then have "open_log open_op d = (Inr (), d)" by (auto simp: open_log_def eff_defs)
  with True show ?thesis using that by blast
next
  case False
  then obtain fd d1 where "dm_log_fd d = - 1" "open_op log_name d = (Inr fd, d1)" "0 \<le> fd" "log_content d1 = log_content d"
    using assms by (auto simp: log_opens_def split: prod.splits sum.splits)
  then have "open_log open_op d = (Inr (), d1\<lparr>dm_log_fd := fd\<rparr>)" "log_content (d1\<lparr>dm_log_fd := fd\<rparr>) = log_content d"
    by (auto simp: open_log_def eff_defs)
  with \<open>0 \<le> fd\<close> show ?thesis using that by simp
qed

lemma write_log_ok:
  assumes "log_opens open_op d" "seek_ok E" "int (length bs) \<le> io_count E"
  obtains d' where "write_log open_op E bs (int (length bs)) d = (Inr (), d')" "log_content d' = log_content d @ bs"
    "0 \<le> dm_log_fd d'"
proof -
  obtain d1 where d1: "open_log open_op d = (Inr (), d1)" "log_content d1 = log_content d" "0 \<le> dm_log_fd d1"
    using open_log_ok [OF assms(1)] .
  then have "write_log open_op E bs (int (length bs)) d = (Inr (), d1\<lparr>log_content := log_content d1 @ bs\<rparr>)"
    using assms(2,3) by (simp add: write_log_def eff_defs Let_def min_def)
  with d1 show ?thesis using that by simp
qed

lemma read_log_ok:
  assumes "0 \<le> dm_log_fd d" "stat_ok E" "seek_ok E" "n \<le> io_count E" "0 < n" "0 \<le> off" "off + n \<le> int (length (log_content d))"
    "int (length (log_content d)) \<le> 2147483647"
  shows "read_log open_op E n off d = (Inr (n, take (nat n) (drop (nat off) (log_content d))), d)"
  using assms by (simp add: read_log_def open_log_def eff_defs get_file_size_def Let_def min_def)

section \<open>Properties\<close>

text \<open>
  C7 (a logged insertion is read back). The insert record that the log writes for a valid record, whatever numbers the
  log manager assigned to it, occupies exactly the length it declares: a log buffer that is not full for that length takes
  it, and nothing behind it in the buffer changes. Appended to
  the log file the record is read from there, by a reader of at least its length at its position, as the same record: table
  name, record identifier, record image and header are those that were logged.
\<close>

theorem logged_insert_read_back:
  assumes "record_ok v" "rid_ok rid" "length name < 2 ^ 31" "InsertLogRecord_make txn v rid name = Inr r0"
    and "r = r0\<lparr>lsn := l, prev_lsn := p\<rparr>"
    and "length (log_buffer b) = nat LOG_BUFFER_SIZE + 1" "0 \<le> log_offset b" "\<not> is_full b (int (unat (log_tot_len r0)))"
    and "buf = drop (nat (log_offset b)) (log_buffer b)"
    and "log_opens open_op d" "stat_ok E" "seek_ok E" "int (unat (log_tot_len r0)) \<le> io_count E"
    and "length (log_content d) + unat (log_tot_len r0) < 2 ^ 31"
  shows "length (InsertLogRecord_serialize r buf) = length buf \<and>
    drop (unat (log_tot_len r0)) (InsertLogRecord_serialize r buf) = drop (unat (log_tot_len r0)) buf \<and>
    (\<exists>d' img. write_log open_op E (take (unat (log_tot_len r0)) (InsertLogRecord_serialize r buf)) (int (unat (log_tot_len r0))) d = (Inr (), d') \<and>
      read_log open_op E (int (unat (log_tot_len r0))) (int (length (log_content d))) d' =
        (Inr (int (unat (log_tot_len r0)), img), d') \<and>
      InsertLogRecord_deserialize img s = (Inr (), r)) \<and>
    insert_value r = v \<and> ins_rid r = rid \<and> log_table_name r = Some (map byte_of_char name) \<and> log_tid r = txn"
proof -
  have ok: "log_insert_ok r" "insert_value r = v" "ins_rid r = rid" "log_tid r = txn" "log_table_name r = Some (map byte_of_char name)"
    "log_tot_len r0 = word_of_nat (length (insert_image r))"
    using InsertLogRecord_make_ok [OF assms(1,2) _ assms(4)] assms(3) by (simp_all add: assms(5))
  have "length (insert_image r) < 2 ^ 32"
  proof -
    have "length (copied (nat (rec_size v)) (rec_data v)) \<le> 512" "unat (table_name_size r) = length name"
      using copied_record [OF assms(1)] assms(1) ok(1,5) by (auto simp: record_ok_def log_insert_ok_def RM_MAX_RECORD_SIZE_def)
    then show ?thesis using assms(3) by (simp add: insert_image_def ok copied_def)
  qed
  then have n: "unat (log_tot_len r0) = length (insert_image r)" by (simp add: ok(6) unat_of_nat)
  let ?n = "length (insert_image r)"
  have pos: "0 < ?n" by (simp add: insert_image_def)
  have fits: "?n \<le> length buf" using assms(6-9) n by (auto simp: is_full_def LOG_BUFFER_SIZE_def PAGE_SIZE_def)
  have ser: "InsertLogRecord_serialize r buf = insert_image r @ drop ?n buf" by (rule InsertLogRecord_serialize_image [OF ok(1)])
  obtain d' where d': "write_log open_op E (insert_image r) (int ?n) d = (Inr (), d')" "log_content d' = log_content d @ insert_image r"
    "0 \<le> dm_log_fd d'"
    using write_log_ok [OF assms(10,12)] assms(13) n by metis
  have "read_log open_op E (int ?n) (int (length (log_content d))) d' = (Inr (int ?n, insert_image r), d')"
    using read_log_ok [OF d'(3) assms(11,12), where n = "int ?n" and off = "int (length (log_content d))"] assms(13,14) n pos by (simp add: d'(2))
  moreover have "InsertLogRecord_deserialize (insert_image r) s = (Inr (), r)" using insert_log_image [OF ok(1), of "[]"] by simp
  ultimately show ?thesis unfolding n using d'(1) ok(2-5) fits by (auto simp: ser)
qed

definition sample_open :: "string \<Rightarrow> (DiskManager, int) eff" where
  "sample_open path d = (Inr 7, d\<lparr>path2fd := (path2fd d)(path \<mapsto> 7), fd2path := (fd2path d)(7 \<mapsto> path)\<rparr>)"

definition sample_dm :: DiskManager where
  "sample_dm = \<lparr>path2fd = Map.empty, fd2path = Map.empty, dm_log_fd = - 1, fd2pageno = (\<lambda>_. 0), log_content = [1, 2]\<rparr>"

definition sample_env :: log_env where
  "sample_env = \<lparr>stat_ok = True, seek_ok = True, io_count = 4096, errno_text = []\<rparr>"

definition sample_value :: RmRecord where
  "sample_value = \<lparr>rec_data = Some [9, 8, 7], rec_size = 3, rec_allocated = True\<rparr>"

theorem logged_insert_read_back_witness:
  "\<exists>r d' img. InsertLogRecord_make 5 sample_value \<lparr>page_no = 1, slot_no = 2\<rparr> ''t'' = Inr r \<and>
     read_log sample_open sample_env 44 2 d' = (Inr (44, img), d') \<and>
     snd (InsertLogRecord_deserialize img InsertLogRecord_default) = r\<lparr>lsn := 3, prev_lsn := 2\<rparr>"
proof -
  let ?rid = "\<lparr>page_no = 1, slot_no = 2\<rparr> :: Rid"
  obtain r where r: "InsertLogRecord_make 5 sample_value ?rid ''t'' = Inr r" "unat (log_tot_len r) = 44"
    by (simp add: InsertLogRecord_make_def sample_value_def copy_assign_def copy_data_def InsertLogRecord_default_def
        log_offsets sizeof_Rid_def)
  have "record_ok sample_value" "rid_ok ?rid" "log_opens sample_open sample_dm"
    by (simp_all add: record_ok_def rid_ok_def sample_value_def RM_MAX_RECORD_SIZE_def log_opens_def sample_dm_def sample_open_def)
  from logged_insert_read_back [OF this(1,2) _ r(1) refl _ _ _ refl this(3), where b = LogBuffer_make
      and E = sample_env and l = 3 and p = 2 and s = InsertLogRecord_default]
  show ?thesis using r by (fastforce simp: sample_env_def sample_dm_def LogBuffer_make_def is_full_def LOG_BUFFER_SIZE_def PAGE_SIZE_def)
qed

end
