(* ===== verification/Record_Manager.thy ===== *)
theory Record_Manager
  imports Byte_Memory Effects
begin

unbundle bit_operations_syntax

text \<open>
  Record files (\<^verbatim>\<open>src/src/record\<close>): the slot bitmap of \<^verbatim>\<open>bitmap.h\<close>, the file header and the page layout of \<^verbatim>\<open>rm_defs.h\<close> and
  \<^verbatim>\<open>rm_file_handle.h\<close>, and the file operations of \<^verbatim>\<open>rm_manager.h\<close> over the disk manager's operations. Reading and
  writing single records is an exercise without a body in this repository and is not modelled.
\<close>

section \<open>Bitmap\<close>

definition BITMAP_WIDTH :: nat where "BITMAP_WIDTH = 8"
definition BITMAP_HIGHEST_BIT :: byte where "BITMAP_HIGHEST_BIT = 0x80"

definition get_bucket :: "nat \<Rightarrow> nat" where
  "get_bucket pos = pos div BITMAP_WIDTH"

definition get_bit :: "nat \<Rightarrow> byte" where
  "get_bit pos = drop_bit (pos mod BITMAP_WIDTH) BITMAP_HIGHEST_BIT"

definition bm_init :: "nat \<Rightarrow> byte list" where
  "bm_init size' = replicate size' 0"

definition bm_set :: "byte list \<Rightarrow> nat \<Rightarrow> byte list" where
  "bm_set bm pos = bm[get_bucket pos := (bm ! get_bucket pos) OR get_bit pos]"

definition bm_reset :: "byte list \<Rightarrow> nat \<Rightarrow> byte list" where
  "bm_reset bm pos = bm[get_bucket pos := (bm ! get_bucket pos) AND NOT (get_bit pos)]"

definition is_set :: "byte list \<Rightarrow> nat \<Rightarrow> bool" where
  "is_set bm pos \<longleftrightarrow> (bm ! get_bucket pos) AND get_bit pos \<noteq> 0"

text \<open>The search loop of \<^verbatim>\<open>next_bit\<close> from position \<open>i\<close> on.\<close>

function next_from :: "bool \<Rightarrow> byte list \<Rightarrow> int \<Rightarrow> int \<Rightarrow> int" where
  "next_from b bm max_n i =
     (if i < max_n then if is_set bm (nat i) = b then i else next_from b bm max_n (i + 1) else max_n)"
  by pat_completeness auto
termination
  by (relation "measure (\<lambda>(b, bm, max_n, i). nat (max_n - i))") auto

declare next_from.simps [simp del]

definition next_bit :: "bool \<Rightarrow> byte list \<Rightarrow> int \<Rightarrow> int \<Rightarrow> int" where
  "next_bit b bm max_n cur = next_from b bm max_n (cur + 1)"

definition first_bit :: "bool \<Rightarrow> byte list \<Rightarrow> int \<Rightarrow> int" where
  "first_bit b bm max_n = next_bit b bm max_n (- 1)"

lemma get_bit_exp: "get_bit pos = 2 ^ (7 - pos mod 8)"
proof -
  have "pos mod 8 \<in> {0, 1, 2, 3, 4, 5, 6, 7}" by auto
  then show ?thesis by (auto simp: get_bit_def BITMAP_WIDTH_def BITMAP_HIGHEST_BIT_def)
qed

lemma is_set_bit: "is_set bm pos \<longleftrightarrow> bit (bm ! (pos div 8)) (7 - pos mod 8)"
  by (simp add: is_set_def get_bucket_def BITMAP_WIDTH_def get_bit_exp and_exp_eq_0_iff_not_bit)

lemma same_bit: "p div 8 = q div 8 \<Longrightarrow> 7 - p mod 8 = 7 - q mod 8 \<longleftrightarrow> p = q" for p q :: nat
proof
  assume d: "p div 8 = q div 8" and "7 - p mod 8 = 7 - q mod 8"
  moreover have "p mod 8 < 8" "q mod 8 < 8" by simp_all
  ultimately have "p mod 8 = q mod 8" by linarith
  with d show "p = q" by (metis div_mult_mod_eq)
qed simp

lemma is_set_bm_set [mem_simps]:
  "pos div 8 < length bm \<Longrightarrow> is_set (bm_set bm pos) q \<longleftrightarrow> q = pos \<or> is_set bm q"
  by (cases "q div 8 = pos div 8")
    (auto simp: is_set_bit bm_set_def get_bucket_def BITMAP_WIDTH_def get_bit_exp bit_or_iff bit_exp_iff possible_bit_word same_bit)

lemma is_set_bm_reset [mem_simps]:
  "pos div 8 < length bm \<Longrightarrow> is_set (bm_reset bm pos) q \<longleftrightarrow> q \<noteq> pos \<and> is_set bm q"
  by (cases "q div 8 = pos div 8")
    (auto simp: is_set_bit bm_reset_def get_bucket_def BITMAP_WIDTH_def get_bit_exp bit_and_iff bit_not_iff bit_exp_iff possible_bit_word same_bit)

lemma is_set_bm_init [mem_simps]: "pos div 8 < n \<Longrightarrow> \<not> is_set (bm_init n) pos"
  by (simp add: is_set_bit bm_init_def)

lemma next_from_spec:
  "0 \<le> i \<Longrightarrow> i \<le> max_n \<Longrightarrow>
   i \<le> next_from b bm max_n i \<and> next_from b bm max_n i \<le> max_n \<and>
   (\<forall>j. i \<le> j \<and> j < next_from b bm max_n i \<longrightarrow> is_set bm (nat j) \<noteq> b) \<and>
   (next_from b bm max_n i < max_n \<longrightarrow> is_set bm (nat (next_from b bm max_n i)) = b)"
proof (induction b bm max_n i rule: next_from.induct)
  case (1 b bm max_n i)
  show ?case
  proof (cases "i < max_n \<and> is_set bm (nat i) \<noteq> b")
    case True
    have e: "next_from b bm max_n i = next_from b bm max_n (i + 1)" using True by (subst next_from.simps) simp
    have "j = i \<or> i + 1 \<le> j" if "i \<le> j" for j using that by linarith
    with True 1 e show ?thesis by auto
  next
    case False
    with 1 show ?thesis by (auto simp: next_from.simps [of b bm max_n i])
  qed
qed

section \<open>File header and page layout\<close>

definition RM_NO_PAGE :: i32 where "RM_NO_PAGE = - 1"
definition RM_FILE_HDR_PAGE :: int where "RM_FILE_HDR_PAGE = 0"
definition RM_FIRST_RECORD_PAGE :: i32 where "RM_FIRST_RECORD_PAGE = 1"
definition OFFSET_PAGE_HDR :: nat where "OFFSET_PAGE_HDR = 4"
definition sizeof_RmPageHdr :: nat where "sizeof_RmPageHdr = 8"

lemmas rm_consts = RM_NO_PAGE_def RM_FILE_HDR_PAGE_def RM_FIRST_RECORD_PAGE_def OFFSET_PAGE_HDR_def sizeof_RmPageHdr_def

record RmFileHdr =
  record_size :: i32
  num_pages :: i32
  num_records_per_page :: i32
  first_free_page_no :: i32
  bitmap_size :: i32

definition RmFileHdr_bytes :: "RmFileHdr \<Rightarrow> byte list" where
  "RmFileHdr_bytes h =
     store_i32 (record_size h) @ store_i32 (num_pages h) @ store_i32 (num_records_per_page h) @
     store_i32 (first_free_page_no h) @ store_i32 (bitmap_size h)"

definition RmFileHdr_load :: "byte list \<Rightarrow> RmFileHdr" where
  "RmFileHdr_load p =
     \<lparr>record_size = get_i32 0 p, num_pages = get_i32 4 p, num_records_per_page = get_i32 8 p,
      first_free_page_no = get_i32 12 p, bitmap_size = get_i32 16 p\<rparr>"

text \<open>The loop of \<^verbatim>\<open>create_file\<close> that shrinks the number of records until header, bitmap and records fit a page.\<close>

definition required_bytes :: "nat \<Rightarrow> nat \<Rightarrow> nat" where
  "required_bytes rec_len n = OFFSET_PAGE_HDR + sizeof_RmPageHdr + (n + BITMAP_WIDTH - 1) div BITMAP_WIDTH + n * rec_len"

function shrink_records :: "nat \<Rightarrow> nat \<Rightarrow> nat \<times> nat" where
  "shrink_records rec_len n =
     (if required_bytes rec_len n \<le> PAGE_SIZE then (n, (n + BITMAP_WIDTH - 1) div BITMAP_WIDTH)
      else shrink_records rec_len (n - 1))"
  by pat_completeness auto
termination
proof (relation "measure snd")
  fix rec_len n :: nat
  assume "\<not> required_bytes rec_len n \<le> PAGE_SIZE"
  then have "n \<noteq> 0" by (intro notI) (simp add: required_bytes_def rm_consts BITMAP_WIDTH_def PAGE_SIZE_def)
  then show "((rec_len, n - 1), rec_len, n) \<in> measure snd" by simp
qed simp

declare shrink_records.simps [simp del]

definition records_layout :: "nat \<Rightarrow> nat \<times> nat" where
  "records_layout rec_len = shrink_records rec_len ((PAGE_SIZE - OFFSET_PAGE_HDR - sizeof_RmPageHdr) div rec_len)"

definition new_file_hdr :: "int \<Rightarrow> RmFileHdr" where
  "new_file_hdr rec_len =
     (let (n, bm) = records_layout (nat rec_len) in
      \<lparr>record_size = word_of_int rec_len, num_pages = RM_FIRST_RECORD_PAGE, num_records_per_page = word_of_nat n,
       first_free_page_no = RM_NO_PAGE, bitmap_size = word_of_nat bm\<rparr>)"

text \<open>The parts of a record page as offsets: the bitmap behind the page header, the slots behind the bitmap.\<close>

definition bitmap_offset :: nat where
  "bitmap_offset = OFFSET_PAGE_HDR + sizeof_RmPageHdr"

definition slots_offset :: "RmFileHdr \<Rightarrow> int" where
  "slots_offset h = int bitmap_offset + sint (bitmap_size h)"

definition get_slot :: "RmFileHdr \<Rightarrow> int \<Rightarrow> int" where
  "get_slot h slot_no' = slots_offset h + slot_no' * sint (record_size h)"

text \<open>\<^verbatim>\<open>is_record\<close>: the page is fetched through the buffer pool, whose answer \<open>None\<close> is the null guard.\<close>

definition is_record :: "(int \<Rightarrow> byte list option) \<Rightarrow> Rid \<Rightarrow> bool result" where
  "is_record fetch rid =
     (case fetch (page_no rid) of
        None \<Rightarrow> Inl (InternalError ''failed to fetch record page'')
      | Some p \<Rightarrow> Inr (is_set (drop bitmap_offset p) (nat (slot_no rid))))"

section \<open>File operations\<close>

record RmFileHandle =
  fh_fd :: int
  fh_hdr :: RmFileHdr

definition RmFileHandle_make :: "'d disk_ops \<Rightarrow> int \<Rightarrow> ('d, RmFileHandle) eff" where
  "RmFileHandle_make D fd =
     bindS (read_page_op D fd RM_FILE_HDR_PAGE 20) (\<lambda>p.
       let h = RmFileHdr_load p in
       thenS (set_fd2pageno_op D fd (sint (num_pages h))) (retS \<lparr>fh_fd = fd, fh_hdr = h\<rparr>))"

definition rm_create_file :: "'d disk_ops \<Rightarrow> string \<Rightarrow> int \<Rightarrow> ('d, unit) eff" where
  "rm_create_file D filename rec_len =
     (if rec_len < 1 \<or> rec_len > RM_MAX_RECORD_SIZE then throwS (InvalidRecordSizeError rec_len)
      else thenS (create_file_op D filename)
        (bindS (open_file_op D filename) (\<lambda>fd.
          thenS (write_page_op D fd RM_FILE_HDR_PAGE (RmFileHdr_bytes (new_file_hdr rec_len))) (close_file_op D fd))))"

definition rm_destroy_file :: "'d disk_ops \<Rightarrow> string \<Rightarrow> ('d, unit) eff" where
  "rm_destroy_file D filename = destroy_file_op D filename"

definition rm_open_file :: "'d disk_ops \<Rightarrow> string \<Rightarrow> ('d, RmFileHandle) eff" where
  "rm_open_file D filename = bindS (open_file_op D filename) (RmFileHandle_make D)"

definition rm_close_file :: "'d disk_ops \<Rightarrow> RmFileHandle \<Rightarrow> ('d, unit) eff" where
  "rm_close_file D h =
     thenS (write_page_op D (fh_fd h) RM_FILE_HDR_PAGE (RmFileHdr_bytes (fh_hdr h)))
       (thenS (discard_pages_op D (fh_fd h)) (close_file_op D (fh_fd h)))"

text \<open>When the header page cannot be read, \<^verbatim>\<open>open_file\<close> throws with the file still open: nothing closes the descriptor.\<close>

lemma rm_open_file_leaks:
  assumes "open_file_op D filename d = (Inr fd, d1)" "read_page_op D fd RM_FILE_HDR_PAGE 20 d1 = (Inl e, d2)"
  shows "rm_open_file D filename d = (Inl e, d2)"
  using assms by (simp add: rm_open_file_def RmFileHandle_make_def bindS_def)

section \<open>Properties\<close>

lemma RmFileHdr_roundtrip [mem_simps]: "RmFileHdr_load (RmFileHdr_bytes h) = h"
  by (cases h) (simp add: RmFileHdr_load_def RmFileHdr_bytes_def get_i32_def)

lemma required_bytes_mono: "m \<le> n \<Longrightarrow> required_bytes rec_len m \<le> required_bytes rec_len n"
  by (auto simp: required_bytes_def intro!: add_mono div_le_mono mult_right_mono)

lemma shrink_records_spec:
  "shrink_records rec_len n = (k, bm) \<Longrightarrow>
   k \<le> n \<and> bm = (k + 7) div 8 \<and> required_bytes rec_len k \<le> PAGE_SIZE \<and>
   (\<forall>m. k < m \<and> m \<le> n \<longrightarrow> PAGE_SIZE < required_bytes rec_len m)"
proof (induction rec_len n rule: shrink_records.induct)
  case (1 rec_len n)
  show ?case
  proof (cases "required_bytes rec_len n \<le> PAGE_SIZE")
    case True
    with "1.prems" show ?thesis by (auto simp: shrink_records.simps [of rec_len n] BITMAP_WIDTH_def)
  next
    case False
    then have "shrink_records rec_len (n - 1) = (k, bm)" using "1.prems" by (simp add: shrink_records.simps [of rec_len n])
    note ih = "1.IH" [OF False this]
    have "PAGE_SIZE < required_bytes rec_len m" if "k < m" "m \<le> n" for m
      using ih that False by (cases "m = n") auto
    with ih show ?thesis by auto
  qed
qed

lemma records_layout_spec:
  assumes "1 \<le> rec_len" "records_layout rec_len = (k, bm)"
  shows "bm = (k + 7) div 8" "required_bytes rec_len k \<le> PAGE_SIZE" "k < m \<Longrightarrow> PAGE_SIZE < required_bytes rec_len m"
proof -
  let ?n = "(PAGE_SIZE - OFFSET_PAGE_HDR - sizeof_RmPageHdr) div rec_len"
  have s: "k \<le> ?n \<and> bm = (k + 7) div 8 \<and> required_bytes rec_len k \<le> PAGE_SIZE \<and>
    (\<forall>m. k < m \<and> m \<le> ?n \<longrightarrow> PAGE_SIZE < required_bytes rec_len m)"
    using assms(2) by (intro shrink_records_spec) (simp add: records_layout_def)
  show "bm = (k + 7) div 8" "required_bytes rec_len k \<le> PAGE_SIZE" using s by auto
  assume "k < m"
  show "PAGE_SIZE < required_bytes rec_len m"
  proof (cases "m \<le> ?n")
    case True
    with s \<open>k < m\<close> show ?thesis by auto
  next
    case False
    then have "4084 < m * rec_len"
      using assms(1) by (simp add: PAGE_SIZE_def rm_consts not_le div_less_iff_less_mult)
    then show ?thesis by (simp add: required_bytes_def PAGE_SIZE_def rm_consts)
  qed
qed

lemma records_layout_bounds:
  assumes "1 \<le> rec_len" "rec_len \<le> 512" "records_layout rec_len = (k, bm)"
  shows "7 \<le> k" "k \<le> 4084" "bm \<le> 511"
proof -
  note sp = records_layout_spec [OF assms(1,3)]
  have "k * rec_len \<le> 4084" using sp(2) by (simp add: required_bytes_def PAGE_SIZE_def rm_consts)
  moreover have "k \<le> k * rec_len" using assms(1) by simp
  ultimately show "k \<le> 4084" by (rule order_trans [rotated])
  then show "bm \<le> 511" using sp(1) by linarith
  show "7 \<le> k"
  proof (rule ccontr)
    assume "\<not> 7 \<le> k"
    then have "PAGE_SIZE < required_bytes rec_len 7" by (intro sp(3)) simp
    then show False using assms(2) by (simp add: required_bytes_def PAGE_SIZE_def rm_consts BITMAP_WIDTH_def)
  qed
qed

text \<open>
  C36 (record page layout). For every record length the record manager accepts, the loop that fits the page ends with at
  least seven records per page, the bitmap has a bit for every slot, every slot lies behind the bitmap and inside the page,
  different slots do not overlap, no larger number of records would have fitted, and the header page written to the file
  reads back as the same header.
\<close>

theorem record_page_layout:
  assumes "1 \<le> rec_len" "rec_len \<le> RM_MAX_RECORD_SIZE"
    and "h = new_file_hdr rec_len" "n = sint (num_records_per_page h)"
  shows "7 \<le> n \<and> n \<le> 8 * sint (bitmap_size h) \<and> sint (record_size h) = rec_len \<and>
    (\<forall>i. 0 \<le> i \<and> i < n \<longrightarrow> slots_offset h \<le> get_slot h i \<and> get_slot h i + rec_len \<le> int PAGE_SIZE) \<and>
    (\<forall>i j. 0 \<le> i \<and> i < j \<and> j < n \<longrightarrow> get_slot h i + rec_len \<le> get_slot h j) \<and>
    (\<forall>m. n < int m \<longrightarrow> PAGE_SIZE < required_bytes (nat rec_len) m) \<and>
    RmFileHdr_load (RmFileHdr_bytes h) = h"
proof -
  obtain k bm where lay: "records_layout (nat rec_len) = (k, bm)" by fastforce
  have r: "1 \<le> nat rec_len" "nat rec_len \<le> 512" using assms(1,2) by (auto simp: RM_MAX_RECORD_SIZE_def)
  note sp = records_layout_spec [OF r(1) lay] and bd = records_layout_bounds [OF r lay]
  have n: "n = int k" and b: "sint (bitmap_size h) = int bm" and rl: "sint (record_size h) = rec_len"
    using assms(1,2) bd lay unfolding assms(3,4) new_file_hdr_def
    by (simp_all add: sint_of_small sint_of_small_int RM_MAX_RECORD_SIZE_def)
  have slot: "get_slot h i = 12 + int bm + i * rec_len" for i
    by (simp add: get_slot_def slots_offset_def bitmap_offset_def rm_consts b rl)
  have step: "i * rec_len + rec_len \<le> j * rec_len" if "i < j" for i j
    using mult_right_mono [of "i + 1" j rec_len] that assms(1) by (simp add: algebra_simps)
  have "12 + bm + k * nat rec_len \<le> PAGE_SIZE"
    using sp(1,2) by (simp add: required_bytes_def rm_consts BITMAP_WIDTH_def add.commute)
  then have "int (12 + bm + k * nat rec_len) \<le> int PAGE_SIZE" by (simp only: of_nat_le_iff)
  then have total: "12 + int bm + int k * rec_len \<le> int PAGE_SIZE" using assms(1) by simp
  have inside: "slots_offset h \<le> get_slot h i \<and> get_slot h i + rec_len \<le> int PAGE_SIZE" if "0 \<le> i \<and> i < n" for i
    using step [of i "int k"] total that n assms(1) by (simp add: slot slots_offset_def bitmap_offset_def b rm_consts)
  have apart: "get_slot h i + rec_len \<le> get_slot h j" if "i < j" for i j using step [OF that] by (simp add: slot)
  have best: "PAGE_SIZE < required_bytes (nat rec_len) m" if "n < int m" for m using that n by (intro sp(3)) simp
  have "n \<le> 8 * sint (bitmap_size h)" unfolding n b sp(1) by linarith
  with inside apart best n bd(1) rl show ?thesis by (simp add: RmFileHdr_roundtrip)
qed

theorem record_page_layout_witness:
  "7 \<le> sint (num_records_per_page (new_file_hdr 100)) \<and> sint (record_size (new_file_hdr 100)) = 100"
  using record_page_layout [OF _ _ refl refl, of 100] by (simp add: RM_MAX_RECORD_SIZE_def)

text \<open>
  C37 (free slot search). The search for a clear bit in the slot bitmap returns the first free slot below the bound, or the
  bound when all are taken; setting the bit found occupies that slot and no other, and clearing it again restores every slot.
\<close>

theorem free_slot_search:
  assumes "0 \<le> max_n" "max_n \<le> 8 * int (length bm)" "p = first_bit False bm max_n"
  shows "0 \<le> p \<and> p \<le> max_n \<and> (\<forall>j. 0 \<le> j \<and> j < p \<longrightarrow> is_set bm (nat j)) \<and>
    (p < max_n \<longrightarrow> \<not> is_set bm (nat p) \<and> (\<forall>q. is_set (bm_set bm (nat p)) q \<longleftrightarrow> q = nat p \<or> is_set bm q) \<and>
      (\<forall>q. is_set (bm_reset (bm_set bm (nat p)) (nat p)) q \<longleftrightarrow> is_set bm q))"
proof -
  have p: "p = next_from False bm max_n 0" by (simp add: assms(3) first_bit_def next_bit_def)
  note sp = next_from_spec [of 0 max_n False bm, folded p, simplified, OF assms(1)]
  have len: "nat p div 8 < length bm" if "p < max_n" using assms(2) sp that by (auto simp: div_less_iff_less_mult)
  have "length (bm_set bm (nat p)) = length bm" by (simp add: bm_set_def)
  with len sp have "is_set (bm_reset (bm_set bm (nat p)) (nat p)) q \<longleftrightarrow> is_set bm q" if "p < max_n" for q
    using that by (auto simp: is_set_bm_reset is_set_bm_set)
  with sp len show ?thesis by (auto simp: is_set_bm_set)
qed

theorem free_slot_search_witness: "first_bit False [0xE0] 8 = 3 \<and> \<not> is_set [0xE0] 3"
proof -
  have "first_bit False [0xE0] 8 = 3" by code_simp
  then show ?thesis using free_slot_search [of 8 "[0xE0]" 3] by simp
qed

end
