(* ===== verification/Page_Guard.thy ===== *)
theory Page_Guard
  imports Record_Manager
begin

text \<open>
  Pages, page guards and the framework part of the buffer pool: \<^verbatim>\<open>src/src/storage/page.h\<close>, \<^verbatim>\<open>page_guard.h\<close> and
  \<^verbatim>\<open>page_guard.cpp\<close>. A guard owns one pin of a page from its creation to its release. The pool's own operations (fetch,
  new, unpin, delete and flush) are exercises without a body; they are the components of a record, and their documented
  behaviour is the hypothesis \<open>pool_laws\<close>. The lemmas show that no sequence of guard operations loses or duplicates a pin.
\<close>

section \<open>Pages\<close>

record PageId =
  pid_fd :: int
  pid_no :: int

definition PageId_default :: PageId where
  "PageId_default = \<lparr>pid_fd = - 1, pid_no = INVALID_PAGE_ID\<rparr>"

definition pid_less :: "PageId \<Rightarrow> PageId \<Rightarrow> bool" where
  "pid_less y x \<longleftrightarrow> (if pid_fd y \<noteq> pid_fd x then pid_fd y < pid_fd x else pid_no y < pid_no x)"

definition pid_hash_key :: "PageId \<Rightarrow> 64 word" where
  "pid_hash_key x = push_bit 16 (ucast (word_of_int (pid_fd x) :: i32)) OR ucast (word_of_int (pid_no x) :: i32)"

record Page =
  pg_id :: PageId
  pg_data :: "byte list"
  pg_dirty :: bool
  pin_count :: int

definition get_page_lsn :: "Page \<Rightarrow> i32" where
  "get_page_lsn p = get_i32 0 (pg_data p)"

definition set_page_lsn :: "i32 \<Rightarrow> Page \<Rightarrow> Page" where
  "set_page_lsn page_lsn p = p\<lparr>pg_data := put_i32 0 page_lsn (pg_data p)\<rparr>"

text \<open>The frames and the page table of the pool; the free list and the replacer serve only the operations without a body.\<close>

record BufferPool =
  pages :: "Page list"
  page_table :: "(PageId \<times> nat) list"

text \<open>\<^verbatim>\<open>std::map::operator[]\<close> inserts zero for a new key, to which the count is added.\<close>

fun snapshot_loop :: "Page list \<Rightarrow> (PageId \<Rightarrow> int option) \<Rightarrow> PageId \<Rightarrow> int option" where
  "snapshot_loop [] snapshot = snapshot"
| "snapshot_loop (page # ps) snapshot =
     snapshot_loop ps
       (if pin_count page > 0
        then snapshot(pg_id page \<mapsto> (case snapshot (pg_id page) of None \<Rightarrow> 0 | Some n \<Rightarrow> n) + pin_count page)
        else snapshot)"

definition get_pin_snapshot :: "BufferPool \<Rightarrow> PageId \<Rightarrow> int option" where
  "get_pin_snapshot s = snapshot_loop (pages s) Map.empty"

section \<open>The pool's operations\<close>

text \<open>A page pointer is the number of its frame, \<open>None\<close> the null pointer. \<^verbatim>\<open>new_page\<close> also writes the new identifier.\<close>

record pool_ops =
  fetch_page_op :: "PageId \<Rightarrow> BufferPool \<Rightarrow> nat option \<times> BufferPool"
  new_page_op :: "PageId \<Rightarrow> BufferPool \<Rightarrow> (nat option \<times> PageId) \<times> BufferPool"
  unpin_page_op :: "PageId \<Rightarrow> bool \<Rightarrow> BufferPool \<Rightarrow> bool \<times> BufferPool"
  delete_page_op :: "PageId \<Rightarrow> BufferPool \<Rightarrow> bool \<times> BufferPool"
  flush_all_op :: "int \<Rightarrow> BufferPool \<Rightarrow> BufferPool"

definition discard_file_pages :: "pool_ops \<Rightarrow> int \<Rightarrow> BufferPool \<Rightarrow> BufferPool" where
  "discard_file_pages P fd s =
     (let s1 = flush_all_op P fd s;
          resident_pages = filter (\<lambda>page_id. pid_fd page_id = fd) (map fst (page_table s1))
      in fold (\<lambda>page_id s. snd (delete_page_op P page_id s)) resident_pages s1)"

section \<open>Guards\<close>

record PageGuard =
  g_pool :: bool
  g_page :: "nat option"
  g_id :: PageId
  g_dirty :: bool

definition PageGuard_empty :: PageGuard where
  "PageGuard_empty = \<lparr>g_pool = False, g_page = None, g_id = PageId_default, g_dirty = False\<rparr>"

definition guard_valid :: "PageGuard \<Rightarrow> bool" where
  "guard_valid g \<longleftrightarrow> g_page g \<noteq> None"

definition mark_dirty :: "PageGuard \<Rightarrow> PageGuard" where
  "mark_dirty g = (if g_page g \<noteq> None then g\<lparr>g_dirty := True\<rparr> else g)"

definition drop_guard :: "pool_ops \<Rightarrow> PageGuard \<Rightarrow> BufferPool \<Rightarrow> bool \<times> PageGuard \<times> BufferPool" where
  "drop_guard P g s =
     (if g_page g = None then (True, g, s)
      else if \<not> g_pool g then (False, PageGuard_empty, s)
      else (case unpin_page_op P (g_id g) (g_dirty g) s of (ok, s') \<Rightarrow> (ok, PageGuard_empty, s')))"

text \<open>The move constructor gives the new guard and what is left of the source.\<close>

definition move_guard :: "PageGuard \<Rightarrow> PageGuard \<times> PageGuard" where
  "move_guard other = (other, PageGuard_empty)"

definition fetch_page_guard :: "pool_ops \<Rightarrow> PageId \<Rightarrow> BufferPool \<Rightarrow> PageGuard \<times> BufferPool" where
  "fetch_page_guard P page_id s =
     (case fetch_page_op P page_id s of
        (None, s') \<Rightarrow> (PageGuard_empty, s')
      | (Some page, s') \<Rightarrow> (\<lparr>g_pool = True, g_page = Some page, g_id = pg_id (pages s' ! page), g_dirty = False\<rparr>, s'))"

definition new_page_guard :: "pool_ops \<Rightarrow> PageId \<Rightarrow> BufferPool \<Rightarrow> PageGuard \<times> PageId \<times> BufferPool" where
  "new_page_guard P page_id s =
     (case new_page_op P page_id s of
        ((None, pid), s') \<Rightarrow> (PageGuard_empty, pid, s')
      | ((Some page, pid), s') \<Rightarrow> (\<lparr>g_pool = True, g_page = Some page, g_id = pg_id (pages s' ! page), g_dirty = False\<rparr>, pid, s'))"

section \<open>Programs over guards\<close>

text \<open>
  The life of guard objects: a variable is declared by a fetch, a new page or a move construction, assigned by a move,
  dropped early, marked dirty, and destroyed at the end of its scope. A step is defined when the variables it declares
  do not exist and those it uses do.
\<close>

datatype guard_op =
    FetchGuard nat PageId
  | NewGuard nat PageId
  | MoveInit nat nat
  | MoveAssign nat nat
  | MarkDirty nat
  | DropGuard nat
  | DestroyGuard nat

type_synonym guard_store = "nat \<Rightarrow> PageGuard option"

definition guard_assign :: "pool_ops \<Rightarrow> nat \<Rightarrow> nat \<Rightarrow> guard_store \<Rightarrow> BufferPool \<Rightarrow> (guard_store \<times> BufferPool) option" where
  "guard_assign P v w \<sigma> s =
     (case (\<sigma> v, \<sigma> w) of
        (Some g, Some h) \<Rightarrow>
          if v = w then Some (\<sigma>, s)
          else (case drop_guard P g s of (_, _, s') \<Rightarrow> Some (\<sigma>(v \<mapsto> h, w \<mapsto> PageGuard_empty), s'))
      | _ \<Rightarrow> None)"

fun guard_step :: "pool_ops \<Rightarrow> guard_op \<Rightarrow> guard_store \<times> BufferPool \<Rightarrow> (guard_store \<times> BufferPool) option" where
  "guard_step P (FetchGuard v pid) (\<sigma>, s) =
     (if \<sigma> v \<noteq> None then None else case fetch_page_guard P pid s of (g, s') \<Rightarrow> Some (\<sigma>(v \<mapsto> g), s'))"
| "guard_step P (NewGuard v pid) (\<sigma>, s) =
     (if \<sigma> v \<noteq> None then None else case new_page_guard P pid s of (g, _, s') \<Rightarrow> Some (\<sigma>(v \<mapsto> g), s'))"
| "guard_step P (MoveInit v w) (\<sigma>, s) =
     (if \<sigma> v \<noteq> None then None
      else case \<sigma> w of None \<Rightarrow> None | Some h \<Rightarrow> (case move_guard h of (g, rest) \<Rightarrow> Some (\<sigma>(v \<mapsto> g, w \<mapsto> rest), s)))"
| "guard_step P (MoveAssign v w) (\<sigma>, s) = guard_assign P v w \<sigma> s"
| "guard_step P (MarkDirty v) (\<sigma>, s) = map_option (\<lambda>g. (\<sigma>(v \<mapsto> mark_dirty g), s)) (\<sigma> v)"
| "guard_step P (DropGuard v) (\<sigma>, s) =
     map_option (\<lambda>g. case drop_guard P g s of (_, g', s') \<Rightarrow> (\<sigma>(v \<mapsto> g'), s')) (\<sigma> v)"
| "guard_step P (DestroyGuard v) (\<sigma>, s) =
     map_option (\<lambda>g. case drop_guard P g s of (_, _, s') \<Rightarrow> (\<sigma>(v := None), s')) (\<sigma> v)"

fun guard_run :: "pool_ops \<Rightarrow> guard_op list \<Rightarrow> guard_store \<times> BufferPool \<Rightarrow> (guard_store \<times> BufferPool) option" where
  "guard_run P [] c = Some c"
| "guard_run P (x # xs) c = (case guard_step P x c of None \<Rightarrow> None | Some c' \<Rightarrow> guard_run P xs c')"

section \<open>Pins\<close>

definition pins :: "BufferPool \<Rightarrow> PageId \<Rightarrow> int" where
  "pins s pid = (case get_pin_snapshot s pid of None \<Rightarrow> 0 | Some n \<Rightarrow> n)"

text \<open>What the comments of \<^verbatim>\<open>buffer_pool_manager.cpp\<close> promise, seen through the snapshot of pins and the page table.\<close>

definition pool_laws :: "pool_ops \<Rightarrow> bool" where
  "pool_laws P \<longleftrightarrow>
     (\<forall>pid s s'. fetch_page_op P pid s = (None, s') \<longrightarrow> pins s' = pins s) \<and>
     (\<forall>pid s f s'. fetch_page_op P pid s = (Some f, s') \<longrightarrow>
        pg_id (pages s' ! f) = pid \<and> pins s' = (pins s)(pid := pins s pid + 1)) \<and>
     (\<forall>pid s q s'. new_page_op P pid s = ((None, q), s') \<longrightarrow> pins s' = pins s) \<and>
     (\<forall>pid s f q s'. new_page_op P pid s = ((Some f, q), s') \<longrightarrow>
        pg_id (pages s' ! f) = q \<and> pins s' = (pins s)(q := pins s q + 1)) \<and>
     (\<forall>pid d s. fst (unpin_page_op P pid d s) = (pins s pid > 0) \<and>
        pins (snd (unpin_page_op P pid d s)) = (if pins s pid > 0 then (pins s)(pid := pins s pid - 1) else pins s)) \<and>
     (\<forall>pid s. pins (snd (delete_page_op P pid s)) = pins s \<and>
        page_table (snd (delete_page_op P pid s)) =
          (if pins s pid > 0 then page_table s else filter (\<lambda>e. fst e \<noteq> pid) (page_table s))) \<and>
     (\<forall>fd s. pins (flush_all_op P fd s) = pins s \<and> page_table (flush_all_op P fd s) = page_table s)"

lemma pool_lawsD:
  assumes "pool_laws P"
  shows "fetch_page_op P pid s = (None, s') \<Longrightarrow> pins s' = pins s"
    and "fetch_page_op P pid s = (Some f, s') \<Longrightarrow> pg_id (pages s' ! f) = pid \<and> pins s' = (pins s)(pid := pins s pid + 1)"
    and "new_page_op P pid s = ((None, q), s') \<Longrightarrow> pins s' = pins s"
    and "new_page_op P pid s = ((Some f, q), s') \<Longrightarrow> pg_id (pages s' ! f) = q \<and> pins s' = (pins s)(q := pins s q + 1)"
    and "pins s pid > 0 \<Longrightarrow> unpin_page_op P pid d s = (b, s') \<Longrightarrow> b \<and> pins s' = (pins s)(pid := pins s pid - 1)"
    and "pins (snd (delete_page_op P pid s)) = pins s"
    and "page_table (snd (delete_page_op P pid s)) =
      (if pins s pid > 0 then page_table s else filter (\<lambda>e. fst e \<noteq> pid) (page_table s))"
    and "pins (flush_all_op P fd s) = pins s" "page_table (flush_all_op P fd s) = page_table s"
proof -
  note L1 = assms [unfolded pool_laws_def]
  note L2 = L1 [THEN conjunct2]
  note L3 = L2 [THEN conjunct2]
  note L4 = L3 [THEN conjunct2]
  note L5 = L4 [THEN conjunct2]
  note L6 = L5 [THEN conjunct2]
  note L7 = L6 [THEN conjunct2]
  show "fetch_page_op P pid s = (None, s') \<Longrightarrow> pins s' = pins s" using L1 [THEN conjunct1] by simp
  show "fetch_page_op P pid s = (Some f, s') \<Longrightarrow> pg_id (pages s' ! f) = pid \<and> pins s' = (pins s)(pid := pins s pid + 1)"
    using L2 [THEN conjunct1] by simp
  show "new_page_op P pid s = ((None, q), s') \<Longrightarrow> pins s' = pins s" using L3 [THEN conjunct1] by simp
  show "new_page_op P pid s = ((Some f, q), s') \<Longrightarrow> pg_id (pages s' ! f) = q \<and> pins s' = (pins s)(q := pins s q + 1)"
    using L4 [THEN conjunct1] by simp
  show "pins s pid > 0 \<Longrightarrow> unpin_page_op P pid d s = (b, s') \<Longrightarrow> b \<and> pins s' = (pins s)(pid := pins s pid - 1)"
    using L5 [THEN conjunct1, rule_format, of pid d s] by simp
  show "pins (snd (delete_page_op P pid s)) = pins s"
    "page_table (snd (delete_page_op P pid s)) =
      (if pins s pid > 0 then page_table s else filter (\<lambda>e. fst e \<noteq> pid) (page_table s))"
    using L6 [THEN conjunct1, rule_format, of pid s] by simp_all
  show "pins (flush_all_op P fd s) = pins s" "page_table (flush_all_op P fd s) = page_table s" using L7 by simp_all
qed

text \<open>The pins owned by the guards that exist.\<close>

definition held :: "guard_store \<Rightarrow> PageId \<Rightarrow> nat set" where
  "held \<sigma> pid = {v. \<exists>g. \<sigma> v = Some g \<and> guard_valid g \<and> g_id g = pid}"

text \<open>A guard with a page belongs to the pool; the pool's pins are those of the start and one for each guard.\<close>

definition balanced :: "BufferPool \<Rightarrow> guard_store \<times> BufferPool \<Rightarrow> bool" where
  "balanced s0 c \<longleftrightarrow>
     finite (dom (fst c)) \<and> (\<forall>g\<in>ran (fst c). guard_valid g \<longrightarrow> g_pool g) \<and>
     (\<forall>pid. pins (snd c) pid = pins s0 pid + int (card (held (fst c) pid)))"


lemma held_upd:
  "held (\<sigma>(v \<mapsto> g)) pid = (if guard_valid g \<and> g_id g = pid then insert v (held \<sigma> pid) else held \<sigma> pid - {v})"
  by (auto simp: held_def)

lemma held_del: "held (\<sigma>(v := None)) pid = held \<sigma> pid - {v}"
  by (auto simp: held_def)

lemma held_mem: "v \<in> held \<sigma> pid \<longleftrightarrow> (\<exists>g. \<sigma> v = Some g \<and> guard_valid g \<and> g_id g = pid)"
  by (simp add: held_def)

lemma held_finite: "finite (dom \<sigma>) \<Longrightarrow> finite (held \<sigma> pid)"
  by (rule finite_subset [of _ "dom \<sigma>"]) (auto simp: held_def)

lemma not_valid_empty [simp]: "\<not> guard_valid PageGuard_empty"
  by (simp add: guard_valid_def PageGuard_empty_def)

lemma ran_upd_all: "(\<forall>g\<in>ran \<sigma>. Q g) \<Longrightarrow> Q g \<Longrightarrow> \<forall>g\<in>ran (\<sigma>(v \<mapsto> g)). Q g"
  by (auto simp: ran_def)

text \<open>Binding a guard to a variable that owns nothing, while the pool counts the new pin.\<close>

lemma balanced_bind:
  assumes "balanced s0 (\<sigma>, s)" "\<forall>g. \<sigma> v = Some g \<longrightarrow> \<not> guard_valid g" "guard_valid g \<longrightarrow> g_pool g"
    and "pins s' = (if guard_valid g then (pins s)(g_id g := pins s (g_id g) + 1) else pins s)"
  shows "balanced s0 (\<sigma>(v \<mapsto> g), s')"
proof -
  have fin: "finite (held \<sigma> pid)" for pid using assms(1) held_finite by (auto simp: balanced_def)
  have nm: "v \<notin> held \<sigma> pid" for pid using assms(2) by (auto simp: held_mem)
  have "pins s' pid = pins s0 pid + int (card (held (\<sigma>(v \<mapsto> g)) pid))" for pid
    using assms(1,4) fin [of pid] nm [of pid] by (cases "guard_valid g \<and> g_id g = pid") (auto simp: balanced_def held_upd)
  then show ?thesis using assms(1,3) by (auto simp: balanced_def ran_def)
qed

text \<open>Releasing a variable's pin: the pool answers with success, and the variable owns nothing afterwards.\<close>

lemma balanced_drop:
  assumes laws: "pool_laws P" and b: "balanced s0 (\<sigma>, s)" "\<sigma> v = Some g" and nn: "\<forall>pid. 0 \<le> pins s0 pid"
    and d: "drop_guard P g s = (ok, g', s')"
  shows "balanced s0 (\<sigma>(v \<mapsto> g'), s')" "balanced s0 (\<sigma>(v := None), s')" "\<not> guard_valid g'" "ok"
proof -
  have fin: "finite (held \<sigma> pid)" for pid using b(1) held_finite by (auto simp: balanced_def)
  have "balanced s0 (\<sigma>(v \<mapsto> g'), s') \<and> balanced s0 (\<sigma>(v := None), s') \<and> \<not> guard_valid g' \<and> ok"
  proof (cases "guard_valid g")
    case False
    then have e: "g' = g" "s' = s" "ok" using d by (auto simp: drop_guard_def guard_valid_def)
    have "\<sigma>(v \<mapsto> g) = \<sigma>" using b(2) by (simp add: fun_upd_idem)
    moreover have "held (\<sigma>(v := None)) pid = held \<sigma> pid" for pid using False b(2) by (auto simp: held_def)
    ultimately show ?thesis using b(1) False by (auto simp: e balanced_def ran_def)
  next
    case True
    have mem: "v \<in> held \<sigma> (g_id g)" using True b(2) by (simp add: held_mem)
    have nmem: "v \<notin> held \<sigma> pid" if "pid \<noteq> g_id g" for pid using that b(2) by (simp add: held_mem)
    have p: "pins s pid = pins s0 pid + int (card (held \<sigma> pid))" for pid using b(1) by (simp add: balanced_def)
    have "0 < card (held \<sigma> (g_id g))" using mem fin card_gt_0_iff by blast
    then have pos: "0 < pins s (g_id g)" using p [of "g_id g"] nn [rule_format, of "g_id g"] by linarith
    have pool: "g_pool g" using b True by (auto simp: balanced_def ran_def)
    obtain s1 where u: "unpin_page_op P (g_id g) (g_dirty g) s = (ok, s1)" "s' = s1" "g' = PageGuard_empty"
      using d True pool by (auto simp: drop_guard_def guard_valid_def split: prod.splits)
    have ps: "ok" "pins s' = (pins s)(g_id g := pins s (g_id g) - 1)" using pool_lawsD(5) [OF laws pos u(1)] u(2) by auto
    have q: "pins s' pid = pins s0 pid + int (card (held \<sigma> pid - {v}))" for pid
    proof (cases "pid = g_id g")
      case True
      then show ?thesis using mem fin [of pid] p [of pid] \<open>0 < card _\<close> by (simp add: ps(2) card_Diff_singleton of_nat_diff)
    qed (use nmem p ps(2) in simp)
    then show ?thesis using b(1) ps(1) by (auto simp: balanced_def held_upd held_del u(3) ran_def)
  qed
  then show "balanced s0 (\<sigma>(v \<mapsto> g'), s')" "balanced s0 (\<sigma>(v := None), s')" "\<not> guard_valid g'" "ok" by auto
qed

lemma drop_guard_empty: "drop_guard P g s = (ok, g', s') \<Longrightarrow> guard_valid g \<Longrightarrow> g' = PageGuard_empty"
  by (auto simp: drop_guard_def guard_valid_def split: if_splits prod.splits)

text \<open>Moving a guard between two variables.\<close>

lemma balanced_move:
  assumes "balanced s0 (\<sigma>, s)" "\<sigma> w = Some h" "\<forall>g. \<sigma> v = Some g \<longrightarrow> \<not> guard_valid g" "v \<noteq> w"
  shows "balanced s0 (\<sigma>(v \<mapsto> h, w \<mapsto> PageGuard_empty), s)"
proof -
  have fin: "finite (held \<sigma> pid)" for pid using assms(1) held_finite by (auto simp: balanced_def)
  have nm: "v \<notin> held \<sigma> pid" for pid using assms(3) by (auto simp: held_mem)
  have wm: "w \<in> held \<sigma> pid \<longleftrightarrow> guard_valid h \<and> g_id h = pid" for pid using assms(2) by (auto simp: held_mem)
  have "card (held (\<sigma>(v \<mapsto> h, w \<mapsto> PageGuard_empty)) pid) = card (held \<sigma> pid)" for pid
  proof (cases "guard_valid h \<and> g_id h = pid")
    case True
    then have "held (\<sigma>(v \<mapsto> h, w \<mapsto> PageGuard_empty)) pid = insert v (held \<sigma> pid - {w})" using assms(4) by (auto simp: held_upd)
    moreover have "v \<notin> held \<sigma> pid - {w}" using nm by blast
    moreover have "0 < card (held \<sigma> pid)" using True wm fin card_gt_0_iff by blast
    ultimately show ?thesis using True wm [of pid] fin [of pid] by (simp add: card_Diff_singleton)
  next
    case False
    then have "held (\<sigma>(v \<mapsto> h, w \<mapsto> PageGuard_empty)) pid = held \<sigma> pid" using nm [of pid] wm [of pid] by (auto simp: held_upd)
    then show ?thesis by simp
  qed
  moreover have "guard_valid h \<longrightarrow> g_pool h" using assms(1,2) by (auto simp: balanced_def ran_def)
  ultimately show ?thesis using assms(1) by (auto simp: balanced_def ran_def)
qed


lemma fetch_guard_pins:
  assumes "pool_laws P" "fetch_page_guard P pid s = (g, s')"
  shows "guard_valid g \<longrightarrow> g_pool g" "pins s' = (if guard_valid g then (pins s)(g_id g := pins s (g_id g) + 1) else pins s)"
  using assms(2) pool_lawsD(1,2) [OF assms(1)]
  by (auto simp: fetch_page_guard_def guard_valid_def PageGuard_empty_def split: prod.splits option.splits)

lemma new_guard_pins:
  assumes "pool_laws P" "new_page_guard P pid s = (g, q, s')"
  shows "guard_valid g \<longrightarrow> g_pool g" "pins s' = (if guard_valid g then (pins s)(g_id g := pins s (g_id g) + 1) else pins s)"
  using assms(2) pool_lawsD(3,4) [OF assms(1)]
  by (auto simp: new_page_guard_def guard_valid_def PageGuard_empty_def split: prod.splits option.splits)

lemma balanced_mark: "balanced s0 (\<sigma>, s) \<Longrightarrow> \<sigma> v = Some g \<Longrightarrow> balanced s0 (\<sigma>(v \<mapsto> mark_dirty g), s)"
proof -
  assume b: "balanced s0 (\<sigma>, s)" "\<sigma> v = Some g"
  have "held (\<sigma>(v \<mapsto> mark_dirty g)) pid = held \<sigma> pid" for pid
    using b(2) by (auto simp: held_def mark_dirty_def guard_valid_def)
  moreover have "guard_valid g \<longrightarrow> g_pool g" using b by (auto simp: balanced_def ran_def)
  ultimately show ?thesis using b(1) by (auto simp: balanced_def ran_def mark_dirty_def guard_valid_def)
qed

lemma balanced_step:
  assumes laws: "pool_laws P" and nn: "\<forall>pid. 0 \<le> pins s0 pid" and b: "balanced s0 (\<sigma>, s)"
    and st: "guard_step P x (\<sigma>, s) = Some (\<sigma>', s')"
  shows "balanced s0 (\<sigma>', s')"
proof (cases x)
  case (FetchGuard v pid)
  obtain g s1 where f: "fetch_page_guard P pid s = (g, s1)" by fastforce
  then have "\<sigma>' = \<sigma>(v \<mapsto> g)" "s' = s1" "\<sigma> v = None" using st FetchGuard by (auto split: if_splits)
  then show ?thesis using balanced_bind [OF b _ fetch_guard_pins [OF laws f], of v] by simp
next
  case (NewGuard v pid)
  obtain g q s1 where f: "new_page_guard P pid s = (g, q, s1)" by (cases "new_page_guard P pid s") auto
  then have "\<sigma>' = \<sigma>(v \<mapsto> g)" "s' = s1" "\<sigma> v = None" using st NewGuard by (auto split: if_splits)
  then show ?thesis using balanced_bind [OF b _ new_guard_pins [OF laws f], of v] by simp
next
  case (MoveInit v w)
  then obtain h where "\<sigma> v = None" "\<sigma> w = Some h" "\<sigma>' = \<sigma>(v \<mapsto> h, w \<mapsto> PageGuard_empty)" "s' = s"
    using st by (auto simp: move_guard_def split: if_splits option.splits)
  moreover from this have "v \<noteq> w" by auto
  ultimately show ?thesis using balanced_move [OF b, of w h v] by simp
next
  case (MoveAssign v w)
  then obtain g h where g: "\<sigma> v = Some g" "\<sigma> w = Some h" using st by (auto simp: guard_assign_def split: option.splits)
  show ?thesis
  proof (cases "v = w")
    case True
    then show ?thesis using st MoveAssign g b by (simp add: guard_assign_def)
  next
    case False
    obtain ok g' s1 where d: "drop_guard P g s = (ok, g', s1)" by (cases "drop_guard P g s") auto
    then have e: "\<sigma>' = \<sigma>(v \<mapsto> h, w \<mapsto> PageGuard_empty)" "s' = s1" using st MoveAssign g False by (auto simp: guard_assign_def)
    have b1: "balanced s0 (\<sigma>(v \<mapsto> g'), s1)" "\<not> guard_valid g'" using balanced_drop [OF laws b g(1) nn d] by auto
    show ?thesis using balanced_move [OF b1(1), of w h v] b1(2) g False e by simp
  qed
next
  case (MarkDirty v)
  then show ?thesis using st balanced_mark [OF b] by auto
next
  case (DropGuard v)
  then obtain g ok g' s1 where g: "\<sigma> v = Some g" "drop_guard P g s = (ok, g', s1)" "\<sigma>' = \<sigma>(v \<mapsto> g')" "s' = s1"
    using st by (cases "drop_guard P (the (\<sigma> v)) s") auto
  then show ?thesis using balanced_drop(1) [OF laws b g(1) nn g(2)] by simp
next
  case (DestroyGuard v)
  then obtain g ok g' s1 where g: "\<sigma> v = Some g" "drop_guard P g s = (ok, g', s1)" "\<sigma>' = \<sigma>(v := None)" "s' = s1"
    using st by (cases "drop_guard P (the (\<sigma> v)) s") auto
  then show ?thesis using balanced_drop(2) [OF laws b g(1) nn g(2)] by simp
qed

lemma balanced_run:
  assumes "pool_laws P" "\<forall>pid. 0 \<le> pins s0 pid"
  shows "balanced s0 c \<Longrightarrow> guard_run P xs c = Some c' \<Longrightarrow> balanced s0 c'"
proof (induction xs arbitrary: c)
  case (Cons x xs)
  then obtain c1 where "guard_step P x c = Some c1" "guard_run P xs c1 = Some c'" by (auto split: option.splits)
  with Cons show ?case using balanced_step [OF assms] by (metis surj_pair)
qed simp

definition pin_weight :: "PageId \<Rightarrow> Page \<Rightarrow> int" where
  "pin_weight pid p = (if pg_id p = pid \<and> pin_count p > 0 then pin_count p else 0)"

lemma snapshot_loop_sum:
  "(case snapshot_loop ps m pid of None \<Rightarrow> 0 | Some n \<Rightarrow> n) =
     (case m pid of None \<Rightarrow> 0 | Some n \<Rightarrow> n) + sum_list (map (pin_weight pid) ps)"
  by (induction ps arbitrary: m) (auto simp: pin_weight_def)

lemma pins_sum: "pins s pid = sum_list (map (pin_weight pid) (pages s))"
  by (simp add: pins_def get_pin_snapshot_def snapshot_loop_sum)

lemma pins_nonneg: "0 \<le> pins s pid"
  unfolding pins_sum by (rule sum_list_nonneg) (auto simp: pin_weight_def)

lemma discard_loop:
  assumes "pool_laws P"
  shows "pins (fold (\<lambda>page_id s. snd (delete_page_op P page_id s)) ids s) = pins s \<and>
    page_table (fold (\<lambda>page_id s. snd (delete_page_op P page_id s)) ids s) =
      filter (\<lambda>e. fst e \<in> set ids \<longrightarrow> pins s (fst e) > 0) (page_table s)"
proof (induction ids arbitrary: s)
  case (Cons i ids)
  let ?s = "snd (delete_page_op P i s)"
  have "pins ?s = pins s" "page_table ?s = (if pins s i > 0 then page_table s else filter (\<lambda>e. fst e \<noteq> i) (page_table s))"
    using pool_lawsD(6,7) [OF assms] by auto
  with Cons.IH [of ?s] show ?case by (auto intro!: filter_cong)
qed simp

lemma discard_table:
  assumes "pool_laws P"
  shows "page_table (discard_file_pages P fd s) = filter (\<lambda>e. pid_fd (fst e) = fd \<longrightarrow> pins s (fst e) > 0) (page_table s)"
    "pins (discard_file_pages P fd s) = pins s"
  using discard_loop [OF assms] pool_lawsD(8,9) [OF assms]
  by (auto simp: discard_file_pages_def Let_def intro!: filter_cong)

section \<open>A pool in memory\<close>

text \<open>A concrete pool with the documented behaviour: resident pages are pinned in place, a free frame takes a new page.\<close>

definition frame_where :: "(Page \<Rightarrow> bool) \<Rightarrow> BufferPool \<Rightarrow> nat option" where
  "frame_where Q s = List.find (\<lambda>i. Q (pages s ! i)) [0..<length (pages s)]"

definition set_frame :: "nat \<Rightarrow> Page \<Rightarrow> BufferPool \<Rightarrow> BufferPool" where
  "set_frame i p s = s\<lparr>pages := (pages s)[i := p]\<rparr>"

definition mem_pool :: pool_ops where
  "mem_pool = \<lparr>
     fetch_page_op = (\<lambda>pid s. case frame_where (\<lambda>p. pg_id p = pid \<and> pin_count p \<ge> 0) s of
         None \<Rightarrow> (None, s)
       | Some i \<Rightarrow> (Some i, set_frame i ((pages s ! i)\<lparr>pin_count := pin_count (pages s ! i) + 1\<rparr>) s)),
     new_page_op = (\<lambda>pid s. case frame_where (\<lambda>p. pin_count p = 0) s of
         None \<Rightarrow> ((None, pid), s)
       | Some i \<Rightarrow> ((Some i, pid\<lparr>pid_no := int (length (page_table s))\<rparr>),
           (set_frame i \<lparr>pg_id = pid\<lparr>pid_no := int (length (page_table s))\<rparr>, pg_data = [], pg_dirty = False, pin_count = 1\<rparr> s)
             \<lparr>page_table := (pid\<lparr>pid_no := int (length (page_table s))\<rparr>, i) # page_table s\<rparr>)),
     unpin_page_op = (\<lambda>pid d s. case frame_where (\<lambda>p. pg_id p = pid \<and> pin_count p > 0) s of
         None \<Rightarrow> (False, s)
       | Some i \<Rightarrow> (True, set_frame i ((pages s ! i)\<lparr>pin_count := pin_count (pages s ! i) - 1,
           pg_dirty := pg_dirty (pages s ! i) \<or> d\<rparr>) s)),
     delete_page_op = (\<lambda>pid s. if (\<exists>p\<in>set (pages s). pg_id p = pid \<and> pin_count p > 0) then (False, s)
       else (True, s\<lparr>page_table := filter (\<lambda>e. fst e \<noteq> pid) (page_table s)\<rparr>)),
     flush_all_op = (\<lambda>fd s. s)\<rparr>"

lemma frame_where_Some: "frame_where Q s = Some i \<Longrightarrow> i < length (pages s) \<and> Q (pages s ! i)"
  by (auto simp: frame_where_def find_Some_iff)

lemma frame_where_None: "frame_where Q s = None \<longleftrightarrow> (\<forall>p\<in>set (pages s). \<not> Q p)"
  by (auto simp: frame_where_def find_None_iff all_set_conv_all_nth)

lemma sum_list_upd: "i < length xs \<Longrightarrow> sum_list (xs[i := x]) = sum_list xs + x - (xs ! i :: int)"
  by (induction xs arbitrary: i) (auto split: nat.splits)

lemma pins_set_frame:
  "i < length (pages s) \<Longrightarrow> pins (set_frame i p s) pid = pins s pid + pin_weight pid p - pin_weight pid (pages s ! i)"
  by (simp add: pins_sum set_frame_def map_update sum_list_upd)

lemma pins_pos: "0 < pins s pid \<longleftrightarrow> (\<exists>p\<in>set (pages s). pg_id p = pid \<and> pin_count p > 0)"
proof -
  have w: "0 \<le> pin_weight pid p" "0 < pin_weight pid p \<longleftrightarrow> pg_id p = pid \<and> pin_count p > 0" for p
    by (simp_all add: pin_weight_def)
  have "0 < sum_list (map (pin_weight pid) ps) \<longleftrightarrow> (\<exists>p\<in>set ps. pg_id p = pid \<and> pin_count p > 0)" for ps
  proof (induction ps)
    case (Cons p ps)
    have "0 \<le> sum_list (map (pin_weight pid) ps)" by (rule sum_list_nonneg) (auto simp: pin_weight_def)
    with w(1) [of p] have "0 < sum_list (map (pin_weight pid) (p # ps)) \<longleftrightarrow>
        0 < pin_weight pid p \<or> 0 < sum_list (map (pin_weight pid) ps)" by auto
    then show ?case using Cons w(2) [of p] by simp
  qed simp
  then show ?thesis by (simp add: pins_sum)
qed


lemma set_frame_weight:
  assumes "frame_where Q s = Some i"
    and "\<And>pid. pin_weight pid p - pin_weight pid (pages s ! i) = (if pid = q then k else 0)"
  shows "pins (set_frame i p s) = (pins s)(q := pins s q + k)"
proof
  fix pid
  have "pins (set_frame i p s) pid = pins s pid + (pin_weight pid p - pin_weight pid (pages s ! i))"
    using frame_where_Some [OF assms(1)] by (simp add: pins_set_frame)
  then show "pins (set_frame i p s) pid = ((pins s)(q := pins s q + k)) pid" using assms(2) by simp
qed

lemma pages_set_frame: "frame_where Q s = Some i \<Longrightarrow> pages (set_frame i p s) ! i = p"
  using frame_where_Some [of Q s i] by (simp add: set_frame_def)

lemma pins_table [simp]: "pins (s\<lparr>page_table := t\<rparr>) = pins s"
  by (rule ext) (simp add: pins_sum)

lemma mem_pool_laws: "pool_laws mem_pool"
  unfolding pool_laws_def
proof (intro conjI allI impI)
  fix pid s s' f assume a: "fetch_page_op mem_pool pid s = (Some f, s')"
  then obtain w: "frame_where (\<lambda>p. pg_id p = pid \<and> pin_count p \<ge> 0) s = Some f"
    and s': "s' = set_frame f ((pages s ! f)\<lparr>pin_count := pin_count (pages s ! f) + 1\<rparr>) s"
    by (auto simp: mem_pool_def split: option.splits)
  show "pg_id (pages s' ! f) = pid" using frame_where_Some [OF w] pages_set_frame [OF w] by (simp add: s')
  show "pins s' = (pins s)(pid := pins s pid + 1)"
    unfolding s' by (rule set_frame_weight [OF w]) (use frame_where_Some [OF w] in \<open>auto simp: pin_weight_def\<close>)
next
  fix pid s q s' f assume a: "new_page_op mem_pool pid s = ((Some f, q), s')"
  let ?p = "\<lparr>pg_id = q, pg_data = [], pg_dirty = False, pin_count = 1\<rparr>"
  from a obtain w: "frame_where (\<lambda>p. pin_count p = 0) s = Some f"
    and s': "s' = (set_frame f ?p s)\<lparr>page_table := (q, f) # page_table s\<rparr>"
    by (auto simp: mem_pool_def split: option.splits)
  show "pg_id (pages s' ! f) = q" using pages_set_frame [OF w] by (simp add: s')
  have "pins (set_frame f ?p s) = (pins s)(q := pins s q + 1)"
    by (rule set_frame_weight [OF w]) (use frame_where_Some [OF w] in \<open>auto simp: pin_weight_def\<close>)
  then show "pins s' = (pins s)(q := pins s q + 1)" by (simp add: s')
next
  fix pid d s
  show "fst (unpin_page_op mem_pool pid d s) = (pins s pid > 0)"
  proof (cases "frame_where (\<lambda>p. pg_id p = pid \<and> pin_count p > 0) s")
    case None
    then have "\<not> 0 < pins s pid" by (auto simp: frame_where_None pins_pos)
    with None show ?thesis by (simp add: mem_pool_def)
  next
    case (Some i)
    have "pages s ! i \<in> set (pages s)" using frame_where_Some [OF Some] by simp
    then show ?thesis using frame_where_Some [OF Some] by (auto simp: mem_pool_def pins_pos Some)
  qed
  show "pins (snd (unpin_page_op mem_pool pid d s)) = (if pins s pid > 0 then (pins s)(pid := pins s pid - 1) else pins s)"
  proof (cases "frame_where (\<lambda>p. pg_id p = pid \<and> pin_count p > 0) s")
    case None
    then have "\<not> 0 < pins s pid" by (auto simp: frame_where_None pins_pos)
    with None show ?thesis by (simp add: mem_pool_def)
  next
    case (Some i)
    have "pages s ! i \<in> set (pages s)" using frame_where_Some [OF Some] by simp
    then have "0 < pins s pid" using frame_where_Some [OF Some] by (auto simp: pins_pos)
    moreover have "pins (set_frame i ((pages s ! i)\<lparr>pin_count := pin_count (pages s ! i) - 1, pg_dirty := pg_dirty (pages s ! i) \<or> d\<rparr>) s) =
        (pins s)(pid := pins s pid + - 1)"
      by (rule set_frame_weight [OF Some]) (use frame_where_Some [OF Some] in \<open>auto simp: pin_weight_def\<close>)
    ultimately show ?thesis by (simp add: mem_pool_def Some)
  qed
qed (auto simp: mem_pool_def pins_pos split: option.splits)

section \<open>Properties\<close>

text \<open>
  C6 (guards balance pins). Over a pool with the documented behaviour, after any sequence of guard operations the pin
  snapshot counts for every page the pins of the start and one for each guard that holds the page, whether guards were
  fetched, created, moved, assigned over, dropped twice or destroyed; so when no guard is left the snapshot is the one
  of the start. Dropping a guard that exists always succeeds, and discarding a file's pages leaves those of its pages in
  the table that are pinned, and no others.
\<close>

theorem guards_balance_pins:
  assumes "pool_laws P" "guard_run P xs (Map.empty, s0) = Some (\<sigma>, s)"
  shows "(\<forall>pid. pins s pid = pins s0 pid + int (card (held \<sigma> pid))) \<and>
    (\<sigma> = Map.empty \<longrightarrow> pins s = pins s0) \<and>
    (\<forall>v g. \<sigma> v = Some g \<longrightarrow> fst (drop_guard P g s)) \<and>
    page_table (discard_file_pages P fd s) = filter (\<lambda>e. pid_fd (fst e) = fd \<longrightarrow> pins s (fst e) > 0) (page_table s)"
proof -
  have nn: "\<forall>pid. 0 \<le> pins s0 pid" by (simp add: pins_nonneg)
  have "balanced s0 (Map.empty, s0)" by (simp add: balanced_def held_def)
  from balanced_run [OF assms(1) nn this assms(2)] have b: "balanced s0 (\<sigma>, s)" .
  then have p: "pins s pid = pins s0 pid + int (card (held \<sigma> pid))" for pid by (simp add: balanced_def)
  moreover have "pins s = pins s0" if "\<sigma> = Map.empty"
  proof
    fix pid show "pins s pid = pins s0 pid" using p [of pid] that by (simp add: held_def)
  qed
  moreover have "fst (drop_guard P g s)" if "\<sigma> v = Some g" for v g
    using balanced_drop(4) [OF assms(1) b that nn] by (metis fst_conv surj_pair)
  ultimately show ?thesis using discard_table(1) [OF assms(1)] by blast
qed

definition sample_pool :: BufferPool where
  "sample_pool = \<lparr>pages = [\<lparr>pg_id = \<lparr>pid_fd = 3, pid_no = 1\<rparr>, pg_data = [], pg_dirty = False, pin_count = 0\<rparr>,
     \<lparr>pg_id = PageId_default, pg_data = [], pg_dirty = False, pin_count = 0\<rparr>],
     page_table = [(\<lparr>pid_fd = 3, pid_no = 1\<rparr>, 0)]\<rparr>"

definition sample_guard_ops :: "guard_op list" where
  "sample_guard_ops = [FetchGuard 0 \<lparr>pid_fd = 3, pid_no = 1\<rparr>, NewGuard 1 \<lparr>pid_fd = 4, pid_no = 0\<rparr>, MarkDirty 0, MoveInit 2 0,
     MoveAssign 1 2, DropGuard 0, DestroyGuard 0, DestroyGuard 1, DestroyGuard 2]"

theorem guards_balance_pins_witness:
  "\<exists>s. guard_run mem_pool sample_guard_ops (Map.empty, sample_pool) = Some (Map.empty, s) \<and> pins s = pins sample_pool"
proof -
  have "\<exists>s. guard_run mem_pool sample_guard_ops (Map.empty, sample_pool) = Some (Map.empty, s)"
    by (simp add: sample_guard_ops_def sample_pool_def mem_pool_def fetch_page_guard_def new_page_guard_def frame_where_def
        set_frame_def mark_dirty_def move_guard_def guard_assign_def drop_guard_def PageGuard_empty_def PageId_default_def
        INVALID_PAGE_ID_def upt_rec fun_upd_def) (simp add: fun_eq_iff)
  then show ?thesis using guards_balance_pins [OF mem_pool_laws] by blast
qed

end
