(* ===== verification/Sql_Ast.thy ===== *)
theory Sql_Ast
  imports Common
begin

text \<open>
  The abstract syntax of \<^verbatim>\<open>src/src/parser/expression.h\<close> and \<^verbatim>\<open>ast.h\<close>. A node class is a constructor whose arguments are
  the fields in declaration order; the kind tags are the constructors themselves. Every \<^verbatim>\<open>std::shared_ptr\<close> to a node may
  be null, which is \<open>None\<close>.
\<close>

section \<open>Expressions\<close>

datatype ast_CompOp = Eq | Ne | Lt | Gt | Le | Ge

datatype LogicalOp = And | Or

datatype UnaryOp = NotOp

datatype ast_Col = Col (ast_tab_name: string) (ast_col_name: string)

datatype OrderByDir = Default | Asc | Desc

datatype JoinType = Cross | Inner | Left | Right | Full

record LimitClause =
  lim_count :: "64 word"
  lim_offset :: "64 word option"

datatype expr =
    IntLit i32
  | FloatLit f32
  | StringLit string
  | ColExpr ast_Col
  | StarExpr string
  | BinaryExpr "ast_Col option" ast_CompOp "expr option"
  | LogicalExpr LogicalOp "expr option" "expr option"
  | UnaryExpr UnaryOp "expr option"
  | FunctionCallExpr string "expr option list" bool
  | SubqueryExpr "select_stmt option"
and from_node =
    TableRef "string + select_stmt option" string
  | JoinNode JoinType "from_node option" "from_node option" "expr option"
and order_by =
    OrderBy "expr option" OrderByDir
and select_stmt =
    SelectStmt
      (select_items: "expr option list")
      (from_clause: "from_node option")
      (where_clause: "expr option")
      (group_by: "expr option list")
      (having: "expr option")
      (order_items: "order_by option list")
      (limit: "LimitClause option")

fun is_literal :: "expr \<Rightarrow> bool" where
  "is_literal (IntLit v) = True"
| "is_literal (FloatLit v) = True"
| "is_literal (StringLit s) = True"
| "is_literal _ = False"

section \<open>Statements\<close>

datatype DataType = DInt | DFloat | DString

record TypeLen =
  tl_type :: DataType
  declared_len :: int

record ast_ColDef =
  cd_name :: string
  type_len :: TypeLen

datatype ast_SetClause = AstSetClause (target_column: "ast_Col option") (assigned_expr: "expr option")

datatype stmt =
    HelpStmt
  | ShowTablesStmt
  | ShowDatabaseStmt
  | SetKnobStmt string string
  | TxnBeginStmt
  | TxnCommitStmt
  | TxnAbortStmt
  | TxnRollbackStmt
  | CreateTableStmt string "ast_ColDef list"
  | DropTableStmt string
  | DescTableStmt string
  | CreateIndexStmt string "string list" bool
  | DropIndexStmt string "string list"
  | InsertStmt string "expr option list"
  | DeleteStmt string "expr option"
  | UpdateStmt string "ast_SetClause option list" "expr option"
  | Select select_stmt

end
