(* ===== verification/Sql_Lexer.thy ===== *)
theory Sql_Lexer
  imports Sql_Ast
begin

text \<open>
  The scanner of \<^verbatim>\<open>src/src/parser/lex.l\<close> and the literal conversions of \<^verbatim>\<open>parser.cpp\<close>. A Flex rule is a value of
  \<open>lex_rule\<close>: \<open>rule_match\<close> gives the length of the longest text its pattern matches at the front of the input (0 when it
  does not match) and \<open>rule_action\<close> what its action does. \<open>best_rule\<close> is Flex's choice, the longest match and among equal
  lengths the first rule, and \<open>yylex\<close> the scanning loop with the location updates of \<^verbatim>\<open>YY_USER_ACTION\<close>. The lemmas
  determine the chosen rule for every first character and show that a spelled out token sequence is scanned back.
\<close>

section \<open>Tokens\<close>

datatype token =
    SHOW | DATABASE | TABLES | CREATE | TABLE | DROP | DESC | INSERT | INTO | VALUES | DELETE | FROM | ASC | ORDER | BY
  | WHERE | UPDATE | SET | SELECT | TK_INT | TK_CHAR | TK_FLOAT | INDEX | UNIQUE | TK_AND | JOIN | HELP
  | TXN_BEGIN | TXN_COMMIT | TXN_ABORT | TXN_ROLLBACK
  | LEQ | NEQ | GEQ | INVALID
  | IDENTIFIER string | VALUE_STRING string | VALUE_INT i32 | VALUE_FLOAT f32
  | Op char

section \<open>Character classes\<close>

definition QUOTE :: char where "QUOTE = CHR 0x27"
definition LF :: char where "LF = CHR 0x0A"
definition CR :: char where "CR = CHR 0x0D"
definition TAB :: char where "TAB = CHR 0x09"

definition is_digit :: "char \<Rightarrow> bool" where
  "is_digit c \<longleftrightarrow> 48 \<le> (of_char c :: nat) \<and> (of_char c :: nat) \<le> 57"

definition is_alpha :: "char \<Rightarrow> bool" where
  "is_alpha c \<longleftrightarrow> 65 \<le> (of_char c :: nat) \<and> (of_char c :: nat) \<le> 90 \<or> 97 \<le> (of_char c :: nat) \<and> (of_char c :: nat) \<le> 122"

definition is_sign :: "char \<Rightarrow> bool" where
  "is_sign c \<longleftrightarrow> c = CHR ''+'' \<or> c = CHR ''-''"

definition is_ident_char :: "char \<Rightarrow> bool" where
  "is_ident_char c \<longleftrightarrow> c = CHR ''_'' \<or> is_alpha c \<or> is_digit c"

definition is_blank :: "char \<Rightarrow> bool" where
  "is_blank c \<longleftrightarrow> c = CHR '' '' \<or> c = TAB"

definition to_upper :: "char \<Rightarrow> char" where
  "to_upper c = (if 97 \<le> (of_char c :: nat) \<and> (of_char c :: nat) \<le> 122 then char_of ((of_char c :: nat) - 32) else c)"

lemmas char_class_defs = is_digit_def is_alpha_def is_sign_def is_ident_char_def is_blank_def QUOTE_def LF_def CR_def TAB_def

section \<open>Literals\<close>

definition digit_val :: "char \<Rightarrow> nat" where
  "digit_val c = of_char c - 48"

definition digits_val :: "string \<Rightarrow> nat" where
  "digits_val s = foldl (\<lambda>n c. n * 10 + digit_val c) 0 s"

text \<open>\<^verbatim>\<open>std::from_chars\<close> for \<^verbatim>\<open>int\<close>: the value and the unread rest; \<open>None\<close> for an error code.\<close>

definition from_chars_int :: "string \<Rightarrow> (i32 \<times> string) option" where
  "from_chars_int s =
     (let neg = (s \<noteq> [] \<and> hd s = CHR ''-''); t = (if neg then tl s else s); ds = takeWhile is_digit t;
          v = (if neg then - int (digits_val ds) else int (digits_val ds)) in
      if ds = [] \<or> v < - (2 ^ 31) \<or> v \<ge> 2 ^ 31 then None else Some (word_of_int v, drop (length ds) t))"

definition ParseIntegerLiteral :: "string \<Rightarrow> i32 option" where
  "ParseIntegerLiteral text =
     (if text = [] then None
      else case from_chars_int (if hd text = CHR ''+'' then tl text else text) of
             None \<Rightarrow> None
           | Some (v, rest) \<Rightarrow> if rest = [] then Some v else None)"

text \<open>
  \<^verbatim>\<open>std::strtof\<close> on the decimal forms the scanner passes (sign, digits, point, digits). The value \<open>n / d\<close> is rounded to
  the nearest binary32, ties to even: \<open>e\<close> is the exponent of the unit in the last place, at least \<open>-149\<close>. The result is
  \<open>None\<close> where \<^verbatim>\<open>strtof\<close> sets \<^verbatim>\<open>ERANGE\<close>: on overflow, and when an inexact result is tiny after rounding.
\<close>

fun ilog2 :: "nat \<Rightarrow> nat" where
  "ilog2 n = (if n < 2 then 0 else Suc (ilog2 (n div 2)))"

declare ilog2.simps [simp del]

definition scaled :: "nat \<Rightarrow> nat \<Rightarrow> int \<Rightarrow> nat \<times> nat" where
  "scaled n d e = (if e \<ge> 0 then (n, d * 2 ^ nat e) else (n * 2 ^ nat (- e), d))"

definition round_even :: "nat \<times> nat \<Rightarrow> nat" where
  "round_even q =
     (let (n, d) = q; m = n div d; r = n mod d in
      if 2 * r > d \<or> 2 * r = d \<and> odd m then m + 1 else m)"

definition ratio_log :: "nat \<Rightarrow> nat \<Rightarrow> int" where
  "ratio_log n d =
     (let k = int (ilog2 n) - int (ilog2 d); (a, b) = scaled n d k in if b \<le> a then k else k - 1)"

definition round_f32 :: "nat \<Rightarrow> nat \<Rightarrow> nat option" where
  "round_f32 n d =
     (if n = 0 then Some 0
      else let k = ratio_log n d; e = max (- 149) (k - 23); m = round_even (scaled n d e);
               bits = nat (e + 149) * 2 ^ 23 + m; (a, b) = scaled n d e;
               tiny = (k < - 126 \<and> \<not> (k = - 127 \<and> round_even (scaled n d (k - 23)) = 2 ^ 24)) in
      if bits \<ge> 255 * 2 ^ 23 then None
      else if tiny \<and> a mod b \<noteq> 0 then None
      else Some bits)"

definition strtof_decimal :: "string \<Rightarrow> (f32 option \<times> string)" where
  "strtof_decimal s =
     (let neg = (s \<noteq> [] \<and> hd s = CHR ''-''); t = (if s \<noteq> [] \<and> is_sign (hd s) then tl s else s);
          ds = takeWhile is_digit t; t1 = drop (length ds) t;
          fs = (if t1 \<noteq> [] \<and> hd t1 = CHR ''.'' then takeWhile is_digit (tl t1) else []);
          rest = (if t1 \<noteq> [] \<and> hd t1 = CHR ''.'' then drop (length fs) (tl t1) else t1) in
      (map_option (\<lambda>b. word_of_nat (b + (if neg then 2 ^ 31 else 0))) (round_f32 (digits_val (ds @ fs)) (10 ^ length fs)),
       rest))"

definition ParseFloatLiteral :: "string \<Rightarrow> f32 option" where
  "ParseFloatLiteral text =
     (if text = [] then None
      else case strtof_decimal text of
             (None, rest) \<Rightarrow> None
           | (Some v, rest) \<Rightarrow> if rest = [] then Some v else None)"

text \<open>The loop of \<^verbatim>\<open>DecodeStringLiteral\<close> over the text between the outer quotes.\<close>

fun decode_quotes :: "string \<Rightarrow> string" where
  "decode_quotes [] = []"
| "decode_quotes [c] = [c]"
| "decode_quotes (c # d # s) = (if c = QUOTE \<and> d = QUOTE then d # decode_quotes s else c # decode_quotes (d # s))"

definition DecodeStringLiteral :: "string \<Rightarrow> string" where
  "DecodeStringLiteral text = (if length text < 2 then [] else decode_quotes (butlast (tl text)))"

section \<open>Rules\<close>

datatype start_condition = INITIAL | STATE_COMMENT

datatype lex_rule =
    R_block_comment | R_comment_end | R_comment_text | R_comment_star
  | R_line_comment | R_white_space | R_new_line
  | R_literal string token
  | R_single_op | R_identifier | R_int | R_float | R_string | R_unterminated | R_any

definition match_int :: "string \<Rightarrow> nat" where
  "match_int s =
     (let b = (if s \<noteq> [] \<and> is_sign (hd s) then 1 else 0); n = length (takeWhile is_digit (drop b s)) in
      if n = 0 then 0 else b + n)"

definition match_float :: "string \<Rightarrow> nat" where
  "match_float s =
     (let n = match_int s in
      if n = 0 \<or> take 1 (drop n s) \<noteq> ''.'' then 0
      else n + 1 + length (takeWhile is_digit (drop (n + 1) s)))"

text \<open>
  The longest \<^verbatim>\<open>([^']|'')*\<close>, and the longest such text with a closing quote, counted after the opening quote. Where no
  closing quote follows a doubled one, the first quote of the pair closes the shorter match.
\<close>

fun match_body :: "string \<Rightarrow> nat" where
  "match_body [] = 0"
| "match_body [c] = (if c = QUOTE then 0 else 1)"
| "match_body (c # d # s) =
     (if c \<noteq> QUOTE then Suc (match_body (d # s)) else if d = QUOTE then Suc (Suc (match_body s)) else 0)"

fun match_closed :: "string \<Rightarrow> nat option" where
  "match_closed [] = None"
| "match_closed [c] = (if c = QUOTE then Some 1 else None)"
| "match_closed (c # d # s) =
     (if c \<noteq> QUOTE then map_option Suc (match_closed (d # s))
      else if d = QUOTE then (case match_closed s of None \<Rightarrow> Some 1 | Some n \<Rightarrow> Some (Suc (Suc n)))
      else Some 1)"

fun rule_match :: "lex_rule \<Rightarrow> string \<Rightarrow> nat" where
  "rule_match R_block_comment s = (if take 2 s = ''/*'' then 2 else 0)"
| "rule_match R_comment_end s = (if take 2 s = ''*/'' then 2 else 0)"
| "rule_match R_comment_text s = (if s \<noteq> [] \<and> hd s \<noteq> CHR ''*'' then 1 else 0)"
| "rule_match R_comment_star s = (if s \<noteq> [] \<and> hd s = CHR ''*'' then 1 else 0)"
| "rule_match R_line_comment s =
     (if take 2 s = ''--'' then 2 + length (takeWhile (\<lambda>c. c \<noteq> LF) (drop 2 s)) else 0)"
| "rule_match R_white_space s = length (takeWhile is_blank s)"
| "rule_match R_new_line s =
     (if take 2 s = [CR, LF] then 2 else if s \<noteq> [] \<and> (hd s = CR \<or> hd s = LF) then 1 else 0)"
| "rule_match (R_literal lit t) s = (if map to_upper (take (length lit) s) = lit then length lit else 0)"
| "rule_match R_single_op s = (if s \<noteq> [] \<and> hd s \<in> set '';(),*=><.'' then 1 else 0)"
| "rule_match R_identifier s =
     (if s \<noteq> [] \<and> is_alpha (hd s) then 1 + length (takeWhile is_ident_char (tl s)) else 0)"
| "rule_match R_int s = match_int s"
| "rule_match R_float s = match_float s"
| "rule_match R_string s =
     (if s \<noteq> [] \<and> hd s = QUOTE then (case match_closed (tl s) of None \<Rightarrow> 0 | Some n \<Rightarrow> 1 + n) else 0)"
| "rule_match R_unterminated s = (if s \<noteq> [] \<and> hd s = QUOTE then 1 + match_body (tl s) else 0)"
| "rule_match R_any s = (if s \<noteq> [] \<and> hd s \<noteq> LF then 1 else 0)"

definition keyword_table :: "(string \<times> token) list" where
  "keyword_table =
     [(''SHOW'', SHOW), (''DATABASE'', DATABASE), (''BEGIN'', TXN_BEGIN), (''COMMIT'', TXN_COMMIT), (''ABORT'', TXN_ABORT),
      (''ROLLBACK'', TXN_ROLLBACK), (''TABLES'', TABLES), (''CREATE'', CREATE), (''TABLE'', TABLE), (''DROP'', DROP),
      (''DESC'', DESC), (''INSERT'', INSERT), (''INTO'', INTO), (''VALUES'', VALUES), (''DELETE'', DELETE), (''FROM'', FROM),
      (''WHERE'', WHERE), (''UPDATE'', UPDATE), (''SET'', SET), (''SELECT'', SELECT), (''INT'', TK_INT), (''CHAR'', TK_CHAR),
      (''FLOAT'', TK_FLOAT), (''INDEX'', INDEX), (''UNIQUE'', UNIQUE), (''AND'', TK_AND), (''JOIN'', JOIN), (''HELP'', HELP),
      (''ORDER'', ORDER), (''BY'', BY), (''ASC'', ASC)]"

definition operator_table :: "(string \<times> token) list" where
  "operator_table = [(''>='', GEQ), (''<='', LEQ), (''!='', NEQ), (''<>'', NEQ)]"

definition initial_rules :: "lex_rule list" where
  "initial_rules =
     [R_block_comment, R_line_comment, R_white_space, R_new_line] @
     map (\<lambda>(lit, t). R_literal lit t) keyword_table @ map (\<lambda>(lit, t). R_literal lit t) operator_table @
     [R_single_op, R_identifier, R_int, R_float, R_string, R_unterminated, R_any]"

definition comment_rules :: "lex_rule list" where
  "comment_rules = [R_comment_end, R_comment_text, R_comment_star]"

fun rules_of :: "start_condition \<Rightarrow> lex_rule list" where
  "rules_of INITIAL = initial_rules"
| "rules_of STATE_COMMENT = comment_rules"

text \<open>Flex takes the longest match, and the first rule among those of that length.\<close>

fun best_rule :: "lex_rule list \<Rightarrow> string \<Rightarrow> (lex_rule \<times> nat) option" where
  "best_rule [] s = None"
| "best_rule (r # rs) s =
     (let n = rule_match r s in
      if n = 0 then best_rule rs s
      else case best_rule rs s of
             None \<Rightarrow> Some (r, n)
           | Some (r', m) \<Rightarrow> if m > n then Some (r', m) else Some (r, n))"

section \<open>Actions and the scanning loop\<close>

datatype lex_action = Skip | Begin start_condition | Return token | Report string

fun rule_action :: "lex_rule \<Rightarrow> string \<Rightarrow> lex_action" where
  "rule_action R_block_comment w = Begin STATE_COMMENT"
| "rule_action R_comment_end w = Begin INITIAL"
| "rule_action R_comment_text w = Skip"
| "rule_action R_comment_star w = Skip"
| "rule_action R_line_comment w = Skip"
| "rule_action R_white_space w = Skip"
| "rule_action R_new_line w = Skip"
| "rule_action (R_literal lit t) w = Return t"
| "rule_action R_single_op w = Return (Op (hd w))"
| "rule_action R_identifier w = Return (IDENTIFIER w)"
| "rule_action R_int w =
     (case ParseIntegerLiteral w of
        None \<Rightarrow> Report ''integer literal is out of range''
      | Some v \<Rightarrow> Return (VALUE_INT v))"
| "rule_action R_float w =
     (case ParseFloatLiteral w of
        None \<Rightarrow> Report ''floating-point literal is out of range''
      | Some v \<Rightarrow> Return (VALUE_FLOAT v))"
| "rule_action R_string w = Return (VALUE_STRING (DecodeStringLiteral w))"
| "rule_action R_unterminated w = Report ''unterminated string literal''"
| "rule_action R_any w = Report ''unexpected character''"

record lex_state =
  condition :: start_condition
  first_line :: nat
  first_column :: nat
  last_line :: nat
  last_column :: nat
  block_comment_line :: nat
  block_comment_column :: nat

definition lex_start :: lex_state where
  "lex_start = \<lparr>condition = INITIAL, first_line = 1, first_column = 1, last_line = 1, last_column = 1,
                block_comment_line = 1, block_comment_column = 1\<rparr>"

fun advance :: "string \<Rightarrow> nat \<times> nat \<Rightarrow> nat \<times> nat" where
  "advance [] p = p"
| "advance (c # w) p = advance w (if c = LF then (fst p + 1, 1) else (fst p, snd p + 1))"

definition user_action :: "string \<Rightarrow> lex_state \<Rightarrow> lex_state" where
  "user_action w st =
     (let (l, c) = advance w (last_line st, last_column st) in
      st\<lparr>first_line := last_line st, first_column := last_column st, last_line := l, last_column := c\<rparr>)"

definition begin_condition :: "start_condition \<Rightarrow> lex_state \<Rightarrow> lex_state" where
  "begin_condition cond st =
     (if cond = STATE_COMMENT
      then st\<lparr>condition := cond, block_comment_line := first_line st, block_comment_column := first_column st\<rparr>
      else st\<lparr>condition := cond\<rparr>)"

text \<open>
  How scanning ends: at the end of input, or with the token \<open>INVALID\<close> and the recorded error. Both carry the location of
  the last lexeme, which is what \<^verbatim>\<open>yylloc\<close> then holds. No production accepts \<open>INVALID\<close>, so the parser asks for nothing
  after it.
\<close>

record ParseError =
  err_line :: nat
  err_column :: nat
  err_message :: string

type_synonym located = "token \<times> nat \<times> nat"

datatype lex_end = LexEof "nat \<times> nat" | LexInvalid "nat \<times> nat" ParseError

definition lex_error :: "lex_state \<Rightarrow> nat \<Rightarrow> nat \<Rightarrow> string \<Rightarrow> lex_end" where
  "lex_error st l c msg = LexInvalid (first_line st, first_column st) \<lparr>err_line = l, err_column = c, err_message = msg\<rparr>"

definition at_eof :: "lex_state \<Rightarrow> lex_end" where
  "at_eof st =
     (case condition st of
        INITIAL \<Rightarrow> LexEof (first_line st, first_column st)
      | STATE_COMMENT \<Rightarrow> lex_error st (block_comment_line st) (block_comment_column st) ''unterminated block comment'')"

lemma best_rule_pos: "best_rule rs s = Some (r, n) \<Longrightarrow> 0 < n"
  by (induction rs) (auto simp: Let_def split: if_splits option.splits)

function yylex :: "lex_state \<Rightarrow> string \<Rightarrow> located list \<times> lex_end" where
  "yylex st s =
     (if s = [] then ([], at_eof st)
      else case best_rule (rules_of (condition st)) s of
        None \<Rightarrow> yylex st (tl s)
      | Some (r, n) \<Rightarrow>
          let st1 = user_action (take n s) st in
          (case rule_action r (take n s) of
             Skip \<Rightarrow> yylex st1 (drop n s)
           | Begin cond \<Rightarrow> yylex (begin_condition cond st1) (drop n s)
           | Return t \<Rightarrow> (let (ts, e) = yylex st1 (drop n s) in ((t, first_line st1, first_column st1) # ts, e))
           | Report msg \<Rightarrow> ([], lex_error st1 (first_line st1) (first_column st1) msg)))"
  by pat_completeness auto
termination
  by (relation "measure (\<lambda>(st, s). length s)") (auto dest!: best_rule_pos)

declare yylex.simps [simp del]

section \<open>Scanning without locations\<close>

fun is_eof :: "lex_end \<Rightarrow> bool" where
  "is_eof (LexEof p) = True"
| "is_eof (LexInvalid p e) = False"

definition scan :: "start_condition \<Rightarrow> string \<Rightarrow> token list \<times> bool" where
  "scan cond s = (let (ts, e) = yylex (lex_start\<lparr>condition := cond\<rparr>) s in (map fst ts, is_eof e))"

lemma is_eof_at_eof [simp]: "is_eof (at_eof st) \<longleftrightarrow> condition st = INITIAL"
  by (cases "condition st") (simp_all add: at_eof_def lex_error_def)

lemma condition_user_action [simp]: "condition (user_action w st) = condition st"
  by (simp add: user_action_def split: prod.splits)

lemma condition_begin [simp]: "condition (begin_condition cond st) = cond"
  by (simp add: begin_condition_def)

lemma not_eof_lex_error [simp]: "\<not> is_eof (lex_error st l c msg)"
  by (simp add: lex_error_def)

lemma lex_locations:
  "condition st = condition st' \<Longrightarrow>
     map fst (fst (yylex st s)) = map fst (fst (yylex st' s)) \<and> is_eof (snd (yylex st s)) = is_eof (snd (yylex st' s))"
proof (induction st s arbitrary: st' rule: yylex.induct)
  case (1 st s)
  show ?case
  proof (cases "s = []")
    case True
    then show ?thesis using "1.prems" by (simp add: yylex.simps)
  next
    case False
    show ?thesis
    proof (cases "best_rule (rules_of (condition st)) s")
      case None
      then show ?thesis using "1.IH"(1) [OF False None, of st'] "1.prems" False by (simp add: yylex.simps [of _ s] Let_def)
    next
      case (Some rn)
      obtain r n where rn: "rn = (r, n)" by (cases rn)
      have best: "best_rule (rules_of (condition st')) s = Some (r, n)" using Some rn "1.prems" by simp
      show ?thesis
      proof (cases "rule_action r (take n s)")
        case Skip
        then show ?thesis
          using "1.IH"(2) [OF False Some rn [symmetric] refl Skip, of "user_action (take n s) st'"] "1.prems" False Some rn best
          by (simp add: yylex.simps [of _ s] Let_def)
      next
        case (Begin cond)
        then show ?thesis
          using "1.IH"(3) [OF False Some rn [symmetric] refl Begin, of "begin_condition cond (user_action (take n s) st')"]
            "1.prems" False Some rn best
          by (simp add: yylex.simps [of _ s] Let_def)
      next
        case (Return t)
        then show ?thesis
          using "1.IH"(4) [OF False Some rn [symmetric] refl Return, of "user_action (take n s) st'"] "1.prems" False Some rn best
          by (simp add: yylex.simps [of _ s] case_prod_beta Let_def)
      next
        case (Report msg)
        then show ?thesis using "1.prems" False Some rn best by (simp add: yylex.simps [of _ s] Let_def)
      qed
    qed
  qed
qed

lemma lex_scan: "scan (condition st) s = (map fst (fst (yylex st s)), is_eof (snd (yylex st s)))"
  using lex_locations [of st "lex_start\<lparr>condition := condition st\<rparr>" s] by (simp add: scan_def case_prod_beta)

lemma scan_Nil: "scan cond [] = ([], cond = INITIAL)"
  by (simp add: scan_def yylex.simps)

lemma scan_step:
  assumes "best_rule (rules_of cond) s = Some (r, n)" and "s \<noteq> []"
  shows "scan cond s =
     (case rule_action r (take n s) of
        Skip \<Rightarrow> scan cond (drop n s)
      | Begin cond' \<Rightarrow> scan cond' (drop n s)
      | Return t \<Rightarrow> (t # fst (scan cond (drop n s)), snd (scan cond (drop n s)))
      | Report msg \<Rightarrow> ([], False))"
proof -
  let ?st = "user_action (take n s) (lex_start\<lparr>condition := cond\<rparr>)"
  have "scan cond (drop n s) = (map fst (fst (yylex ?st (drop n s))), is_eof (snd (yylex ?st (drop n s))))"
    using lex_scan [of ?st "drop n s"] by simp
  moreover have "scan c (drop n s) = (map fst (fst (yylex (begin_condition c ?st) (drop n s))),
      is_eof (snd (yylex (begin_condition c ?st) (drop n s))))" for c
    using lex_scan [of "begin_condition c ?st" "drop n s"] by simp
  ultimately show ?thesis using assms
    by (cases "rule_action r (take n s)") (simp_all add: scan_def yylex.simps [of _ s] case_prod_beta Let_def)
qed

section \<open>The chosen rule\<close>

lemma best_rule_Some: "best_rule rs s = Some (r, n) \<Longrightarrow> r \<in> set rs \<and> rule_match r s = n \<and> 0 < n"
  by (induction rs) (auto simp: Let_def split: if_splits option.splits)

lemma best_rule_None: "best_rule rs s = None \<longleftrightarrow> (\<forall>r\<in>set rs. rule_match r s = 0)"
  by (induction rs) (auto simp: Let_def split: option.splits)

lemma best_rule_max: "best_rule rs s = Some (r, n) \<Longrightarrow> r' \<in> set rs \<Longrightarrow> rule_match r' s \<le> n"
proof (induction rs arbitrary: r n)
  case (Cons x rs)
  then show ?case
  proof (cases "best_rule rs s")
    case None
    then have "\<forall>r\<in>set rs. rule_match r s = 0" using best_rule_None [of rs s] by simp
    then show ?thesis using Cons.prems None by (auto simp: Let_def split: if_splits)
  next
    case (Some a)
    then show ?thesis using Cons.prems Cons.IH [of "fst a" "snd a"] by (cases a) (auto simp: Let_def split: if_splits)
  qed
qed simp

lemma best_rule_at:
  assumes "\<forall>x\<in>set xs. rule_match x s < rule_match r s" and "\<forall>y\<in>set ys. rule_match y s \<le> rule_match r s"
    and "0 < rule_match r s"
  shows "best_rule (xs @ r # ys) s = Some (r, rule_match r s)"
  using assms
proof (induction xs)
  case Nil
  then show ?case
    by (auto simp: Let_def split: option.splits dest!: best_rule_Some)
next
  case (Cons x xs)
  then show ?case by (auto simp: Let_def)
qed


lemma best_rule_dominant:
  assumes "r \<in> set rs" and "0 < rule_match r s" and "\<And>r'. r' \<in> set rs \<Longrightarrow> r' \<noteq> r \<Longrightarrow> rule_match r' s < rule_match r s"
  shows "best_rule (rs @ [R_any]) s = Some (r, rule_match r s)"
proof -
  obtain xs ys where rs: "rs = xs @ r # ys" "r \<notin> set xs" using split_list_first [OF assms(1)] by blast
  have "rule_match R_any s \<le> rule_match r s" using assms(2) by simp
  moreover have "rule_match y s \<le> rule_match r s" if "y \<in> set ys" for y
    using assms(3) [of y] that rs by (cases "y = r") (simp_all add: less_imp_le)
  ultimately have "\<forall>y\<in>set (ys @ [R_any]). rule_match y s \<le> rule_match r s" by auto
  then show ?thesis
    using best_rule_at [of xs s r "ys @ [R_any]"] assms(2,3) rs by auto
qed

definition literal_rules :: "(string \<times> token) list \<Rightarrow> lex_rule list" where
  "literal_rules table = map (\<lambda>(lit, t). R_literal lit t) table"

definition main_rules :: "lex_rule list" where
  "main_rules =
     [R_block_comment, R_line_comment, R_white_space, R_new_line] @ literal_rules keyword_table @ literal_rules operator_table @
     [R_single_op, R_identifier, R_int, R_float, R_string, R_unterminated]"

lemma initial_rules_main: "initial_rules = main_rules @ [R_any]"
  by (simp add: initial_rules_def main_rules_def literal_rules_def)

lemma main_rules_cases:
  assumes "r \<in> set main_rules"
  obtains "r \<in> {R_block_comment, R_line_comment, R_white_space, R_new_line, R_single_op, R_identifier, R_int, R_float,
                R_string, R_unterminated}"
  | k t where "r = R_literal k t" "(k, t) \<in> set keyword_table"
  | k t where "r = R_literal k t" "(k, t) \<in> set operator_table"
  using assms by (auto simp: main_rules_def literal_rules_def)

lemma of_char_less [simp]: "(of_char c :: nat) < 256"
  by (metis nat_of_char_less_256)

lemma to_upper_letter: "65 \<le> (of_char (to_upper c) :: nat) \<and> (of_char (to_upper c) :: nat) \<le> 90 \<longleftrightarrow> is_alpha c"
  using of_char_less [of c] by (auto simp: to_upper_def is_alpha_def)

lemma keyword_letters:
  "(k, t) \<in> set keyword_table \<Longrightarrow> k \<noteq> [] \<and> list_all (\<lambda>c. 65 \<le> (of_char c :: nat) \<and> (of_char c :: nat) \<le> 90) k"
  by (auto simp: keyword_table_def)

lemma keyword_alpha:
  assumes "(map to_upper w, t) \<in> set keyword_table"
  shows "w \<noteq> [] \<and> list_all is_alpha w"
  using keyword_letters [OF assms] by (simp add: list_all_iff to_upper_letter)

lemma keyword_match_pos:
  assumes "(k, t) \<in> set keyword_table" and "0 < rule_match (R_literal k t) s"
  shows "s \<noteq> [] \<and> is_alpha (hd s) \<and> list_all is_alpha (take (length k) s) \<and> length k \<le> length s"
proof -
  have k: "map to_upper (take (length k) s) = k" using assms(2) by (simp split: if_splits)
  then have "take (length k) s \<noteq> [] \<and> list_all is_alpha (take (length k) s)"
    using keyword_alpha [of "take (length k) s" t] assms(1) by simp
  moreover have "length k \<le> length s" using arg_cong [OF k, of length] by simp
  ultimately show ?thesis by (cases s; cases k) auto
qed

lemma operator_match_pos:
  "(k, t) \<in> set operator_table \<Longrightarrow> 0 < rule_match (R_literal k t) s \<Longrightarrow>
     length k = 2 \<and> 2 \<le> length s \<and> to_upper (hd s) \<in> {CHR ''>'', CHR ''<'', CHR ''!''} \<and> to_upper (s ! 1) \<in> {CHR ''='', CHR ''>''}"
  by (cases s; cases "tl s") (auto simp: operator_table_def split: if_splits)

section \<open>Spelled tokens are scanned back\<close>

definition is_word :: "string \<Rightarrow> bool" where
  "is_word w \<longleftrightarrow> w \<noteq> [] \<and> is_alpha (hd w) \<and> list_all is_ident_char w"

definition quote_text :: "string \<Rightarrow> string" where
  "quote_text x = QUOTE # concat (map (\<lambda>c. if c = QUOTE then [QUOTE, QUOTE] else [c]) x) @ [QUOTE]"

fun spells :: "token \<Rightarrow> string \<Rightarrow> bool" where
  "spells (IDENTIFIER n) w \<longleftrightarrow> w = n \<and> is_word w \<and> map_of keyword_table (map to_upper w) = None"
| "spells (VALUE_STRING x) w \<longleftrightarrow> w = quote_text x"
| "spells (VALUE_INT v) w \<longleftrightarrow> w \<noteq> [] \<and> match_int w = length w \<and> ParseIntegerLiteral w = Some v"
| "spells (VALUE_FLOAT v) w \<longleftrightarrow> w \<noteq> [] \<and> match_float w = length w \<and> ParseFloatLiteral w = Some v"
| "spells (Op c) w \<longleftrightarrow> w = [c] \<and> c \<in> set '';(),*=><.''"
| "spells INVALID w \<longleftrightarrow> False"
| "spells t w \<longleftrightarrow> map_of keyword_table (map to_upper w) = Some t \<or> (w, t) \<in> set operator_table"

definition spell :: "string list \<Rightarrow> string" where
  "spell ws = concat (map (\<lambda>w. w @ '' '') ws)"

lemma alpha_not [simp]:
  "is_alpha c \<Longrightarrow> c \<notin> {CHR ''/'', CHR ''-'', CHR ''*'', CR, LF, TAB, CHR '' '', QUOTE, CHR ''.'', CHR '';'', CHR '','', CHR ''('', CHR '')'',
      CHR ''='', CHR ''<'', CHR ''>'', CHR ''!'', CHR ''+''} \<and> \<not> is_digit c \<and> \<not> is_sign c \<and> \<not> is_blank c"
  by (auto simp: char_class_defs)

lemma takeWhile_boundary: "list_all P w \<Longrightarrow> s = [] \<or> \<not> P (hd s) \<Longrightarrow> takeWhile P (w @ s) = w"
  by (induction w) (auto simp: takeWhile_eq_Nil_iff)

lemma blank_classes [simp]: "\<not> is_ident_char (CHR '' '')" "\<not> is_digit (CHR '' '')" "is_blank (CHR '' '')"
  by (simp_all add: char_class_defs)

lemma word_other_rules:
  assumes "is_word w" and "r \<in> set main_rules" and "0 < rule_match r (w @ CHR '' '' # s)"
  shows "r = R_identifier \<or>
     (\<exists>k t. r = R_literal k t \<and> (k, t) \<in> set keyword_table \<and> length k \<le> length w \<and> (length k = length w \<longrightarrow> k = map to_upper w))"
  using assms(2)
proof (cases rule: main_rules_cases)
  case 1
  obtain c u where w: "w = c # u" "is_alpha c" using assms(1) by (cases w) (auto simp: is_word_def)
  show ?thesis using 1 assms(3) w alpha_not [of c]
    by (auto simp: match_int_def match_float_def Let_def takeWhile_eq_Nil_iff split: if_splits)
next
  case (2 k t)
  have pos: "0 < rule_match (R_literal k t) (w @ CHR '' '' # s)" using assms(3) 2 by simp
  have al: "list_all is_alpha (take (length k) (w @ CHR '' '' # s))" and k: "map to_upper (take (length k) (w @ CHR '' '' # s)) = k"
    using keyword_match_pos [OF 2(2) pos] pos by (simp_all split: if_splits)
  have "length k \<le> length w"
  proof (rule ccontr)
    assume "\<not> length k \<le> length w"
    then have "CHR '' '' \<in> set (take (length k) (w @ CHR '' '' # s))" by (simp add: take_Cons')
    then have "is_alpha (CHR '' '')" using al unfolding list_all_iff by blast
    then show False by (simp add: is_alpha_def)
  qed
  then show ?thesis using 2 k by auto
next
  case (3 k t)
  then show ?thesis using operator_match_pos [OF 3(2), of "w @ CHR '' '' # s"] assms(1,3) alpha_not [of "hd w"] to_upper_letter [of "hd w"]
    by (cases w) (auto simp: is_word_def)
qed

lemma word_identifier_match: "is_word w \<Longrightarrow> rule_match R_identifier (w @ CHR '' '' # s) = length w"
  by (cases w) (auto simp: is_word_def takeWhile_boundary)

lemma map_of_first: "map_of xs k = Some v \<Longrightarrow> \<exists>ys zs. xs = ys @ (k, v) # zs \<and> k \<notin> fst ` set ys"
proof (induction xs)
  case (Cons x xs)
  show ?case
  proof (cases "fst x = k")
    case True
    then show ?thesis using Cons.prems by (cases x) force
  next
    case False
    then obtain ys zs where "xs = ys @ (k, v) # zs" "k \<notin> fst ` set ys" using Cons by (cases x) auto
    then have "x # xs = (x # ys) @ (k, v) # zs \<and> k \<notin> fst ` set (x # ys)" using False by auto
    then show ?thesis by blast
  qed
qed simp

lemma best_rule_identifier:
  assumes "is_word w" and "map_of keyword_table (map to_upper w) = None"
  shows "best_rule initial_rules (w @ CHR '' '' # s) = Some (R_identifier, length w)"
proof -
  have "rule_match r (w @ CHR '' '' # s) < length w" if r: "r \<in> set main_rules" "r \<noteq> R_identifier" for r
  proof (cases "0 < rule_match r (w @ CHR '' '' # s)")
    case True
    then obtain k t where "r = R_literal k t" "(k, t) \<in> set keyword_table" "length k \<le> length w" "length k = length w \<longrightarrow> k = map to_upper w"
      using word_other_rules [OF assms(1) r(1)] r(2) by blast
    moreover then have "length k \<noteq> length w" using assms(2) by (force simp: map_of_eq_None_iff)
    ultimately show ?thesis by auto
  qed (use assms(1) in \<open>auto simp: is_word_def\<close>)
  then show ?thesis
    using best_rule_dominant [of R_identifier main_rules "w @ CHR '' '' # s"] word_identifier_match [OF assms(1), of s] assms(1)
    by (auto simp: initial_rules_main main_rules_def is_word_def)
qed

lemma keyword_word: "map_of keyword_table (map to_upper w) = Some t \<Longrightarrow> is_word w"
  using keyword_alpha [OF map_of_SomeD, of w t] by (cases w) (auto simp: is_word_def is_ident_char_def list_all_iff)

lemma best_rule_keyword:
  assumes "map_of keyword_table (map to_upper w) = Some t"
  shows "best_rule initial_rules (w @ CHR '' '' # s) = Some (R_literal (map to_upper w) t, length w)"
proof -
  let ?s = "w @ CHR '' '' # s" and ?r = "R_literal (map to_upper w) t"
  obtain ys zs where tab: "keyword_table = ys @ (map to_upper w, t) # zs" "map to_upper w \<notin> fst ` set ys"
    using map_of_first [OF assms] by blast
  let ?xs = "[R_block_comment, R_line_comment, R_white_space, R_new_line] @ literal_rules ys"
  let ?zs = "literal_rules zs @ literal_rules operator_table @ [R_single_op, R_identifier, R_int, R_float, R_string, R_unterminated]"
  have main: "main_rules = ?xs @ ?r # ?zs" unfolding main_rules_def literal_rules_def tab(1) by simp
  have w: "is_word w" using keyword_word [OF assms] .
  have n: "rule_match ?r ?s = length w" by simp
  have le: "rule_match r ?s \<le> length w" if "r \<in> set main_rules" for r
    using word_other_rules [OF w that, of s] word_identifier_match [OF w, of s]
    by (cases "0 < rule_match r ?s") auto
  have "rule_match r ?s < length w" if r: "r \<in> set ?xs" for r
  proof (cases "0 < rule_match r ?s")
    case True
    then have "r \<noteq> R_identifier" using r by (auto simp: literal_rules_def)
    moreover have "r \<in> set main_rules" unfolding main using r by auto
    ultimately obtain k u where k: "r = R_literal k u" "length k \<le> length w" "length k = length w \<longrightarrow> k = map to_upper w"
      using word_other_rules [OF w _ True] by blast
    have "(k, u) \<in> set ys" using r k(1) by (auto simp: literal_rules_def)
    then have "length k \<noteq> length w" using k(3) tab(2) by force
    then show ?thesis using k by auto
  qed (use w in \<open>auto simp: is_word_def\<close>)
  moreover have "0 < length w" using w by (auto simp: is_word_def)
  moreover have "\<forall>y\<in>set (?zs @ [R_any]). rule_match y ?s \<le> length w"
  proof
    fix y assume "y \<in> set (?zs @ [R_any])"
    then have "y \<in> set main_rules \<or> y = R_any" unfolding main by auto
    then show "rule_match y ?s \<le> length w" using le \<open>0 < length w\<close> by (auto simp: Suc_le_eq)
  qed
  ultimately show ?thesis
    using best_rule_at [of ?xs ?s ?r "?zs @ [R_any]"] n unfolding initial_rules_main main by (simp del: rule_match.simps)
qed

lemma match_int_cases:
  assumes "w \<noteq> []" and "match_int w = length w"
  obtains "list_all is_digit w" | c u where "w = c # u" "is_sign c" "u \<noteq> []" "list_all is_digit u"
proof (cases w)
  case (Cons c u)
  have all: "list_all is_digit v" if "length (takeWhile is_digit v) = length v" for v
    using that by (metis list_all_iff set_takeWhileD takeWhile_eq_take take_all_iff order_refl)
  show ?thesis
  proof (cases "is_sign c")
    case True
    then show ?thesis using assms(2) Cons that(2) [of c u] all [of u]
      by (cases u) (auto simp: match_int_def Let_def split: if_splits)
  next
    case False
    then show ?thesis using assms(2) Cons that(1) all [of w] by (auto simp: match_int_def Let_def split: if_splits)
  qed
qed (use assms in simp)

lemma minus_not_digit [simp]: "\<not> is_digit (CHR ''-'')"
  by (simp add: char_class_defs)

lemma sign_not_digit [simp]: "is_sign c \<Longrightarrow> \<not> is_digit c"
  by (auto simp: char_class_defs)

lemma match_int_append:
  assumes "w \<noteq> []" and "match_int w = length w" and "s = [] \<or> \<not> is_digit (hd s)"
  shows "match_int (w @ s) = length w"
  using assms(1,2)
proof (cases rule: match_int_cases)
  case 1
  then have "\<not> is_sign (hd w)" using assms(1) sign_not_digit [of "hd w"] by (cases w) auto
  then show ?thesis using 1 assms(1,3) by (simp add: match_int_def Let_def takeWhile_boundary)
next
  case (2 c u)
  then show ?thesis using assms(3) by (simp add: match_int_def Let_def takeWhile_boundary)
qed

lemma number_other_rules:
  assumes "is_digit c \<or> is_sign c \<and> is_digit (hd (u @ s))" and "u @ s \<noteq> []" and "r \<in> set main_rules"
    and "0 < rule_match r (c # u @ s)"
  shows "r = R_int \<or> r = R_float"
  using assms(3)
proof (cases rule: main_rules_cases)
  case 1
  have "c \<notin> {CHR ''/'', CHR '' '', TAB, CR, LF, QUOTE} \<and> c \<notin> set '';(),*=><.'' \<and> \<not> is_alpha c"
    using assms(1) by (auto simp: char_class_defs)
  moreover obtain d v where "u @ s = d # v" using assms(2) by (cases "u @ s") auto
  moreover have "\<not> (c = CHR ''-'' \<and> d = CHR ''-'')" using assms(1) calculation(2) by auto
  ultimately show ?thesis using 1 assms(4) by (auto simp: is_blank_def split: if_splits)
next
  case (2 k t)
  then show ?thesis using keyword_match_pos [OF 2(2), of "c # u @ s"] assms alpha_not [of c] by auto
next
  case (3 k t)
  then show ?thesis using operator_match_pos [OF 3(2), of "c # u @ s"] assms
    by (auto simp: to_upper_def char_class_defs split: if_splits)
qed

lemma main_rules_mem [simp]:
  "R_int \<in> set main_rules" "R_float \<in> set main_rules" "R_string \<in> set main_rules" "R_single_op \<in> set main_rules"
  "R_white_space \<in> set main_rules" "(k, t) \<in> set operator_table \<Longrightarrow> R_literal k t \<in> set main_rules"
  by (auto simp: main_rules_def literal_rules_def)

lemma best_rule_number:
  assumes "is_digit c \<or> is_sign c \<and> is_digit (hd (u @ s))" and "u @ s \<noteq> []" and "r = R_int \<and> r' = R_float \<or> r = R_float \<and> r' = R_int"
    and "rule_match r' (c # u @ s) < rule_match r (c # u @ s)"
  shows "best_rule initial_rules (c # u @ s) = Some (r, rule_match r (c # u @ s))"
  unfolding initial_rules_main
proof (rule best_rule_dominant)
  fix x assume x: "x \<in> set main_rules" "x \<noteq> r"
  show "rule_match x (c # u @ s) < rule_match r (c # u @ s)"
  proof (cases "0 < rule_match x (c # u @ s)")
    case True
    then have "x = r'" using number_other_rules [OF assms(1,2) x(1)] x(2) assms(3) by auto
    then show ?thesis using assms(4) by simp
  qed (use assms(4) in linarith)
qed (use assms in auto)

lemma match_int_front:
  assumes "w \<noteq> []" and "match_int w = length w"
  shows "is_digit (hd w) \<or> is_sign (hd w) \<and> is_digit (hd (tl w @ s))"
  using assms
proof (cases rule: match_int_cases)
  case 1
  then show ?thesis using assms(1) by (cases w) auto
next
  case (2 c u)
  then show ?thesis by (cases u) auto
qed

lemma best_rule_int:
  assumes "w \<noteq> []" and "match_int w = length w"
  shows "best_rule initial_rules (w @ CHR '' '' # s) = Some (R_int, length w)"
proof -
  have n: "match_int (w @ CHR '' '' # s) = length w" using match_int_append [OF assms, of "CHR '' '' # s"] by simp
  then have "match_float (w @ CHR '' '' # s) = 0" by (simp add: match_float_def)
  then show ?thesis
    using best_rule_number [of "hd w" "tl w" "CHR '' '' # s" R_int R_float] match_int_front [OF assms, of "CHR '' '' # s"] n assms(1)
    by (cases w) auto
qed

lemma takeWhile_twice: "takeWhile P (takeWhile P xs) = takeWhile P xs"
  by (auto simp: takeWhile_eq_all_conv dest: set_takeWhileD)

lemma match_float_cases:
  assumes "w \<noteq> []" and "match_float w = length w"
  obtains u v where "w = u @ CHR ''.'' # v" "u \<noteq> []" "match_int u = length u" "list_all is_digit v"
proof -
  let ?n = "match_int w"
  have n: "?n \<noteq> 0" "take 1 (drop ?n w) = ''.''" and len: "length w = ?n + 1 + length (takeWhile is_digit (drop (?n + 1) w))"
    using assms by (auto simp: match_float_def Let_def split: if_splits)
  obtain v where v: "drop ?n w = CHR ''.'' # v" using n(2) by (cases "drop ?n w") auto
  have "drop (?n + 1) w = v" using arg_cong [OF v, of tl] by (simp add: tl_drop drop_Suc)
  then have "length (takeWhile is_digit v) = length v" using len arg_cong [OF v, of length] by simp
  then have "list_all is_digit v" by (metis list_all_iff set_takeWhileD takeWhile_eq_take take_all_iff order_refl)
  moreover have w: "w = take ?n w @ CHR ''.'' # v" using v append_take_drop_id [of ?n w] by simp
  moreover have "take ?n w \<noteq> []" using n(1) assms(1) by simp
  moreover have "match_int (take ?n w) = length (take ?n w)"
  proof (cases "is_sign (hd w)")
    case True
    then have b: "?n = 1 + length (takeWhile is_digit (tl w))" "takeWhile is_digit (tl w) \<noteq> []"
      using n(1) assms(1) by (auto simp: match_int_def Let_def drop_Suc split: if_splits)
    have "take ?n w = hd w # takeWhile is_digit (tl w)" using b(1) assms(1) by (cases w) (auto simp: takeWhile_eq_take [symmetric])
    then show ?thesis using True b by (simp add: match_int_def takeWhile_twice)
  next
    case False
    then have b: "?n = length (takeWhile is_digit w)" using n(1) assms(1) by (auto simp: match_int_def Let_def split: if_splits)
    then have "take ?n w = takeWhile is_digit w" by (simp add: takeWhile_eq_take [symmetric])
    then show ?thesis using False b n(1) assms(1) by (cases w) (auto simp: match_int_def takeWhile_twice)
  qed
  ultimately show thesis using that by blast
qed

lemma best_rule_float:
  assumes "w \<noteq> []" and "match_float w = length w"
  shows "best_rule initial_rules (w @ CHR '' '' # s) = Some (R_float, length w)"
  using assms
proof (cases rule: match_float_cases)
  case (1 u v)
  have dot: "\<not> is_digit (CHR ''.'')" by (simp add: char_class_defs)
  have n: "match_int (w @ CHR '' '' # s) = length u"
    using match_int_append [OF 1(2,3), of "CHR ''.'' # v @ CHR '' '' # s"] 1(1) dot by simp
  have "match_float (w @ CHR '' '' # s) = length w"
    using n 1 by (simp add: match_float_def takeWhile_boundary)
  then show ?thesis
    using best_rule_number [of "hd w" "tl w" "CHR '' '' # s" R_float R_int] match_int_front [OF 1(2,3), of "CHR ''.'' # v @ CHR '' '' # s"]
      n 1 assms(1)
    by (cases u) auto
qed

definition escape :: "string \<Rightarrow> string" where
  "escape x = concat (map (\<lambda>c. if c = QUOTE then [QUOTE, QUOTE] else [c]) x)"

lemma escape_simps [simp]:
  "escape [] = []" "escape (c # x) = (if c = QUOTE then QUOTE # QUOTE # escape x else c # escape x)"
  by (simp_all add: escape_def)

lemma match_closed_escape: "s = [] \<or> hd s \<noteq> QUOTE \<Longrightarrow> match_closed (escape x @ QUOTE # s) = Some (Suc (length (escape x)))"
proof (induction x)
  case Nil
  then show ?case by (cases s) auto
next
  case (Cons c x)
  then show ?case by (cases "escape x") auto
qed

lemma match_body_escape: "s = [] \<or> hd s \<noteq> QUOTE \<Longrightarrow> match_body (escape x @ QUOTE # s) = length (escape x)"
proof (induction x)
  case Nil
  then show ?case by (cases s) auto
next
  case (Cons c x)
  then show ?case by (cases "escape x") auto
qed

lemma decode_escape: "decode_quotes (escape x) = x"
proof (induction x)
  case (Cons c x)
  then show ?case by (cases "escape x") auto
qed simp

lemma quote_text_escape: "quote_text x = QUOTE # escape x @ [QUOTE]"
  by (simp add: quote_text_def escape_def)

lemma decode_quote_text: "DecodeStringLiteral (quote_text x) = x"
  by (simp add: DecodeStringLiteral_def quote_text_escape decode_escape butlast_append)

lemma quote_classes [simp]: "\<not> is_alpha QUOTE" "\<not> is_sign QUOTE" "\<not> is_digit QUOTE" "\<not> is_blank QUOTE"
  by (simp_all add: char_class_defs)

lemma quote_other_rules:
  assumes "r \<in> set main_rules" and "0 < rule_match r (QUOTE # s)"
  shows "r = R_string \<or> r = R_unterminated"
  using assms(1)
proof (cases rule: main_rules_cases)
  case 1
  then show ?thesis using assms(2)
    by (auto simp: match_int_def match_float_def char_class_defs split: if_splits)
next
  case (2 k t)
  then show ?thesis using keyword_match_pos [OF 2(2), of "QUOTE # s"] assms by auto
next
  case (3 k t)
  then show ?thesis using operator_match_pos [OF 3(2), of "QUOTE # s"] assms
    by (auto simp: to_upper_def QUOTE_def)
qed

lemma best_rule_string: "best_rule initial_rules (quote_text x @ CHR '' '' # s) = Some (R_string, length (quote_text x))"
proof -
  let ?s = "quote_text x @ CHR '' '' # s"
  have s: "?s = QUOTE # escape x @ QUOTE # CHR '' '' # s" by (simp add: quote_text_escape)
  have sp: "CHR '' '' \<noteq> QUOTE" by (simp add: QUOTE_def)
  have n: "rule_match R_string ?s = length (quote_text x)" and m: "rule_match R_unterminated ?s < length (quote_text x)"
    using match_closed_escape [of "CHR '' '' # s" x] match_body_escape [of "CHR '' '' # s" x] sp
    by (simp_all add: quote_text_escape)
  show ?thesis
    unfolding initial_rules_main n [symmetric]
  proof (rule best_rule_dominant)
    fix r assume r: "r \<in> set main_rules" "r \<noteq> R_string"
    show "rule_match r ?s < rule_match R_string ?s"
    proof (cases "0 < rule_match r ?s")
      case True
      then have "r = R_unterminated" using quote_other_rules [OF r(1), of "escape x @ QUOTE # CHR '' '' # s"] r(2) unfolding s by auto
      then show ?thesis using m unfolding n by simp
    qed (use m n in linarith)
  qed (use n in \<open>simp_all add: quote_text_escape\<close>)
qed

lemma to_upper_id: "\<not> is_alpha c \<Longrightarrow> to_upper c = c"
  by (auto simp: to_upper_def is_alpha_def)

lemma op_other_rules:
  assumes "c \<in> set '';(),*=><.!''" and "\<not> is_alpha d" and "r \<in> set main_rules" and "0 < rule_match r (c # d # s)"
  shows "r = R_single_op \<or> (\<exists>t. r = R_literal [c, d] t \<and> ([c, d], t) \<in> set operator_table)"
proof -
  have c: "\<not> is_alpha c \<and> \<not> is_digit c \<and> \<not> is_sign c \<and> \<not> is_blank c \<and> c \<notin> {CHR ''/'', CHR ''-'', CR, LF, QUOTE}"
    using assms(1) by (auto simp: char_class_defs)
  show ?thesis using assms(3)
  proof (cases rule: main_rules_cases)
    case 1
    then show ?thesis using assms(4) c by (auto simp: match_int_def match_float_def split: if_splits)
  next
    case (2 k t)
    then show ?thesis using keyword_match_pos [OF 2(2), of "c # d # s"] assms(4) c by auto
  next
    case (3 k t)
    have pos: "0 < rule_match (R_literal k t) (c # d # s)" using assms(4) 3 by simp
    have k: "length k = 2" using operator_match_pos [OF 3(2) pos] by blast
    have "map to_upper (take (length k) (c # d # s)) = k" using pos by (simp only: rule_match.simps split: if_splits)
    then have "k = [c, d]" using to_upper_id [of c] to_upper_id [of d] c assms(2) by (simp add: k numeral_2_eq_2)
    then show ?thesis using 3 by auto
  qed
qed

lemma best_rule_single:
  assumes "c \<in> set '';(),*=><.''"
  shows "best_rule initial_rules (c # CHR '' '' # s) = Some (R_single_op, 1)"
proof -
  have n: "rule_match R_single_op (c # CHR '' '' # s) = 1" using assms by simp
  show ?thesis
    unfolding initial_rules_main n [symmetric]
  proof (rule best_rule_dominant)
    fix r assume r: "r \<in> set main_rules" "r \<noteq> R_single_op"
    have c: "c \<in> set '';(),*=><.!''" and d: "\<not> is_alpha (CHR '' '')" using assms by (auto simp: is_alpha_def)
    have "([c, CHR '' ''], t) \<notin> set operator_table" for t by (simp add: operator_table_def)
    then have "\<not> 0 < rule_match r (c # CHR '' '' # s)" using op_other_rules [OF c d r(1), of s] r(2) by blast
    then show "rule_match r (c # CHR '' '' # s) < rule_match R_single_op (c # CHR '' '' # s)" unfolding n by simp
  qed (use assms in simp_all)
qed

lemma best_rule_operator:
  assumes "(w, t) \<in> set operator_table"
  shows "\<exists>r. best_rule initial_rules (w @ CHR '' '' # s) = Some (r, length w) \<and> rule_action r w = Return t"
proof -
  have "length w = 2 \<and> hd w \<in> set ''><!'' \<and> \<not> is_alpha (hd w) \<and> \<not> is_alpha (hd (tl w))"
    using assms by (auto simp: operator_table_def is_alpha_def)
  then obtain c d where w: "w = [c, d]" "c \<in> set ''><!''" "\<not> is_alpha c" "\<not> is_alpha d"
    by (auto simp: numeral_2_eq_2 length_Suc_conv)
  have c: "c \<in> set '';(),*=><.!''" using w(2) by auto
  have n: "rule_match (R_literal w t) (w @ CHR '' '' # s) = 2" using w to_upper_id by simp
  have "best_rule (main_rules @ [R_any]) (w @ CHR '' '' # s) = Some (R_literal w t, rule_match (R_literal w t) (w @ CHR '' '' # s))"
  proof (rule best_rule_dominant)
    fix r assume r: "r \<in> set main_rules" "r \<noteq> R_literal w t"
    show "rule_match r (w @ CHR '' '' # s) < rule_match (R_literal w t) (w @ CHR '' '' # s)"
    proof (cases "0 < rule_match r (w @ CHR '' '' # s)")
      case True
      then have "r = R_single_op \<or> (\<exists>t. r = R_literal w t \<and> (w, t) \<in> set operator_table)"
        using op_other_rules [of c d r "CHR '' '' # s"] r(1) w c by simp
      moreover have "t' = t" if "(w, t') \<in> set operator_table" for t' using that assms by (auto simp: operator_table_def)
      ultimately have "r = R_single_op" using r(2) by blast
      then show ?thesis unfolding n by simp
    qed (use n in linarith)
  qed (use n assms in simp_all)
  then show ?thesis using n w by (auto simp: initial_rules_main)
qed

lemma best_rule_blank:
  assumes "s = [] \<or> \<not> is_blank (hd s)"
  shows "best_rule initial_rules (CHR '' '' # s) = Some (R_white_space, 1)"
proof -
  have n: "rule_match R_white_space (CHR '' '' # s) = 1" using assms by (cases s) auto
  have z: "rule_match r (CHR '' '' # s) = 0" if "r \<in> set main_rules" "r \<noteq> R_white_space" for r
    using that(1)
  proof (cases rule: main_rules_cases)
    case 1
    then show ?thesis using that(2) by (auto simp: match_int_def match_float_def char_class_defs)
  next
    case (2 k t)
    then have "\<not> 0 < rule_match r (CHR '' '' # s)"
      using keyword_match_pos [OF 2(2), of "CHR '' '' # s"] by (auto simp: is_alpha_def simp del: rule_match.simps)
    then show ?thesis by simp
  next
    case (3 k t)
    then have "\<not> 0 < rule_match r (CHR '' '' # s)"
      using operator_match_pos [OF 3(2), of "CHR '' '' # s"] by (auto simp: to_upper_def simp del: rule_match.simps)
    then show ?thesis by simp
  qed
  show ?thesis unfolding initial_rules_main n [symmetric]
    by (rule best_rule_dominant) (use n z in auto)
qed

lemma best_rule_spells:
  assumes "spells t w"
  shows "\<exists>r. best_rule initial_rules (w @ CHR '' '' # s) = Some (r, length w) \<and> rule_action r w = Return t"
proof -
  have word: "\<exists>r. best_rule initial_rules (w @ CHR '' '' # s) = Some (r, length w) \<and> rule_action r w = Return t"
    if "map_of keyword_table (map to_upper w) = Some t \<or> (w, t) \<in> set operator_table"
    using that best_rule_keyword [of w t s] best_rule_operator [of w t s] by auto
  show ?thesis
    using assms word best_rule_identifier [of w s] best_rule_int [of w s] best_rule_float [of w s] best_rule_string [of _ s]
      best_rule_single [of _ s] decode_quote_text
    by (cases t) (auto simp del: best_rule.simps)
qed

lemma number_not_blank: "is_digit c \<or> is_sign c \<Longrightarrow> \<not> is_blank c"
  by (auto simp: char_class_defs)

lemma spells_front: "spells t w \<Longrightarrow> w \<noteq> [] \<and> \<not> is_blank (hd w)"
proof -
  assume t: "spells t w"
  have word: "w \<noteq> [] \<and> \<not> is_blank (hd w)" if "is_word w" for w
    using that alpha_not [of "hd w"] by (auto simp: is_word_def)
  have int: "\<not> is_blank (hd w)" if "w \<noteq> []" "match_int w = length w" for w
    using match_int_front [OF that] number_not_blank by auto
  have float: "\<not> is_blank (hd w)" if "w \<noteq> []" "match_float w = length w" for w
    using that by (rule match_float_cases) (use int in auto)
  have key: "w \<noteq> [] \<and> \<not> is_blank (hd w)" if "map_of keyword_table (map to_upper w) = Some t \<or> (w, t) \<in> set operator_table" for t
    using that word [OF keyword_word] by (auto simp: operator_table_def is_blank_def TAB_def)
  show ?thesis using t word int float key by (cases t) (auto simp: quote_text_def char_class_defs)
qed

lemma scan_token:
  assumes "spells t w"
  shows "scan INITIAL (w @ CHR '' '' # s) = (t # fst (scan INITIAL (CHR '' '' # s)), snd (scan INITIAL (CHR '' '' # s)))"
  using best_rule_spells [OF assms, of s] scan_step [of INITIAL "w @ CHR '' '' # s"] by auto

lemma scan_blank: "s = [] \<or> \<not> is_blank (hd s) \<Longrightarrow> scan INITIAL (CHR '' '' # s) = scan INITIAL s"
  using best_rule_blank [of s] scan_step [of INITIAL "CHR '' '' # s"] by auto

lemma scan_spell: "list_all2 spells ts ws \<Longrightarrow> scan INITIAL (spell ws) = (ts, True)"
proof (induction rule: list_all2_induct)
  case Nil
  then show ?case by (simp add: spell_def scan_Nil)
next
  case (Cons t ts w ws)
  have "spell ws = [] \<or> \<not> is_blank (hd (spell ws))"
    using Cons.hyps(2) spells_front by (cases ws) (auto simp: spell_def list_all2_Cons2)
  then show ?case using scan_token [OF Cons.hyps(1), of "spell ws"] scan_blank [of "spell ws"] Cons.IH by (simp add: spell_def)
qed

end
