(* ===== verification/Sql_Grammar.thy ===== *)
theory Sql_Grammar
  imports Sql_Lexer
begin

text \<open>
  The grammar of \<^verbatim>\<open>src/src/parser/yacc.y\<close>. Every nonterminal is a relation \<open>g_\<close> between token sequences and the value its
  semantic actions build, with one rule per production; the left recursive list productions are instances of \<open>g_chain\<close>.
  \<open>yyparse\<close> is the deterministic parser with one token of lookahead that Bison derives from the grammar, written as one
  function \<open>p_\<close> per nonterminal: an error is the input from the token that cannot be shifted on. The locales state what a
  parser promises for its nonterminal, soundness and completeness up to the tokens that may follow; every nonterminal
  interprets them, and the grammar and the parser are shown to agree on every token sequence.
\<close>

section \<open>Productions\<close>

subsection \<open>Left recursive sequences\<close>

text \<open>
  \<open>list: item | list SEP item\<close> with the actions \<open>start\<close> for the first item and \<open>sep t\<close> for the item after the
  separator \<open>t\<close>.
\<close>

inductive g_chain ::
  "('a \<Rightarrow> 'b) \<Rightarrow> (token \<Rightarrow> ('b \<Rightarrow> 'a \<Rightarrow> 'b) option) \<Rightarrow> (token list \<Rightarrow> 'a \<Rightarrow> bool) \<Rightarrow> token list \<Rightarrow> 'b \<Rightarrow> bool"
  for start sep item where
  first: "item ts x \<Longrightarrow> g_chain start sep item ts (start x)"
| more: "g_chain start sep item ts acc \<Longrightarrow> sep t = Some f \<Longrightarrow> item us x \<Longrightarrow> g_chain start sep item (ts @ t # us) (f acc x)"

definition comma :: "token \<Rightarrow> ('a list \<Rightarrow> 'a \<Rightarrow> 'a list) option" where
  "comma t = (if t = Op CHR '','' then Some (\<lambda>xs x. xs @ [x]) else None)"

abbreviation g_list :: "(token list \<Rightarrow> 'a \<Rightarrow> bool) \<Rightarrow> token list \<Rightarrow> 'a list \<Rightarrow> bool" where
  "g_list item \<equiv> g_chain (\<lambda>x. [x]) comma item"

lemma g_chain_mono [mono]:
  assumes "item \<le> item'"
  shows "g_chain start sep item \<le> g_chain start sep item'"
proof (rule le_funI, rule le_funI, rule le_boolI)
  fix ts acc
  assume "g_chain start sep item ts acc"
  then show "g_chain start sep item' ts acc"
    by induction (use assms in \<open>auto intro: g_chain.intros simp: le_fun_def\<close>)
qed

subsection \<open>Names, values and columns\<close>

inductive g_table_name :: "token list \<Rightarrow> string \<Rightarrow> bool" where
  "g_table_name [IDENTIFIER n] n"

inductive g_column_name :: "token list \<Rightarrow> string \<Rightarrow> bool" where
  "g_column_name [IDENTIFIER n] n"

inductive g_value :: "token list \<Rightarrow> expr \<Rightarrow> bool" where
  "g_value [VALUE_INT i] (IntLit i)"
| "g_value [VALUE_FLOAT f] (FloatLit f)"
| "g_value [VALUE_STRING x] (StringLit x)"

inductive g_column_reference :: "token list \<Rightarrow> ast_Col \<Rightarrow> bool" where
  "g_table_name ts t \<Longrightarrow> g_column_name us c \<Longrightarrow> g_column_reference (ts @ Op CHR ''.'' # us) (Col t c)"
| "g_column_name us c \<Longrightarrow> g_column_reference us (Col [] c)"

subsection \<open>Predicates\<close>

inductive g_comparison_operator :: "token list \<Rightarrow> ast_CompOp \<Rightarrow> bool" where
  "g_comparison_operator [Op CHR ''=''] Eq"
| "g_comparison_operator [Op CHR ''<''] Lt"
| "g_comparison_operator [Op CHR ''>''] Gt"
| "g_comparison_operator [NEQ] Ne"
| "g_comparison_operator [LEQ] Le"
| "g_comparison_operator [GEQ] Ge"

inductive g_comparison_operand :: "token list \<Rightarrow> expr \<Rightarrow> bool" where
  "g_value ts v \<Longrightarrow> g_comparison_operand ts v"
| "g_column_reference ts c \<Longrightarrow> g_comparison_operand ts (ColExpr c)"

inductive g_comparison :: "token list \<Rightarrow> expr \<Rightarrow> bool" where
  "g_column_reference ts c \<Longrightarrow> g_comparison_operator us oper \<Longrightarrow> g_comparison_operand vs e \<Longrightarrow>
     g_comparison (ts @ us @ vs) (BinaryExpr (Some c) oper (Some e))"

definition and_sep :: "token \<Rightarrow> (expr \<Rightarrow> expr \<Rightarrow> expr) option" where
  "and_sep t = (if t = TK_AND then Some (\<lambda>p c. LogicalExpr And (Some p) (Some c)) else None)"

definition g_predicate :: "token list \<Rightarrow> expr \<Rightarrow> bool" where
  "g_predicate = g_chain (\<lambda>c. c) and_sep g_comparison"

inductive g_optional_where :: "token list \<Rightarrow> expr option \<Rightarrow> bool" where
  "g_optional_where [] None"
| "g_predicate ts p \<Longrightarrow> g_optional_where (WHERE # ts) (Some p)"

subsection \<open>Scalar expressions\<close>

inductive g_scalar_expression :: "token list \<Rightarrow> expr \<Rightarrow> bool" where
  "g_value ts v \<Longrightarrow> g_scalar_expression ts v"
| "g_column_reference ts c \<Longrightarrow> g_scalar_expression ts (ColExpr c)"
| "g_scalar_expression [IDENTIFIER f, Op CHR ''('', Op CHR '')''] (FunctionCallExpr f [] False)"
| "g_list g_scalar_expression ts es \<Longrightarrow>
     g_scalar_expression (IDENTIFIER f # Op CHR ''('' # ts @ [Op CHR '')'']) (FunctionCallExpr f (map Some es) False)"
| "g_scalar_expression [IDENTIFIER f, Op CHR ''('', Op CHR ''*'', Op CHR '')''] (FunctionCallExpr f [Some (StarExpr [])] False)"
| "g_scalar_expression ts e \<Longrightarrow> g_scalar_expression (Op CHR ''('' # ts @ [Op CHR '')'']) e"

inductive g_set_clause :: "token list \<Rightarrow> ast_SetClause \<Rightarrow> bool" where
  "g_column_reference ts c \<Longrightarrow> g_scalar_expression us e \<Longrightarrow>
     g_set_clause (ts @ Op CHR ''='' # us) (AstSetClause (Some c) (Some e))"

subsection \<open>SELECT\<close>

inductive g_select_item :: "token list \<Rightarrow> expr \<Rightarrow> bool" where
  "g_column_reference ts c \<Longrightarrow> g_select_item ts (ColExpr c)"

inductive g_select_list :: "token list \<Rightarrow> expr list \<Rightarrow> bool" where
  "g_select_list [Op CHR ''*''] [StarExpr []]"
| "g_list g_select_item ts es \<Longrightarrow> g_select_list ts es"

definition table_ref :: "string \<Rightarrow> from_node" where
  "table_ref t = TableRef (Inl t) []"

definition join_sep :: "token \<Rightarrow> (from_node \<Rightarrow> string \<Rightarrow> from_node) option" where
  "join_sep t =
     (if t = Op CHR '','' then Some (\<lambda>l r. JoinNode Cross (Some l) (Some (table_ref r)) None)
      else if t = JOIN then Some (\<lambda>l r. JoinNode Inner (Some l) (Some (table_ref r)) None)
      else None)"

definition g_from_tree :: "token list \<Rightarrow> from_node \<Rightarrow> bool" where
  "g_from_tree = g_chain table_ref join_sep g_table_name"

inductive g_optional_order_direction :: "token list \<Rightarrow> OrderByDir \<Rightarrow> bool" where
  "g_optional_order_direction [ASC] Asc"
| "g_optional_order_direction [DESC] Desc"
| "g_optional_order_direction [] Default"

inductive g_order_item :: "token list \<Rightarrow> order_by \<Rightarrow> bool" where
  "g_column_reference ts c \<Longrightarrow> g_optional_order_direction us d \<Longrightarrow> g_order_item (ts @ us) (OrderBy (Some (ColExpr c)) d)"

inductive g_optional_order_by :: "token list \<Rightarrow> order_by list \<Rightarrow> bool" where
  "g_order_item ts it \<Longrightarrow> g_optional_order_by (ORDER # BY # ts) [it]"
| "g_optional_order_by [] []"

subsection \<open>Column definitions\<close>

definition type_len_of :: "DataType \<Rightarrow> int \<Rightarrow> TypeLen" where
  "type_len_of t n = \<lparr>tl_type = t, declared_len = n\<rparr>"

inductive g_column_type :: "token list \<Rightarrow> TypeLen \<Rightarrow> bool" where
  "g_column_type [TK_INT] (type_len_of DInt 4)"
| "g_column_type [TK_CHAR, Op CHR ''('', VALUE_INT n, Op CHR '')''] (type_len_of DString (sint n))"
| "g_column_type [TK_FLOAT] (type_len_of DFloat 4)"

inductive g_column_definition :: "token list \<Rightarrow> ast_ColDef \<Rightarrow> bool" where
  "g_column_name ts n \<Longrightarrow> g_column_type us t \<Longrightarrow> g_column_definition (ts @ us) \<lparr>cd_name = n, type_len = t\<rparr>"

subsection \<open>Statements\<close>

inductive g_transaction_stmt :: "token list \<Rightarrow> stmt \<Rightarrow> bool" where
  "g_transaction_stmt [TXN_BEGIN] TxnBeginStmt"
| "g_transaction_stmt [TXN_COMMIT] TxnCommitStmt"
| "g_transaction_stmt [TXN_ABORT] TxnAbortStmt"
| "g_transaction_stmt [TXN_ROLLBACK] TxnRollbackStmt"

inductive g_utility_stmt :: "token list \<Rightarrow> stmt \<Rightarrow> bool" where
  "g_utility_stmt [SHOW, DATABASE] ShowDatabaseStmt"
| "g_utility_stmt [SHOW, TABLES] ShowTablesStmt"
| "g_utility_stmt [HELP] HelpStmt"
| "g_utility_stmt [SET, IDENTIFIER n, Op CHR ''='', IDENTIFIER v] (SetKnobStmt n v)"

inductive g_ddl_stmt :: "token list \<Rightarrow> stmt \<Rightarrow> bool" where
  "g_table_name ts t \<Longrightarrow> g_list g_column_definition us defs \<Longrightarrow>
     g_ddl_stmt (CREATE # TABLE # ts @ Op CHR ''('' # us @ [Op CHR '')'']) (CreateTableStmt t defs)"
| "g_table_name ts t \<Longrightarrow> g_ddl_stmt (DROP # TABLE # ts) (DropTableStmt t)"
| "g_table_name ts t \<Longrightarrow> g_ddl_stmt (DESC # ts) (DescTableStmt t)"
| "g_table_name ts t \<Longrightarrow> g_list g_column_name us cs \<Longrightarrow>
     g_ddl_stmt (CREATE # INDEX # ts @ Op CHR ''('' # us @ [Op CHR '')'']) (CreateIndexStmt t cs False)"
| "g_table_name ts t \<Longrightarrow> g_list g_column_name us cs \<Longrightarrow>
     g_ddl_stmt (CREATE # UNIQUE # INDEX # ts @ Op CHR ''('' # us @ [Op CHR '')'']) (CreateIndexStmt t cs True)"
| "g_table_name ts t \<Longrightarrow> g_list g_column_name us cs \<Longrightarrow>
     g_ddl_stmt (DROP # INDEX # ts @ Op CHR ''('' # us @ [Op CHR '')'']) (DropIndexStmt t cs)"

inductive g_dml_stmt :: "token list \<Rightarrow> stmt \<Rightarrow> bool" where
  "g_table_name ts t \<Longrightarrow> g_list g_value us vs \<Longrightarrow>
     g_dml_stmt (INSERT # INTO # ts @ VALUES # Op CHR ''('' # us @ [Op CHR '')'']) (InsertStmt t (map Some vs))"
| "g_table_name ts t \<Longrightarrow> g_optional_where us w \<Longrightarrow> g_dml_stmt (DELETE # FROM # ts @ us) (DeleteStmt t w)"
| "g_table_name ts t \<Longrightarrow> g_list g_set_clause us cs \<Longrightarrow> g_optional_where vs w \<Longrightarrow>
     g_dml_stmt (UPDATE # ts @ SET # us @ vs) (UpdateStmt t (map Some cs) w)"
| "g_select_list ts items \<Longrightarrow> g_from_tree us f \<Longrightarrow> g_optional_where vs w \<Longrightarrow> g_optional_order_by xs os \<Longrightarrow>
     g_dml_stmt (SELECT # ts @ FROM # us @ vs @ xs)
       (Select (SelectStmt (map Some items) (Some f) w [] None (map Some os) None))"

inductive g_stmt :: "token list \<Rightarrow> stmt \<Rightarrow> bool" where
  "g_utility_stmt ts s \<Longrightarrow> g_stmt ts s"
| "g_ddl_stmt ts s \<Longrightarrow> g_stmt ts s"
| "g_dml_stmt ts s \<Longrightarrow> g_stmt ts s"
| "g_transaction_stmt ts s \<Longrightarrow> g_stmt ts s"

inductive g_start :: "token list \<Rightarrow> stmt \<Rightarrow> bool" where
  "g_stmt ts s \<Longrightarrow> g_start (ts @ [Op CHR '';'']) s"

section \<open>The parser\<close>

type_synonym 'a parse_result = "token list + ('a \<times> token list)"

definition next_is :: "token \<Rightarrow> token list \<Rightarrow> bool" where
  "next_is t ts \<longleftrightarrow> ts \<noteq> [] \<and> hd ts = t"

definition expect :: "token \<Rightarrow> token list \<Rightarrow> token list + token list" where
  "expect t ts = (if next_is t ts then Inr (tl ts) else Inl ts)"

fun p_name :: "token list \<Rightarrow> string parse_result" where
  "p_name (IDENTIFIER n # r) = Inr (n, r)"
| "p_name ts = Inl ts"

function p_more ::
  "(token \<Rightarrow> ('b \<Rightarrow> 'a \<Rightarrow> 'b) option) \<Rightarrow> (token list \<Rightarrow> 'a parse_result) \<Rightarrow> 'b \<Rightarrow> token list \<Rightarrow> 'b parse_result" where
  "p_more sep p acc [] = Inr (acc, [])"
| "p_more sep p acc (t # r) =
     (case sep t of
        None \<Rightarrow> Inr (acc, t # r)
      | Some f \<Rightarrow>
          (case p r of
             Inl e \<Rightarrow> Inl e
           | Inr (x, r') \<Rightarrow> if length r' \<le> length r then p_more sep p (f acc x) r' else Inl r))"
  by pat_completeness auto
termination
  by (relation "measure (\<lambda>(sep, p, acc, ts). length ts)") auto

definition p_chain ::
  "('a \<Rightarrow> 'b) \<Rightarrow> (token \<Rightarrow> ('b \<Rightarrow> 'a \<Rightarrow> 'b) option) \<Rightarrow> (token list \<Rightarrow> 'a parse_result) \<Rightarrow> token list \<Rightarrow> 'b parse_result" where
  "p_chain start sep p ts = bindE (p ts) (\<lambda>(x, r). p_more sep p (start x) r)"

abbreviation p_list :: "(token list \<Rightarrow> 'a parse_result) \<Rightarrow> token list \<Rightarrow> 'a list parse_result" where
  "p_list p \<equiv> p_chain (\<lambda>x. [x]) comma p"

fun p_value :: "token list \<Rightarrow> expr parse_result" where
  "p_value (VALUE_INT i # r) = Inr (IntLit i, r)"
| "p_value (VALUE_FLOAT f # r) = Inr (FloatLit f, r)"
| "p_value (VALUE_STRING x # r) = Inr (StringLit x, r)"
| "p_value ts = Inl ts"

definition p_column_reference :: "token list \<Rightarrow> ast_Col parse_result" where
  "p_column_reference ts =
     bindE (p_name ts) (\<lambda>(t, r).
       if next_is (Op CHR ''.'') r then bindE (p_name (tl r)) (\<lambda>(c, r'). Inr (Col t c, r'))
       else Inr (Col [] t, r))"

fun p_comparison_operator :: "token list \<Rightarrow> ast_CompOp parse_result" where
  "p_comparison_operator (Op c # r) =
     (if c = CHR ''='' then Inr (Eq, r) else if c = CHR ''<'' then Inr (Lt, r)
      else if c = CHR ''>'' then Inr (Gt, r) else Inl (Op c # r))"
| "p_comparison_operator (NEQ # r) = Inr (Ne, r)"
| "p_comparison_operator (LEQ # r) = Inr (Le, r)"
| "p_comparison_operator (GEQ # r) = Inr (Ge, r)"
| "p_comparison_operator ts = Inl ts"

definition p_column_expr :: "token list \<Rightarrow> expr parse_result" where
  "p_column_expr ts = bindE (p_column_reference ts) (\<lambda>(c, r). Inr (ColExpr c, r))"

definition p_comparison_operand :: "token list \<Rightarrow> expr parse_result" where
  "p_comparison_operand ts = (case p_value ts of Inr q \<Rightarrow> Inr q | Inl e \<Rightarrow> p_column_expr ts)"

definition p_comparison :: "token list \<Rightarrow> expr parse_result" where
  "p_comparison ts =
     bindE (p_column_reference ts) (\<lambda>(c, r1).
     bindE (p_comparison_operator r1) (\<lambda>(oper, r2).
     bindE (p_comparison_operand r2) (\<lambda>(e, r3). Inr (BinaryExpr (Some c) oper (Some e), r3))))"

definition p_predicate :: "token list \<Rightarrow> expr parse_result" where
  "p_predicate = p_chain (\<lambda>c. c) and_sep p_comparison"

definition p_optional_where :: "token list \<Rightarrow> expr option parse_result" where
  "p_optional_where ts =
     (if next_is WHERE ts then bindE (p_predicate (tl ts)) (\<lambda>(p, r). Inr (Some p, r)) else Inr (None, ts))"

text \<open>The fuel bounds the nesting of parentheses; the number of tokens is always enough.\<close>

primrec p_scalar :: "nat \<Rightarrow> token list \<Rightarrow> expr parse_result" where
  "p_scalar 0 = (\<lambda>ts. Inl ts)"
| "p_scalar (Suc n) = (\<lambda>ts.
     case p_value ts of
       Inr q \<Rightarrow> Inr q
     | Inl e \<Rightarrow>
         if next_is (Op CHR ''('') ts
         then bindE (p_scalar n (tl ts)) (\<lambda>(e, r). bindE (expect (Op CHR '')'') r) (\<lambda>r'. Inr (e, r')))
         else bindE (p_name ts) (\<lambda>(f, r).
           if \<not> next_is (Op CHR ''('') r then p_column_expr ts
           else if next_is (Op CHR '')'') (tl r) then Inr (FunctionCallExpr f [] False, tl (tl r))
           else if next_is (Op CHR ''*'') (tl r)
           then bindE (expect (Op CHR '')'') (tl (tl r))) (\<lambda>r'. Inr (FunctionCallExpr f [Some (StarExpr [])] False, r'))
           else bindE (p_list (p_scalar n) (tl r)) (\<lambda>(es, r1).
             bindE (expect (Op CHR '')'') r1) (\<lambda>r2. Inr (FunctionCallExpr f (map Some es) False, r2)))))"

definition p_scalar_expression :: "token list \<Rightarrow> expr parse_result" where
  "p_scalar_expression ts = p_scalar (Suc (length ts)) ts"

definition p_set_clause :: "token list \<Rightarrow> ast_SetClause parse_result" where
  "p_set_clause ts =
     bindE (p_column_reference ts) (\<lambda>(c, r1).
     bindE (expect (Op CHR ''='') r1) (\<lambda>r2.
     bindE (p_scalar_expression r2) (\<lambda>(e, r3). Inr (AstSetClause (Some c) (Some e), r3))))"

definition p_select_list :: "token list \<Rightarrow> expr list parse_result" where
  "p_select_list ts = (if next_is (Op CHR ''*'') ts then Inr ([StarExpr []], tl ts) else p_list p_column_expr ts)"

definition p_from_tree :: "token list \<Rightarrow> from_node parse_result" where
  "p_from_tree = p_chain table_ref join_sep p_name"

definition p_optional_order_direction :: "token list \<Rightarrow> OrderByDir parse_result" where
  "p_optional_order_direction ts =
     (if next_is ASC ts then Inr (Asc, tl ts) else if next_is DESC ts then Inr (Desc, tl ts) else Inr (Default, ts))"

definition p_order_item :: "token list \<Rightarrow> order_by parse_result" where
  "p_order_item ts =
     bindE (p_column_reference ts) (\<lambda>(c, r1).
     bindE (p_optional_order_direction r1) (\<lambda>(d, r2). Inr (OrderBy (Some (ColExpr c)) d, r2)))"

definition p_optional_order_by :: "token list \<Rightarrow> order_by list parse_result" where
  "p_optional_order_by ts =
     (if next_is ORDER ts
      then bindE (expect BY (tl ts)) (\<lambda>r1. bindE (p_order_item r1) (\<lambda>(it, r2). Inr ([it], r2)))
      else Inr ([], ts))"

fun p_length :: "token list \<Rightarrow> i32 parse_result" where
  "p_length (VALUE_INT n # r) = Inr (n, r)"
| "p_length ts = Inl ts"

definition p_column_type :: "token list \<Rightarrow> TypeLen parse_result" where
  "p_column_type ts =
     (if next_is TK_INT ts then Inr (type_len_of DInt 4, tl ts)
      else if next_is TK_FLOAT ts then Inr (type_len_of DFloat 4, tl ts)
      else bindE (expect TK_CHAR ts) (\<lambda>r1.
           bindE (expect (Op CHR ''('') r1) (\<lambda>r2.
           bindE (p_length r2) (\<lambda>(n, r3).
           bindE (expect (Op CHR '')'') r3) (\<lambda>r4. Inr (type_len_of DString (sint n), r4))))))"

definition p_column_definition :: "token list \<Rightarrow> ast_ColDef parse_result" where
  "p_column_definition ts =
     bindE (p_name ts) (\<lambda>(n, r1). bindE (p_column_type r1) (\<lambda>(t, r2). Inr (\<lparr>cd_name = n, type_len = t\<rparr>, r2)))"

text \<open>\<open>( list )\<close>\<close>

definition p_parens :: "(token list \<Rightarrow> 'a parse_result) \<Rightarrow> token list \<Rightarrow> 'a parse_result" where
  "p_parens p ts =
     bindE (expect (Op CHR ''('') ts) (\<lambda>r1. bindE (p r1) (\<lambda>(x, r2). bindE (expect (Op CHR '')'') r2) (\<lambda>r3. Inr (x, r3))))"

definition p_named_list :: "(token list \<Rightarrow> 'a parse_result) \<Rightarrow> (string \<Rightarrow> 'a list \<Rightarrow> stmt) \<Rightarrow> token list \<Rightarrow> stmt parse_result" where
  "p_named_list p mk ts =
     bindE (p_name ts) (\<lambda>(t, r1). bindE (p_parens (p_list p) r1) (\<lambda>(xs, r2). Inr (mk t xs, r2)))"

fun p_stmt :: "token list \<Rightarrow> stmt parse_result" where
  "p_stmt (TXN_BEGIN # r) = Inr (TxnBeginStmt, r)"
| "p_stmt (TXN_COMMIT # r) = Inr (TxnCommitStmt, r)"
| "p_stmt (TXN_ABORT # r) = Inr (TxnAbortStmt, r)"
| "p_stmt (TXN_ROLLBACK # r) = Inr (TxnRollbackStmt, r)"
| "p_stmt (SHOW # r) =
     (if next_is DATABASE r then Inr (ShowDatabaseStmt, tl r) else bindE (expect TABLES r) (\<lambda>r1. Inr (ShowTablesStmt, r1)))"
| "p_stmt (HELP # r) = Inr (HelpStmt, r)"
| "p_stmt (SET # r) =
     bindE (p_name r) (\<lambda>(n, r1). bindE (expect (Op CHR ''='') r1) (\<lambda>r2. bindE (p_name r2) (\<lambda>(v, r3). Inr (SetKnobStmt n v, r3))))"
| "p_stmt (CREATE # r) =
     (if next_is TABLE r then p_named_list p_column_definition CreateTableStmt (tl r)
      else if next_is UNIQUE r then bindE (expect INDEX (tl r)) (p_named_list p_name (\<lambda>t cs. CreateIndexStmt t cs True))
      else bindE (expect INDEX r) (p_named_list p_name (\<lambda>t cs. CreateIndexStmt t cs False)))"
| "p_stmt (DROP # r) =
     (if next_is TABLE r then bindE (p_name (tl r)) (\<lambda>(t, r1). Inr (DropTableStmt t, r1))
      else bindE (expect INDEX r) (p_named_list p_name DropIndexStmt))"
| "p_stmt (DESC # r) = bindE (p_name r) (\<lambda>(t, r1). Inr (DescTableStmt t, r1))"
| "p_stmt (INSERT # r) =
     bindE (expect INTO r) (\<lambda>r1. bindE (p_name r1) (\<lambda>(t, r2). bindE (expect VALUES r2) (\<lambda>r3.
     bindE (p_parens (p_list p_value) r3) (\<lambda>(vs, r4). Inr (InsertStmt t (map Some vs), r4)))))"
| "p_stmt (DELETE # r) =
     bindE (expect FROM r) (\<lambda>r1. bindE (p_name r1) (\<lambda>(t, r2).
     bindE (p_optional_where r2) (\<lambda>(w, r3). Inr (DeleteStmt t w, r3))))"
| "p_stmt (UPDATE # r) =
     bindE (p_name r) (\<lambda>(t, r1). bindE (expect SET r1) (\<lambda>r2. bindE (p_list p_set_clause r2) (\<lambda>(cs, r3).
     bindE (p_optional_where r3) (\<lambda>(w, r4). Inr (UpdateStmt t (map Some cs) w, r4)))))"
| "p_stmt (SELECT # r) =
     bindE (p_select_list r) (\<lambda>(items, r1). bindE (expect FROM r1) (\<lambda>r2. bindE (p_from_tree r2) (\<lambda>(f, r3).
     bindE (p_optional_where r3) (\<lambda>(w, r4). bindE (p_optional_order_by r4) (\<lambda>(os, r5).
       Inr (Select (SelectStmt (map Some items) (Some f) w [] None (map Some os) None), r5))))))"
| "p_stmt ts = Inl ts"

text \<open>
  \<^verbatim>\<open>yyparse\<close>: the statement the action of \<open>start\<close> stores, and the input at the offending token. The reduction to \<open>start\<close>
  needs no lookahead, so the statement is stored even when tokens follow the semicolon.
\<close>

definition yyparse :: "token list \<Rightarrow> stmt option \<times> token list option" where
  "yyparse ts =
     (case bindE (p_stmt ts) (\<lambda>(s, r). bindE (expect (Op CHR '';'') r) (\<lambda>r'. Inr (s, r'))) of
        Inl e \<Rightarrow> (None, Some e)
      | Inr (s, r) \<Rightarrow> (Some s, if r = [] then None else Some r))"

section \<open>What a parser promises\<close>

definition follows :: "(token \<Rightarrow> bool) \<Rightarrow> token list \<Rightarrow> bool" where
  "follows clash rest \<longleftrightarrow> rest = [] \<or> \<not> clash (hd rest)"

lemma follows_simps [simp]: "follows clash []" "follows clash (t # r) \<longleftrightarrow> \<not> clash t"
  by (simp_all add: follows_def)

lemma follows_none [simp]: "follows (\<lambda>t. False) rest"
  by (simp add: follows_def)

lemma follows_mono: "follows c rest \<Longrightarrow> (\<And>t. d t \<Longrightarrow> c t) \<Longrightarrow> follows d rest"
  by (auto simp: follows_def)

lemma next_is_simps [simp]: "\<not> next_is t []" "next_is t (u # r) \<longleftrightarrow> u = t"
  by (auto simp: next_is_def)

lemma next_is_follows: "follows clash rest \<Longrightarrow> clash t \<Longrightarrow> \<not> next_is t rest"
  by (auto simp: follows_def next_is_def)

lemma expect_Cons [simp]: "expect t (t # r) = Inr r"
  by (simp add: expect_def)

lemma expect_Inr: "expect t ts = Inr r \<longleftrightarrow> ts = t # r"
  by (cases ts) (auto simp: expect_def)

lemma next_isD: "next_is t ts \<Longrightarrow> ts = t # tl ts"
  by (auto simp: next_is_def)

locale sound_parser =
  fixes derives :: "token list \<Rightarrow> 'a \<Rightarrow> bool" and parse :: "token list \<Rightarrow> 'a parse_result"
  assumes sound: "parse ts = Inr (x, rest) \<Longrightarrow> \<exists>us. ts = us @ rest \<and> derives us x"
begin

lemma soundE:
  assumes "parse ts = Inr (x, rest)"
  obtains us where "ts = us @ rest" "derives us x"
  using sound [OF assms] by blast

lemma more_sound:
  "p_more sep parse acc ts = Inr (acc', rest) \<Longrightarrow> g_chain start sep derives us acc \<Longrightarrow>
     \<exists>vs. ts = vs @ rest \<and> g_chain start sep derives (us @ vs) acc'"
proof (induction ts arbitrary: acc us rule: length_induct)
  case (1 ts)
  show ?case
  proof (cases ts)
    case Nil
    then show ?thesis using "1.prems" by auto
  next
    case (Cons t r)
    show ?thesis
    proof (cases "sep t")
      case None
      then show ?thesis using "1.prems" Cons by auto
    next
      case (Some f)
      obtain x r' where r': "parse r = Inr (x, r')" "length r' \<le> length r" "p_more sep parse (f acc x) r' = Inr (acc', rest)"
        using "1.prems"(1) Cons Some by (auto split: sum.splits if_splits)
      obtain vs where vs: "r = vs @ r'" "derives vs x" using r'(1) by (rule soundE)
      have c: "g_chain start sep derives (us @ t # vs) (f acc x)" using g_chain.more [OF "1.prems"(2) Some vs(2)] .
      have "length r' < length ts" using r'(2) Cons by simp
      then obtain ws where "r' = ws @ rest" "g_chain start sep derives ((us @ t # vs) @ ws) acc'"
        using "1.IH" [rule_format, OF _ r'(3) c] by blast
      then show ?thesis using Cons vs(1) by (intro exI [of _ "t # vs @ ws"]) simp
    qed
  qed
qed

lemma chain_sound: "p_chain start sep parse ts = Inr (acc, rest) \<Longrightarrow> \<exists>us. ts = us @ rest \<and> g_chain start sep derives us acc"
proof -
  assume "p_chain start sep parse ts = Inr (acc, rest)"
  then obtain x r where r: "parse ts = Inr (x, r)" "p_more sep parse (start x) r = Inr (acc, rest)"
    by (auto simp: p_chain_def)
  obtain us where us: "ts = us @ r" "derives us x" using r(1) by (rule soundE)
  have "g_chain start sep derives us (start x)" using us(2) by (rule g_chain.first)
  from more_sound [OF r(2) this] show ?thesis using us(1) by auto
qed

end

locale complete_parser =
  fixes derives :: "token list \<Rightarrow> 'a \<Rightarrow> bool" and parse :: "token list \<Rightarrow> 'a parse_result" and clash :: "token \<Rightarrow> bool"
  assumes complete: "derives us x \<Longrightarrow> follows clash rest \<Longrightarrow> parse (us @ rest) = Inr (x, rest)"
begin

lemma chain_append:
  assumes "g_chain start sep derives ts acc" and "\<And>t. sep t \<noteq> None \<Longrightarrow> \<not> clash t" and "follows clash rest"
  shows "p_chain start sep parse (ts @ rest) = p_more sep parse acc rest"
  using assms(1,3)
proof (induction arbitrary: rest)
  case (first ts x)
  then show ?case using complete by (simp add: p_chain_def)
next
  case (more ts acc t f us x)
  then have "follows clash (t # us @ rest)" using assms(2) [of t] by simp
  then show ?case using more complete [OF more.hyps(3)] by simp
qed

lemma chain_complete:
  assumes "g_chain start sep derives ts acc" and "\<And>t. sep t \<noteq> None \<Longrightarrow> \<not> clash t"
    and "follows (\<lambda>t. clash t \<or> sep t \<noteq> None) rest"
  shows "p_chain start sep parse (ts @ rest) = Inr (acc, rest)"
  using chain_append [OF assms(1,2), of rest] assms(3) by (cases rest) auto

end

locale recogniser = sound_parser derives parse + complete_parser derives parse clash
  for derives :: "token list \<Rightarrow> 'a \<Rightarrow> bool" and parse :: "token list \<Rightarrow> 'a parse_result" and clash :: "token \<Rightarrow> bool"
begin

lemma unambiguous: "derives us x \<Longrightarrow> derives us y \<Longrightarrow> x = y"
  using complete [of us x "[]"] complete [of us y "[]"] by simp

end

locale separated = recogniser derives parse clash
  for derives :: "token list \<Rightarrow> 'a \<Rightarrow> bool" and parse :: "token list \<Rightarrow> 'a parse_result" and clash :: "token \<Rightarrow> bool" +
  fixes start :: "'a \<Rightarrow> 'b" and sep :: "token \<Rightarrow> ('b \<Rightarrow> 'a \<Rightarrow> 'b) option"
  assumes sep_follows: "sep t \<noteq> None \<Longrightarrow> \<not> clash t"

sublocale separated \<subseteq> chain: recogniser "g_chain start sep derives" "p_chain start sep parse" "\<lambda>t. clash t \<or> sep t \<noteq> None"
  by unfold_locales (rule chain_sound, assumption, rule chain_complete, assumption, rule sep_follows, assumption+)


section \<open>The nonterminals\<close>

inductive_simps g_name_simps [simp]: "g_table_name ts n" "g_column_name ts n"

inductive_cases g_valueE: "g_value ts v"
inductive_cases g_columnE: "g_column_reference ts c"
inductive_cases g_operandE: "g_comparison_operand ts e"
inductive_cases g_comparisonE: "g_comparison ts e"
inductive_cases g_whereE: "g_optional_where ts w"
inductive_cases g_set_clauseE: "g_set_clause ts c"
inductive_cases g_select_listE: "g_select_list ts es"
inductive_cases g_order_itemE: "g_order_item ts it"
inductive_cases g_order_byE: "g_optional_order_by ts os"
inductive_cases g_coldefE: "g_column_definition ts d"

abbreviation no_token :: "token \<Rightarrow> bool" where
  "no_token t \<equiv> False"

definition is_dot :: "token \<Rightarrow> bool" where
  "is_dot t \<longleftrightarrow> t = Op CHR ''.''"

definition is_dot_paren :: "token \<Rightarrow> bool" where
  "is_dot_paren t \<longleftrightarrow> t = Op CHR ''.'' \<or> t = Op CHR ''(''"

lemma p_name_Inr: "p_name ts = Inr (n, r) \<longleftrightarrow> ts = IDENTIFIER n # r"
  by (cases ts rule: p_name.cases) auto

lemma p_value_Inr: "p_value ts = Inr (v, r) \<Longrightarrow> \<exists>t. ts = t # r \<and> g_value [t] v"
  by (cases ts rule: p_value.cases) (auto intro: g_value.intros)

interpretation table_name: recogniser g_table_name p_name no_token
  by unfold_locales (auto simp: p_name_Inr)

interpretation column_name: recogniser g_column_name p_name no_token
  by unfold_locales (auto simp: p_name_Inr)

interpretation literal: recogniser g_value p_value no_token
  by unfold_locales (auto dest: p_value_Inr elim: g_valueE)

interpretation column_reference: recogniser g_column_reference p_column_reference is_dot
proof
  fix ts c rest
  assume "p_column_reference ts = Inr (c, rest)"
  then show "\<exists>us. ts = us @ rest \<and> g_column_reference us c"
    using g_column_reference.intros(1) [of "[IDENTIFIER (ast_tab_name c)]"] g_column_reference.intros(2) [of "[IDENTIFIER (ast_col_name c)]"]
    by (auto simp: p_column_reference_def p_name_Inr next_is_def split: if_splits) (metis append_Cons append_Nil list.exhaust_sel)+
next
  fix us c rest
  assume "g_column_reference us c" "follows is_dot rest"
  then show "p_column_reference (us @ rest) = Inr (c, rest)"
    using next_is_follows [of is_dot rest "Op CHR ''.''"]
    by (auto simp: p_column_reference_def is_dot_def simp del: bindE_Inr_iff elim!: g_columnE)
qed


interpretation select_item: recogniser g_select_item p_column_expr is_dot
proof
  fix ts e rest
  assume "p_column_expr ts = Inr (e, rest)"
  then show "\<exists>us. ts = us @ rest \<and> g_select_item us e"
    by (auto simp: p_column_expr_def intro: g_select_item.intros dest!: column_reference.sound)
next
  fix us e rest
  assume "g_select_item us e" "follows is_dot rest"
  then show "p_column_expr (us @ rest) = Inr (e, rest)"
    by (auto simp: p_column_expr_def column_reference.complete elim!: g_select_item.cases)
qed

lemma g_value_not_ident: "g_value us v \<Longrightarrow> p_value (us @ rest) = Inr (v, rest)"
  using literal.complete [of us v rest] by (simp add: follows_def)

lemma p_value_ident [simp]: "p_value (IDENTIFIER n # r) = Inl (IDENTIFIER n # r)" "p_value (Op c # r) = Inl (Op c # r)"
  by simp_all

lemma g_column_front: "g_column_reference us c \<Longrightarrow> \<exists>n r. us = IDENTIFIER n # r"
  by (auto elim: g_columnE)

lemma p_column_not_value: "g_column_reference us c \<Longrightarrow> \<exists>e. p_value (us @ rest) = Inl e"
  using g_column_front [of us c] by auto

interpretation operand: recogniser g_comparison_operand p_comparison_operand is_dot
proof
  fix ts e rest
  assume a: "p_comparison_operand ts = Inr (e, rest)"
  show "\<exists>us. ts = us @ rest \<and> g_comparison_operand us e"
  proof (cases "p_value ts")
    case (Inr q)
    then show ?thesis using a literal.sound [of ts e rest] by (auto simp: p_comparison_operand_def intro: g_comparison_operand.intros)
  next
    case (Inl l)
    then have "p_column_expr ts = Inr (e, rest)" using a by (simp add: p_comparison_operand_def)
    then show ?thesis by (auto dest!: select_item.sound elim!: g_select_item.cases intro: g_comparison_operand.intros)
  qed
next
  fix us e rest
  assume a: "g_comparison_operand us e" "follows is_dot rest"
  from a(1) show "p_comparison_operand (us @ rest) = Inr (e, rest)"
  proof cases
    case 1
    then show ?thesis by (simp add: p_comparison_operand_def g_value_not_ident)
  next
    case (2 c)
    then obtain l where "p_value (us @ rest) = Inl l" using p_column_not_value by blast
    then show ?thesis using select_item.complete [OF g_select_item.intros [OF 2(2)] a(2)] 2(1) by (simp add: p_comparison_operand_def)
  qed
qed

interpretation comparison_operator: recogniser g_comparison_operator p_comparison_operator no_token
proof
  fix ts x rest
  assume "p_comparison_operator ts = Inr (x, rest)"
  then show "\<exists>us. ts = us @ rest \<and> g_comparison_operator us x"
    by (cases ts rule: p_comparison_operator.cases) (auto split: if_splits intro: g_comparison_operator.intros)
qed (auto elim: g_comparison_operator.cases)

lemma operator_not_dot: "g_comparison_operator us x \<Longrightarrow> follows is_dot (us @ r)"
  by (auto simp: is_dot_def elim: g_comparison_operator.cases)

interpretation comparison: recogniser g_comparison p_comparison is_dot
proof
  fix ts e rest
  assume "p_comparison ts = Inr (e, rest)"
  then show "\<exists>us. ts = us @ rest \<and> g_comparison us e"
    by (fastforce simp: p_comparison_def dest!: column_reference.sound comparison_operator.sound operand.sound intro: g_comparison.intros)
next
  fix us e rest
  assume "g_comparison us e" "follows is_dot rest"
  then show "p_comparison (us @ rest) = Inr (e, rest)"
    by (auto simp: p_comparison_def column_reference.complete comparison_operator.complete operand.complete operator_not_dot
        simp del: bindE_Inr_iff elim!: g_comparisonE)
qed

interpretation predicate: separated g_comparison p_comparison is_dot "\<lambda>c. c" and_sep
  by unfold_locales (simp add: and_sep_def is_dot_def split: if_splits)


interpretation where_clause: recogniser g_optional_where p_optional_where "\<lambda>t. (is_dot t \<or> and_sep t \<noteq> None) \<or> t = WHERE"
proof
  fix ts w rest
  assume a: "p_optional_where ts = Inr (w, rest)"
  show "\<exists>us. ts = us @ rest \<and> g_optional_where us w"
  proof (cases "next_is WHERE ts")
    case True
    obtain p where p: "p_predicate (tl ts) = Inr (p, rest)" "w = Some p" using a True by (auto simp: p_optional_where_def)
    obtain us where "tl ts = us @ rest" "g_predicate us p"
      using predicate.chain.sound p(1) by (force simp: p_predicate_def g_predicate_def)
    then have "ts = (WHERE # us) @ rest \<and> g_optional_where (WHERE # us) w"
      using next_isD [OF True] p(2) by (simp add: g_optional_where.intros)
    then show ?thesis by blast
  next
    case False
    then show ?thesis using a by (auto simp: p_optional_where_def intro: g_optional_where.intros)
  qed
next
  fix us w rest
  assume a: "g_optional_where us w" "follows (\<lambda>t. (is_dot t \<or> and_sep t \<noteq> None) \<or> t = WHERE) rest"
  from a(1) show "p_optional_where (us @ rest) = Inr (w, rest)"
  proof cases
    case 1
    then show ?thesis using next_is_follows [OF a(2), of WHERE] by (simp add: p_optional_where_def)
  next
    case (2 ts p)
    have "p_predicate (ts @ rest) = Inr (p, rest)"
      using predicate.chain.complete [of ts p rest] 2(3) a(2) by (auto simp: p_predicate_def g_predicate_def follows_def)
    then show ?thesis using 2 by (simp add: p_optional_where_def)
  qed
qed

subsection \<open>Scalar expressions\<close>

lemma g_chain_front: "g_chain start sep item ts acc \<Longrightarrow> \<exists>us x vs. ts = us @ vs \<and> item us x"
  by (induction rule: g_chain.induct) (auto, metis append_assoc)

lemma g_chain_bounded:
  "g_chain start sep item ts acc \<Longrightarrow> length ts \<le> m \<Longrightarrow> g_chain start sep (\<lambda>us x. item us x \<and> length us \<le> m) ts acc"
  by (induction rule: g_chain.induct) (auto intro: g_chain.intros)

lemma g_scalar_front:
  "g_scalar_expression us e \<Longrightarrow> us \<noteq> [] \<and> hd us \<noteq> Op CHR '')'' \<and> hd us \<noteq> Op CHR ''*''"
  by (cases rule: g_scalar_expression.cases) (auto elim!: g_valueE dest!: g_column_front)

lemma comma_some: "comma t \<noteq> None \<longleftrightarrow> t = Op CHR '',''"
  by (simp add: comma_def)

lemma p_scalar_sound: "sound_parser g_scalar_expression (p_scalar n)"
proof (induction n)
  case 0
  show ?case by unfold_locales simp
next
  case (Suc n)
  show ?case
  proof
    fix ts e rest
    assume a: "p_scalar (Suc n) ts = Inr (e, rest)"
    show "\<exists>us. ts = us @ rest \<and> g_scalar_expression us e"
    proof (cases "p_value ts")
      case (Inr q)
      then show ?thesis using a literal.sound [of ts e rest] by (auto intro: g_scalar_expression.intros(1))
    next
      case (Inl l)
      show ?thesis
      proof (cases "next_is (Op CHR ''('') ts")
        case True
        then obtain r where r: "p_scalar n (tl ts) = Inr (e, r)" "r = Op CHR '')'' # rest" using a Inl by (auto simp: expect_Inr)
        obtain us where us: "tl ts = us @ r" "g_scalar_expression us e" using sound_parser.sound [OF Suc r(1)] by blast
        have "ts = (Op CHR ''('' # us @ [Op CHR '')'']) @ rest" using next_isD [OF True] us(1) r(2) by simp
        then show ?thesis using g_scalar_expression.intros(6) [OF us(2)] by blast
      next
        case no_paren: False
        obtain f r where f: "ts = IDENTIFIER f # r" using a Inl no_paren by (auto simp: p_name_Inr)
        show ?thesis
        proof (cases "next_is (Op CHR ''('') r")
          case False
          then have "p_column_expr ts = Inr (e, rest)" using a Inl no_paren f by simp
          then show ?thesis by (auto dest!: select_item.sound elim!: g_select_item.cases intro: g_scalar_expression.intros(2))
        next
          case True
          then obtain r1 where r1: "r = Op CHR ''('' # r1" using next_isD by blast
          consider "next_is (Op CHR '')'') r1" | "\<not> next_is (Op CHR '')'') r1" "next_is (Op CHR ''*'') r1"
            | "\<not> next_is (Op CHR '')'') r1" "\<not> next_is (Op CHR ''*'') r1" by blast
          then show ?thesis
          proof cases
            case 1
            then have "ts = [IDENTIFIER f, Op CHR ''('', Op CHR '')''] @ rest \<and> e = FunctionCallExpr f [] False"
              using a f r1 next_isD [OF 1] by simp
            then show ?thesis using g_scalar_expression.intros(3) by blast
          next
            case 2
            then have "ts = [IDENTIFIER f, Op CHR ''('', Op CHR ''*'', Op CHR '')''] @ rest \<and> e = FunctionCallExpr f [Some (StarExpr [])] False"
              using a f r1 next_isD [OF 2(2)] by (auto simp: expect_Inr)
            then show ?thesis using g_scalar_expression.intros(5) by blast
          next
            case 3
            then obtain es where es: "p_list (p_scalar n) r1 = Inr (es, Op CHR '')'' # rest)" "e = FunctionCallExpr f (map Some es) False"
              using a f r1 by (auto simp: expect_Inr)
            obtain us where us: "r1 = us @ Op CHR '')'' # rest" "g_list g_scalar_expression us es"
              using sound_parser.chain_sound [OF Suc es(1)] by blast
            then have "ts = (IDENTIFIER f # Op CHR ''('' # us @ [Op CHR '')'']) @ rest" using f r1 by simp
            then show ?thesis using g_scalar_expression.intros(4) [OF us(2), of f] es(2) by blast
          qed
        qed
      qed
    qed
  qed
qed

definition p_completes :: "token list \<Rightarrow> expr \<Rightarrow> bool" where
  "p_completes us e \<longleftrightarrow> (\<forall>n rest. length us \<le> n \<longrightarrow> follows is_dot_paren rest \<longrightarrow> p_scalar n (us @ rest) = Inr (e, rest))"

lemma p_completesI:
  assumes "us \<noteq> []"
    and "\<And>m rest. length us \<le> Suc m \<Longrightarrow> follows is_dot_paren rest \<Longrightarrow> p_scalar (Suc m) (us @ rest) = Inr (e, rest)"
  shows "p_completes us e"
  unfolding p_completes_def
proof (intro allI impI)
  fix n rest assume "length us \<le> n" "follows is_dot_paren rest"
  then show "p_scalar n (us @ rest) = Inr (e, rest)" using assms by (cases n) auto
qed

lemma p_completes_list:
  assumes "g_list (\<lambda>us e. g_scalar_expression us e \<and> p_completes us e) ts es" and "length ts \<le> m"
  shows "p_list (p_scalar m) (ts @ Op CHR '')'' # rest) = Inr (es, Op CHR '')'' # rest)"
proof -
  have "complete_parser (\<lambda>us e. (g_scalar_expression us e \<and> p_completes us e) \<and> length us \<le> m) (p_scalar m) is_dot_paren"
    by unfold_locales (simp add: p_completes_def)
  from complete_parser.chain_complete [OF this g_chain_bounded [OF assms], of "Op CHR '')'' # rest"] show ?thesis
    unfolding comma_some by (simp add: is_dot_paren_def)
qed

lemma p_scalar_complete: "g_scalar_expression us e \<Longrightarrow> p_completes us e"
proof (induction rule: g_scalar_expression.induct)
  case (1 ts v)
  then show ?case by (intro p_completesI) (auto simp: g_value_not_ident elim: g_valueE)
next
  case (2 ts c)
  show ?case
  proof (rule p_completesI)
    fix m rest assume f: "follows is_dot_paren rest"
    have "p_column_expr (ts @ rest) = Inr (ColExpr c, rest)"
      using select_item.complete [OF g_select_item.intros [OF 2]] follows_mono [OF f, of is_dot]
      by (simp add: is_dot_def is_dot_paren_def)
    then show "p_scalar (Suc m) (ts @ rest) = Inr (ColExpr c, rest)"
      using 2 next_is_follows [OF f, of "Op CHR ''(''"] by (auto simp: is_dot_paren_def simp del: bindE_Inr_iff elim!: g_columnE)
  qed (use 2 g_column_front in auto)
next
  case (4 ts es f)
  then have g: "g_list (\<lambda>us e. g_scalar_expression us e \<and> p_completes us e) ts es" by simp
  obtain us e vs where us: "ts = us @ vs" "g_scalar_expression us e" using g_chain_front [OF g] by blast
  have "\<not> next_is (Op CHR '')'') (ts @ r) \<and> \<not> next_is (Op CHR ''*'') (ts @ r)" for r
    using g_scalar_front [OF us(2)] us(1) by (cases us) auto
  then show ?case
    by (intro p_completesI) (simp_all add: p_completes_list [OF g] del: bindE_Inr_iff)
next
  case (6 ts e)
  then show ?case
    by (intro p_completesI) (auto simp: p_completes_def is_dot_paren_def simp del: bindE_Inr_iff)
qed (rule p_completesI; simp del: bindE_Inr_iff)+

interpretation scalar_expression: recogniser g_scalar_expression p_scalar_expression is_dot_paren
proof
  fix ts e rest
  assume "p_scalar_expression ts = Inr (e, rest)"
  then show "\<exists>us. ts = us @ rest \<and> g_scalar_expression us e"
    unfolding p_scalar_expression_def by (rule sound_parser.sound [OF p_scalar_sound])
next
  fix us e rest
  assume "g_scalar_expression us e" "follows is_dot_paren rest"
  then show "p_scalar_expression (us @ rest) = Inr (e, rest)"
    using p_scalar_complete by (auto simp: p_scalar_expression_def p_completes_def simp del: p_scalar.simps)
qed

interpretation set_clause: recogniser g_set_clause p_set_clause is_dot_paren
proof
  fix ts c rest
  assume "p_set_clause ts = Inr (c, rest)"
  then show "\<exists>us. ts = us @ rest \<and> g_set_clause us c"
    by (fastforce simp: p_set_clause_def expect_Inr dest!: column_reference.sound scalar_expression.sound intro: g_set_clause.intros)
next
  fix us c rest
  assume "g_set_clause us c" "follows is_dot_paren rest"
  then show "p_set_clause (us @ rest) = Inr (c, rest)"
    by (auto simp: p_set_clause_def column_reference.complete scalar_expression.complete is_dot_def simp del: bindE_Inr_iff
        elim!: g_set_clauseE)
qed

interpretation set_clauses: separated g_set_clause p_set_clause is_dot_paren "\<lambda>x. [x]" comma
  by unfold_locales (auto simp: comma_def is_dot_paren_def split: if_splits)

interpretation select_items: separated g_select_item p_column_expr is_dot "\<lambda>x. [x]" comma
  by unfold_locales (auto simp: comma_def is_dot_def split: if_splits)

interpretation literals: separated g_value p_value no_token "\<lambda>x. [x]" comma
  by unfold_locales simp

interpretation column_names: separated g_column_name p_name no_token "\<lambda>x. [x]" comma
  by unfold_locales simp

interpretation from_tree: separated g_table_name p_name no_token table_ref join_sep
  by unfold_locales simp

lemma p_length_Inr: "p_length ts = Inr (n, r) \<longleftrightarrow> ts = VALUE_INT n # r"
  by (cases ts rule: p_length.cases) auto

interpretation column_type: recogniser g_column_type p_column_type no_token
proof
  fix ts t rest
  assume a: "p_column_type ts = Inr (t, rest)"
  consider r where "ts = [TK_INT] @ r" | r where "ts = [TK_FLOAT] @ r" | "\<not> next_is TK_INT ts" "\<not> next_is TK_FLOAT ts"
    using next_isD [of TK_INT ts] next_isD [of TK_FLOAT ts] by auto
  then show "\<exists>us. ts = us @ rest \<and> g_column_type us t"
  proof cases
    case 3
    obtain n where "ts = [TK_CHAR, Op CHR ''('', VALUE_INT n, Op CHR '')''] @ rest \<and> t = type_len_of DString (sint n)"
      using a 3 by (auto simp: p_column_type_def expect_Inr p_length_Inr)
    then show ?thesis using g_column_type.intros(2) by blast
  qed (use a in \<open>auto simp: p_column_type_def intro: g_column_type.intros\<close>)
qed (auto simp: p_column_type_def elim: g_column_type.cases)

interpretation column_definition: recogniser g_column_definition p_column_definition no_token
proof
  fix ts d rest
  assume "p_column_definition ts = Inr (d, rest)"
  then obtain n r t where r: "ts = IDENTIFIER n # r" "p_column_type r = Inr (t, rest)" "d = \<lparr>cd_name = n, type_len = t\<rparr>"
    by (auto simp: p_column_definition_def p_name_Inr)
  obtain us where "r = us @ rest" "g_column_type us t" using r(2) by (rule column_type.soundE)
  then show "\<exists>us. ts = us @ rest \<and> g_column_definition us d"
    using g_column_definition.intros [of "[IDENTIFIER n]" n us t] r by (intro exI [of _ "IDENTIFIER n # us"]) simp
qed (auto simp: p_column_definition_def column_name.complete column_type.complete simp del: bindE_Inr_iff elim!: g_coldefE)

interpretation column_definitions: separated g_column_definition p_column_definition no_token "\<lambda>x. [x]" comma
  by unfold_locales simp


interpretation select_list: recogniser g_select_list p_select_list "\<lambda>t. is_dot t \<or> comma t \<noteq> (None :: (expr list \<Rightarrow> expr \<Rightarrow> expr list) option)"
proof
  fix ts es rest
  assume a: "p_select_list ts = Inr (es, rest)"
  show "\<exists>us. ts = us @ rest \<and> g_select_list us es"
  proof (cases "next_is (Op CHR ''*'') ts")
    case True
    then have "ts = [Op CHR ''*''] @ rest \<and> es = [StarExpr []]" using a next_isD [OF True] by (auto simp: p_select_list_def)
    then show ?thesis using g_select_list.intros(1) by blast
  next
    case False
    then show ?thesis using a select_items.chain.sound [of ts es rest] by (auto simp: p_select_list_def intro: g_select_list.intros)
  qed
next
  fix us es rest
  assume a: "g_select_list us es" "follows (\<lambda>t. is_dot t \<or> comma t \<noteq> (None :: (expr list \<Rightarrow> expr \<Rightarrow> expr list) option)) rest"
  from a(1) show "p_select_list (us @ rest) = Inr (es, rest)"
  proof cases
    case 2
    have "\<not> next_is (Op CHR ''*'') (us @ rest)"
      using g_chain_front [OF 2] by (auto elim!: g_select_item.cases dest!: g_column_front)
    then show ?thesis using select_items.chain.complete [OF 2 a(2)] by (simp add: p_select_list_def)
  qed (simp add: p_select_list_def)
qed

definition is_order_end :: "token \<Rightarrow> bool" where
  "is_order_end t \<longleftrightarrow> is_dot t \<or> t = ASC \<or> t = DESC"

interpretation order_direction: recogniser g_optional_order_direction p_optional_order_direction is_order_end
proof
  fix ts d rest
  assume "p_optional_order_direction ts = Inr (d, rest)"
  then show "\<exists>us. ts = us @ rest \<and> g_optional_order_direction us d"
    using next_isD [of ASC ts] next_isD [of DESC ts]
    by (auto simp: p_optional_order_direction_def split: if_splits
        intro: g_optional_order_direction.intros exI [of _ "[ASC]"] exI [of _ "[DESC]"])
next
  fix us d rest
  assume "g_optional_order_direction us d" "follows is_order_end rest"
  then show "p_optional_order_direction (us @ rest) = Inr (d, rest)"
    using next_is_follows [of is_order_end rest ASC] next_is_follows [of is_order_end rest DESC]
    by (auto simp: p_optional_order_direction_def is_order_end_def elim: g_optional_order_direction.cases)
qed

lemma direction_not_dot: "g_optional_order_direction us d \<Longrightarrow> follows is_order_end rest \<Longrightarrow> follows is_dot (us @ rest)"
  by (auto simp: is_order_end_def is_dot_def follows_def elim: g_optional_order_direction.cases)

interpretation order_item: recogniser g_order_item p_order_item is_order_end
proof
  fix ts it rest
  assume "p_order_item ts = Inr (it, rest)"
  then show "\<exists>us. ts = us @ rest \<and> g_order_item us it"
    by (fastforce simp: p_order_item_def dest!: column_reference.sound order_direction.sound intro: g_order_item.intros)
next
  fix us it rest
  assume "g_order_item us it" "follows is_order_end rest"
  then show "p_order_item (us @ rest) = Inr (it, rest)"
    by (auto simp: p_order_item_def column_reference.complete order_direction.complete direction_not_dot simp del: bindE_Inr_iff
        elim!: g_order_itemE)
qed

interpretation order_by: recogniser g_optional_order_by p_optional_order_by "\<lambda>t. is_order_end t \<or> t = ORDER"
proof
  fix ts os rest
  assume a: "p_optional_order_by ts = Inr (os, rest)"
  show "\<exists>us. ts = us @ rest \<and> g_optional_order_by us os"
  proof (cases "next_is ORDER ts")
    case True
    obtain r it where r: "tl ts = BY # r" "p_order_item r = Inr (it, rest)" "os = [it]"
      using a True by (auto simp: p_optional_order_by_def expect_Inr)
    obtain us where "r = us @ rest" "g_order_item us it" using order_item.sound [OF r(2)] by blast
    then have "ts = (ORDER # BY # us) @ rest \<and> g_optional_order_by (ORDER # BY # us) os"
      using next_isD [OF True] r by (simp add: g_optional_order_by.intros)
    then show ?thesis by blast
  next
    case False
    then show ?thesis using a by (auto simp: p_optional_order_by_def intro: g_optional_order_by.intros)
  qed
next
  fix us os rest
  assume a: "g_optional_order_by us os" "follows (\<lambda>t. is_order_end t \<or> t = ORDER) rest"
  have f: "follows is_order_end rest" using a(2) by (rule follows_mono) simp
  show "p_optional_order_by (us @ rest) = Inr (os, rest)"
    using a(1) next_is_follows [OF a(2), of ORDER] order_item.complete [OF _ f]
    by (auto simp: p_optional_order_by_def simp del: bindE_Inr_iff elim!: g_order_byE)
qed


subsection \<open>Statements\<close>

lemma p_parens_Inr:
  "p_parens p ts = Inr (x, rest) \<longleftrightarrow> (\<exists>r. ts = Op CHR ''('' # r \<and> p r = Inr (x, Op CHR '')'' # rest))"
  by (auto simp: p_parens_def expect_Inr)

lemma p_named_list_Inr:
  "p_named_list p mk ts = Inr (s, rest) \<longleftrightarrow>
     (\<exists>t r xs. ts = IDENTIFIER t # Op CHR ''('' # r \<and> p_list p r = Inr (xs, Op CHR '')'' # rest) \<and> s = mk t xs)"
  by (auto simp: p_named_list_def p_name_Inr p_parens_Inr)

lemma p_parens_complete: "p (us @ Op CHR '')'' # rest) = Inr (x, Op CHR '')'' # rest) \<Longrightarrow>
    p_parens p (Op CHR ''('' # us @ Op CHR '')'' # rest) = Inr (x, rest)"
  by (simp add: p_parens_def del: bindE_Inr_iff)

lemma list_complete_at:
  assumes "complete_parser item p no_token" and "g_list item us xs"
  shows "p_list p (us @ Op CHR '')'' # rest) = Inr (xs, Op CHR '')'' # rest)"
  using complete_parser.chain_complete [OF assms, of "Op CHR '')'' # rest"] by (simp add: comma_def)

lemma p_named_list_complete:
  assumes "complete_parser item p no_token" and "g_list item us xs"
  shows "p_named_list p mk (IDENTIFIER t # Op CHR ''('' # us @ Op CHR '')'' # rest) = Inr (mk t xs, rest)"
  by (simp add: p_named_list_def p_parens_complete list_complete_at [OF assms] del: bindE_Inr_iff)

definition stmt_end :: "token \<Rightarrow> bool" where
  "stmt_end t \<longleftrightarrow> t \<noteq> Op CHR '';''"

lemma stmt_end_follows: "follows stmt_end rest \<Longrightarrow> \<not> clash (Op CHR '';'') \<Longrightarrow> follows clash rest"
  by (auto simp: follows_def stmt_end_def)

lemma ddl_complete: "g_ddl_stmt us s \<Longrightarrow> p_stmt (us @ rest) = Inr (s, rest)"
  by (cases rule: g_ddl_stmt.cases)
     (auto simp: p_named_list_complete [OF column_definition.complete_parser_axioms]
        p_named_list_complete [OF column_name.complete_parser_axioms] simp del: bindE_Inr_iff)

lemma where_complete:
  assumes "g_optional_where us w" and "rest = [] \<or> hd rest = Op CHR '';'' \<or> hd rest = ORDER"
  shows "p_optional_where (us @ rest) = Inr (w, rest)"
  using where_clause.complete [OF assms(1), of rest] assms(2) by (auto simp: follows_def is_dot_def and_sep_def)

lemma where_front: "g_optional_where us w \<Longrightarrow> us = [] \<or> hd us = WHERE"
  by (auto elim: g_whereE)

lemma order_front: "g_optional_order_by us os \<Longrightarrow> us = [] \<or> hd us = ORDER"
  by (auto elim: g_order_byE)

lemma dml_complete:
  assumes "g_dml_stmt us s" and "follows stmt_end rest"
  shows "p_stmt (us @ rest) = Inr (s, rest)"
proof -
  have semi: "rest = [] \<or> hd rest = Op CHR '';''" using assms(2) by (auto simp: follows_def stmt_end_def)
  from assms(1) show ?thesis
  proof cases
    case (1 ts t us vs)
    then show ?thesis
      by (auto simp: p_parens_complete list_complete_at [OF literal.complete_parser_axioms] simp del: bindE_Inr_iff)
  next
    case (2 ts t us w)
    then show ?thesis using where_complete [of us w rest] semi by (auto simp del: bindE_Inr_iff)
  next
    case (3 ts t us cs vs w)
    have "p_list p_set_clause (us @ vs @ rest) = Inr (cs, vs @ rest)"
      using set_clauses.chain.complete [OF 3(4), of "vs @ rest"] where_front [OF 3(5)] semi
      by (cases vs; cases rest) (auto simp: is_dot_paren_def comma_def)
    then show ?thesis using 3 where_complete [OF 3(5), of rest] semi by (auto simp del: bindE_Inr_iff)
  next
    case (4 ts items us f vs w xs os)
    have "p_optional_order_by (xs @ rest) = Inr (os, rest)"
      using order_by.complete [OF 4(6), of rest] semi by (auto simp: follows_def is_order_end_def is_dot_def)
    moreover have "p_optional_where (vs @ xs @ rest) = Inr (w, xs @ rest)"
      using where_complete [OF 4(5), of "xs @ rest"] order_front [OF 4(6)] semi by (cases xs) auto
    moreover have "p_from_tree (us @ vs @ xs @ rest) = Inr (f, vs @ xs @ rest)"
      using from_tree.chain.complete [of us f "vs @ xs @ rest"] 4(4) where_front [OF 4(5)] order_front [OF 4(6)] semi
      by (cases vs; cases xs; cases rest) (auto simp: p_from_tree_def g_from_tree_def join_sep_def)
    moreover have "p_select_list (ts @ FROM # us @ vs @ xs @ rest) = Inr (items, FROM # us @ vs @ xs @ rest)"
      using select_list.complete [OF 4(3), of "FROM # us @ vs @ xs @ rest"] by (simp add: is_dot_def comma_def)
    ultimately show ?thesis using 4 by (simp del: bindE_Inr_iff)
  qed
qed

lemma named_list_sound:
  assumes "p_named_list p mk ts = Inr (s, rest)" and "sound_parser item p"
  obtains t us xs where "ts = (IDENTIFIER t # Op CHR ''('' # us @ [Op CHR '')'']) @ rest" "g_list item us xs" "s = mk t xs"
proof -
  obtain t r xs where r: "ts = IDENTIFIER t # Op CHR ''('' # r" "p_list p r = Inr (xs, Op CHR '')'' # rest)" "s = mk t xs"
    using assms(1) by (auto simp: p_named_list_Inr)
  obtain us where "r = us @ Op CHR '')'' # rest" "g_list item us xs" using sound_parser.chain_sound [OF assms(2) r(2)] by blast
  then show thesis using that [of t us xs] r by simp
qed

lemma create_sound:
  assumes "p_stmt (CREATE # r) = Inr (s, rest)"
  shows "\<exists>us. CREATE # r = us @ rest \<and> g_ddl_stmt us s"
proof -
  consider r' where "r = TABLE # r'" | r' where "r = UNIQUE # r'" "\<not> next_is TABLE r" | "\<not> next_is TABLE r" "\<not> next_is UNIQUE r"
    using next_isD [of TABLE r] next_isD [of UNIQUE r] by auto
  then show ?thesis
  proof cases
    case 1
    then have "p_named_list p_column_definition CreateTableStmt r' = Inr (s, rest)" using assms by simp
    then obtain t us xs where us: "r' = (IDENTIFIER t # Op CHR ''('' # us @ [Op CHR '')'']) @ rest" "g_list g_column_definition us xs" "s = CreateTableStmt t xs"
      by (rule named_list_sound [OF _ column_definition.sound_parser_axioms])
    then show ?thesis using 1 g_ddl_stmt.intros(1) [of "[IDENTIFIER t]" t us xs]
      by (intro exI [of _ "CREATE # TABLE # [IDENTIFIER t] @ Op CHR ''('' # us @ [Op CHR '')'']"]) simp
  next
    case 2
    then obtain r'' where r: "r' = INDEX # r''" "p_named_list p_name (\<lambda>t cs. CreateIndexStmt t cs True) r'' = Inr (s, rest)"
      using assms by (auto simp: expect_Inr)
    obtain t us xs where us: "r'' = (IDENTIFIER t # Op CHR ''('' # us @ [Op CHR '')'']) @ rest" "g_list g_column_name us xs" "s = CreateIndexStmt t xs True"
      by (rule named_list_sound [OF r(2) column_name.sound_parser_axioms])
    then show ?thesis using 2 r g_ddl_stmt.intros(5) [of "[IDENTIFIER t]" t us xs]
      by (intro exI [of _ "CREATE # UNIQUE # INDEX # [IDENTIFIER t] @ Op CHR ''('' # us @ [Op CHR '')'']"]) simp
  next
    case 3
    then obtain r'' where r: "r = INDEX # r''" "p_named_list p_name (\<lambda>t cs. CreateIndexStmt t cs False) r'' = Inr (s, rest)"
      using assms by (auto simp: expect_Inr)
    obtain t us xs where us: "r'' = (IDENTIFIER t # Op CHR ''('' # us @ [Op CHR '')'']) @ rest" "g_list g_column_name us xs" "s = CreateIndexStmt t xs False"
      by (rule named_list_sound [OF r(2) column_name.sound_parser_axioms])
    then show ?thesis using r g_ddl_stmt.intros(4) [of "[IDENTIFIER t]" t us xs]
      by (intro exI [of _ "CREATE # INDEX # [IDENTIFIER t] @ Op CHR ''('' # us @ [Op CHR '')'']"]) simp
  qed
qed

lemma drop_sound:
  assumes "p_stmt (DROP # r) = Inr (s, rest)"
  shows "\<exists>us. DROP # r = us @ rest \<and> g_ddl_stmt us s"
proof (cases "next_is TABLE r")
  case True
  then obtain t where "r = TABLE # IDENTIFIER t # rest" "s = DropTableStmt t"
    using assms next_isD [OF True] by (auto simp: p_name_Inr)
  then show ?thesis using g_ddl_stmt.intros(2) [of "[IDENTIFIER t]" t] by (intro exI [of _ "[DROP, TABLE, IDENTIFIER t]"]) simp
next
  case False
  then obtain r'' where r: "r = INDEX # r''" "p_named_list p_name DropIndexStmt r'' = Inr (s, rest)"
    using assms by (auto simp: expect_Inr)
  obtain t us xs where us: "r'' = (IDENTIFIER t # Op CHR ''('' # us @ [Op CHR '')'']) @ rest" "g_list g_column_name us xs" "s = DropIndexStmt t xs"
    by (rule named_list_sound [OF r(2) column_name.sound_parser_axioms])
  then show ?thesis using r g_ddl_stmt.intros(6) [of "[IDENTIFIER t]" t us xs]
    by (intro exI [of _ "DROP # INDEX # [IDENTIFIER t] @ Op CHR ''('' # us @ [Op CHR '')'']"]) simp
qed

lemma insert_sound:
  assumes "p_stmt (INSERT # r) = Inr (s, rest)"
  shows "\<exists>us. INSERT # r = us @ rest \<and> g_dml_stmt us s"
proof -
  obtain t r' vs where r: "r = INTO # IDENTIFIER t # VALUES # Op CHR ''('' # r'" "p_list p_value r' = Inr (vs, Op CHR '')'' # rest)"
    "s = InsertStmt t (map Some vs)"
    using assms by (auto simp: expect_Inr p_name_Inr p_parens_Inr)
  obtain us where "r' = us @ Op CHR '')'' # rest" "g_list g_value us vs" using literals.chain.sound [OF r(2)] by blast
  then show ?thesis using r g_dml_stmt.intros(1) [of "[IDENTIFIER t]" t us vs]
    by (intro exI [of _ "INSERT # INTO # [IDENTIFIER t] @ VALUES # Op CHR ''('' # us @ [Op CHR '')'']"]) simp
qed

lemma delete_sound:
  assumes "p_stmt (DELETE # r) = Inr (s, rest)"
  shows "\<exists>us. DELETE # r = us @ rest \<and> g_dml_stmt us s"
proof -
  obtain t r' w where r: "r = FROM # IDENTIFIER t # r'" "p_optional_where r' = Inr (w, rest)" "s = DeleteStmt t w"
    using assms by (auto simp: expect_Inr p_name_Inr)
  obtain us where "r' = us @ rest" "g_optional_where us w" using r(2) by (rule where_clause.soundE)
  then show ?thesis using r g_dml_stmt.intros(2) [of "[IDENTIFIER t]" t us w]
    by (intro exI [of _ "DELETE # FROM # [IDENTIFIER t] @ us"]) simp
qed

lemma update_sound:
  assumes "p_stmt (UPDATE # r) = Inr (s, rest)"
  shows "\<exists>us. UPDATE # r = us @ rest \<and> g_dml_stmt us s"
proof -
  obtain t r1 r2 cs w where r: "r = IDENTIFIER t # SET # r1" "p_list p_set_clause r1 = Inr (cs, r2)" "p_optional_where r2 = Inr (w, rest)"
    "s = UpdateStmt t (map Some cs) w"
    using assms by (auto simp: expect_Inr p_name_Inr)
  obtain us where us: "r1 = us @ r2" "g_list g_set_clause us cs" using set_clauses.chain.sound [OF r(2)] by blast
  obtain vs where "r2 = vs @ rest" "g_optional_where vs w" using r(3) by (rule where_clause.soundE)
  then show ?thesis using r us g_dml_stmt.intros(3) [of "[IDENTIFIER t]" t us cs vs w]
    by (intro exI [of _ "UPDATE # [IDENTIFIER t] @ SET # us @ vs"]) simp
qed

lemma select_sound:
  assumes "p_stmt (SELECT # r) = Inr (s, rest)"
  shows "\<exists>us. SELECT # r = us @ rest \<and> g_dml_stmt us s"
proof -
  obtain items r1 f r2 w r3 os where r: "p_select_list r = Inr (items, FROM # r1)" "p_from_tree r1 = Inr (f, r2)"
    "p_optional_where r2 = Inr (w, r3)" "p_optional_order_by r3 = Inr (os, rest)"
    "s = Select (SelectStmt (map Some items) (Some f) w [] None (map Some os) None)"
    using assms by (auto simp: expect_Inr)
  obtain ts where ts: "r = ts @ FROM # r1" "g_select_list ts items" using r(1) by (rule select_list.soundE)
  obtain us where us: "r1 = us @ r2" "g_from_tree us f"
    using from_tree.chain.sound [of r1 f r2] r(2) by (auto simp: p_from_tree_def g_from_tree_def)
  obtain vs where vs: "r2 = vs @ r3" "g_optional_where vs w" using r(3) by (rule where_clause.soundE)
  obtain xs where xs: "r3 = xs @ rest" "g_optional_order_by xs os" using r(4) by (rule order_by.soundE)
  have "SELECT # r = (SELECT # ts @ FROM # us @ vs @ xs) @ rest" using ts us vs xs by simp
  then show ?thesis using g_dml_stmt.intros(4) [OF ts(2) us(2) vs(2) xs(2)] r(5) by blast
qed


lemma p_stmt_sound:
  assumes "p_stmt ts = Inr (s, rest)"
  shows "\<exists>us. ts = us @ rest \<and> g_stmt us s"
  using assms
proof (cases ts rule: p_stmt.cases)
  case (5 r)
  have "r = [DATABASE] @ rest \<and> s = ShowDatabaseStmt \<or> r = [TABLES] @ rest \<and> s = ShowTablesStmt"
    using assms 5 next_isD [of DATABASE r] by (auto simp: expect_Inr split: if_splits)
  then show ?thesis
    using 5 g_stmt.intros(1) [OF g_utility_stmt.intros(1)] g_stmt.intros(1) [OF g_utility_stmt.intros(2)] by auto
next
  case (7 r)
  then obtain n v where "ts = [SET, IDENTIFIER n, Op CHR ''='', IDENTIFIER v] @ rest" "s = SetKnobStmt n v"
    using assms by (auto simp: expect_Inr p_name_Inr)
  then show ?thesis using g_stmt.intros(1) [OF g_utility_stmt.intros(4)] by blast
next
  case (8 r)
  then show ?thesis using create_sound assms g_stmt.intros(2) by blast
next
  case (9 r)
  then show ?thesis using drop_sound assms g_stmt.intros(2) by blast
next
  case (10 r)
  then obtain t where "ts = (DESC # [IDENTIFIER t]) @ rest" "s = DescTableStmt t" using assms by (auto simp: p_name_Inr)
  then show ?thesis using g_stmt.intros(2) [OF g_ddl_stmt.intros(3) [of "[IDENTIFIER t]" t]] by auto
next
  case (11 r)
  then show ?thesis using insert_sound assms g_stmt.intros(3) by blast
next
  case (12 r)
  then show ?thesis using delete_sound assms g_stmt.intros(3) by blast
next
  case (13 r)
  then show ?thesis using update_sound assms g_stmt.intros(3) by blast
next
  case (14 r)
  then show ?thesis using select_sound assms g_stmt.intros(3) by blast
qed (auto intro: g_stmt.intros g_transaction_stmt.intros g_utility_stmt.intros)

interpretation statement: recogniser g_stmt p_stmt stmt_end
proof
  fix ts s rest
  assume "p_stmt ts = Inr (s, rest)"
  then show "\<exists>us. ts = us @ rest \<and> g_stmt us s" by (rule p_stmt_sound)
next
  fix us s rest
  assume a: "g_stmt us s" "follows stmt_end rest"
  from a(1) show "p_stmt (us @ rest) = Inr (s, rest)"
  proof cases
    case 1
    then show ?thesis by cases (simp_all del: bindE_Inr_iff)
  next
    case 2
    then show ?thesis by (rule ddl_complete)
  next
    case 3
    then show ?thesis using a(2) by (rule dml_complete)
  next
    case 4
    then show ?thesis by cases simp_all
  qed
qed

lemma yyparse_start: "yyparse ts = (Some s, None) \<longleftrightarrow> g_start ts s"
proof
  assume "yyparse ts = (Some s, None)"
  then have "p_stmt ts = Inr (s, [Op CHR '';''])"
    by (auto simp: yyparse_def expect_Inr split: sum.splits prod.splits if_splits)
  then show "g_start ts s" using statement.sound [of ts s] by (auto intro: g_start.intros)
next
  assume "g_start ts s"
  then show "yyparse ts = (Some s, None)"
    by cases (simp add: yyparse_def statement.complete stmt_end_def)
qed

lemma g_start_unambiguous: "g_start ts s \<Longrightarrow> g_start ts s' \<Longrightarrow> s = s'"
  using yyparse_start [of ts s] yyparse_start [of ts s'] by simp

end
