(* ===== verification/Sql_Parser.thy ===== *)
theory Sql_Parser
  imports Sql_Grammar
begin

text \<open>
  The entry points of \<^verbatim>\<open>src/src/parser/parser.cpp\<close>: \<open>Parse\<close> scans and parses one statement and reports the first
  error with its location, \<open>FormatError\<close> renders it with the source line and a caret. The wording of Bison's syntax error
  messages is generated and enters as the parameter \<open>message\<close>. The lemmas show that \<open>Parse\<close> accepts exactly the sentences
  of the grammar and that a reported location points at the byte it was computed for.
\<close>

section \<open>Results\<close>

record ParseResult =
  statement :: "stmt option"
  parse_error :: "ParseError option"

definition parse_ok :: "ParseResult \<Rightarrow> bool" where
  "parse_ok r \<longleftrightarrow> statement r \<noteq> None \<and> parse_error r = None"

record ParseContext =
  ctx_statement :: "stmt option"
  ctx_error :: "ParseError option"

definition RecordError :: "nat \<times> nat \<Rightarrow> string \<Rightarrow> ParseContext \<Rightarrow> ParseContext" where
  "RecordError loc msg ctx =
     (if ctx_error ctx = None
      then ctx\<lparr>ctx_error := Some \<lparr>err_line = fst loc, err_column = snd loc, err_message = msg\<rparr>\<rparr>
      else ctx)"

definition error_result :: "ParseError \<Rightarrow> ParseResult" where
  "error_result e = \<lparr>statement = None, parse_error = Some e\<rparr>"

section \<open>Parse\<close>

definition NUL :: char where "NUL = CHR 0x00"

definition INT_MAX :: nat where "INT_MAX = 2147483647"

definition ErrorAtOffset :: "string \<Rightarrow> nat \<Rightarrow> string \<Rightarrow> ParseError" where
  "ErrorAtOffset sql offset msg =
     (let (l, c) = advance (take offset sql) (1, 1) in \<lparr>err_line = l, err_column = c, err_message = msg\<rparr>)"

fun end_tokens :: "lex_end \<Rightarrow> token list" where
  "end_tokens (LexEof loc) = []"
| "end_tokens (LexInvalid loc e) = [INVALID]"

fun end_location :: "lex_end \<Rightarrow> nat \<times> nat" where
  "end_location (LexEof loc) = loc"
| "end_location (LexInvalid loc e) = loc"

fun scanner_error :: "lex_end \<Rightarrow> ParseError option" where
  "scanner_error (LexEof loc) = None"
| "scanner_error (LexInvalid loc e) = Some e"

text \<open>
  The call of \<^verbatim>\<open>yyparse\<close>: the return status and the context it leaves. When the offending token is \<open>INVALID\<close> the scanner has
  recorded its error before \<^verbatim>\<open>yyerror\<close> is called.
\<close>

definition run_yyparse :: "(token list \<Rightarrow> token list \<Rightarrow> string) \<Rightarrow> string \<Rightarrow> int \<times> ParseContext" where
  "run_yyparse message sql =
     (let (ts, e) = yylex lex_start sql; toks = map fst ts @ end_tokens e in
      case yyparse toks of
        (st, None) \<Rightarrow> (0, \<lparr>ctx_statement = st, ctx_error = None\<rparr>)
      | (st, Some rest) \<Rightarrow>
          let k = length toks - length rest;
              scanned = (if next_is INVALID rest then scanner_error e else None);
              loc = (if k < length ts then snd (ts ! k) else end_location e) in
          (1, RecordError loc (message toks rest) \<lparr>ctx_statement = st, ctx_error = scanned\<rparr>))"

definition Parse :: "(token list \<Rightarrow> token list \<Rightarrow> string) \<Rightarrow> string \<Rightarrow> ParseResult" where
  "Parse message sql =
     (let nul = length (takeWhile (\<lambda>c. c \<noteq> NUL) sql) in
      if nul < length sql then error_result (ErrorAtOffset sql nul ''NUL byte is not allowed in SQL'')
      else if length sql > INT_MAX
      then error_result \<lparr>err_line = 1, err_column = 1, err_message = ''SQL statement is too large''\<rparr>
      else let (status, ctx) = run_yyparse message sql;
               ctx1 = (if status \<noteq> 0 then RecordError (1, 1) ''syntax error'' ctx else ctx);
               ctx2 = (if status = 0 \<and> ctx_statement ctx1 = None then RecordError (1, 1) ''empty SQL statement'' ctx1 else ctx1) in
           \<lparr>statement = ctx_statement ctx2, parse_error = ctx_error ctx2\<rparr>)"

section \<open>FormatError\<close>

definition strip_cr :: "string \<Rightarrow> string" where
  "strip_cr l = (if l \<noteq> [] \<and> last l = CR then butlast l else l)"

fun FindLine :: "string \<Rightarrow> nat \<Rightarrow> string option" where
  "FindLine sql 0 = None"
| "FindLine sql (Suc 0) = Some (strip_cr (takeWhile (\<lambda>c. c \<noteq> LF) sql))"
| "FindLine sql (Suc (Suc n)) =
     (case dropWhile (\<lambda>c. c \<noteq> LF) sql of [] \<Rightarrow> None | nl # rest \<Rightarrow> FindLine rest (Suc n))"

definition FormatError :: "string \<Rightarrow> ParseError \<Rightarrow> string" where
  "FormatError sql e =
     (let line_number = max (err_line e) 1; column_number = max (err_column e) 1 in
      ''Parser Error at line '' @ string_of_nat line_number @ '' column '' @ string_of_nat column_number @ '': '' @
      (if err_message e = [] then ''syntax error'' else err_message e) @ [LF] @
      (case FindLine sql line_number of
         None \<Rightarrow> []
       | Some source_line \<Rightarrow>
           source_line @ [LF] @
           map (\<lambda>c. if c = TAB then TAB else CHR '' '') (take (min (column_number - 1) (length source_line)) source_line) @
           ''^'' @ [LF]))"

section \<open>Parsing and the grammar\<close>

lemma yylex_scan: "yylex lex_start sql = (ts, e) \<Longrightarrow> scan INITIAL sql = (map fst ts, is_eof e)"
  using lex_scan [of lex_start sql] by (simp add: lex_start_def)

lemma yyparse_invalid: "yyparse (us @ [INVALID]) \<noteq> (Some s, None)"
  unfolding yyparse_start by (auto elim!: g_start.cases)

lemma yyparse_accepts: "yyparse ts = (st, None) \<longleftrightarrow> (\<exists>s. st = Some s \<and> g_start ts s)"
proof -
  have "\<exists>s. st = Some s" if "yyparse ts = (st, None)"
    using that by (auto simp: yyparse_def split: sum.splits prod.splits if_splits)
  then show ?thesis using yyparse_start [of ts] by auto
qed

lemma nul_search: "length (takeWhile (\<lambda>c. c \<noteq> NUL) sql) < length sql \<longleftrightarrow> NUL \<in> set sql"
  by (metis (mono_tags, lifting) length_takeWhile_le linorder_not_less order_antisym_conv takeWhile_eq_all_conv takeWhile_eq_take take_all_iff)

lemma RecordError_some: "ctx_error (RecordError loc msg ctx) \<noteq> None" "ctx_statement (RecordError loc msg ctx) = ctx_statement ctx"
  by (simp_all add: RecordError_def)

lemma run_yyparse_cases:
  assumes "yylex lex_start sql = (ts, e)"
  shows "(\<exists>s. is_eof e \<and> g_start (map fst ts) s \<and> run_yyparse message sql = (0, \<lparr>ctx_statement = Some s, ctx_error = None\<rparr>)) \<or>
     (\<exists>ctx. (\<forall>s. \<not> (is_eof e \<and> g_start (map fst ts) s)) \<and> run_yyparse message sql = (1, ctx) \<and> ctx_error ctx \<noteq> None)"
proof -
  let ?toks = "map fst ts @ end_tokens e"
  obtain st err where p: "yyparse ?toks = (st, err)" by (cases "yyparse ?toks")
  have sent: "is_eof e \<and> g_start (map fst ts) s \<longleftrightarrow> g_start ?toks s" for s
    using yyparse_invalid [of "map fst ts" s] by (cases e) (auto simp: yyparse_start)
  show ?thesis
  proof (cases err)
    case None
    then obtain s where "st = Some s" "g_start ?toks s" using p yyparse_accepts [of ?toks st] by auto
    then show ?thesis using sent [of s] p None assms by (auto simp: run_yyparse_def)
  next
    case (Some rest)
    then have "\<not> g_start ?toks s" for s using p yyparse_start [of ?toks s] by auto
    then show ?thesis using sent p Some assms RecordError_some by (auto simp: run_yyparse_def Let_def)
  qed
qed

lemma Parse_cases:
  assumes "scan INITIAL sql = (ts, ok)"
  shows "(if NUL \<notin> set sql \<and> length sql \<le> INT_MAX \<and> ok \<and> g_start ts s
     then Parse message sql = \<lparr>statement = Some s, parse_error = None\<rparr>
     else Parse message sql \<noteq> \<lparr>statement = Some s, parse_error = None\<rparr>) \<and>
     (parse_ok (Parse message sql) \<or> parse_error (Parse message sql) \<noteq> None)"
proof -
  obtain lts e where l: "yylex lex_start sql = (lts, e)" by (cases "yylex lex_start sql")
  have ts: "ts = map fst lts" "ok = is_eof e" using yylex_scan [OF l] assms by simp_all
  consider "NUL \<in> set sql \<or> length sql > INT_MAX" | "NUL \<notin> set sql" "length sql \<le> INT_MAX" by force
  then show ?thesis
  proof cases
    case 1
    then show ?thesis by (auto simp: Parse_def nul_search error_result_def Let_def parse_ok_def)
  next
    case 2
    from run_yyparse_cases [OF l, of message] show ?thesis
    proof
      assume "\<exists>s. is_eof e \<and> g_start (map fst lts) s \<and> run_yyparse message sql = (0, \<lparr>ctx_statement = Some s, ctx_error = None\<rparr>)"
      then obtain s' where s': "is_eof e" "g_start ts s'" "run_yyparse message sql = (0, \<lparr>ctx_statement = Some s', ctx_error = None\<rparr>)"
        using ts by blast
      then have "g_start ts s \<longleftrightarrow> s' = s" using g_start_unambiguous [OF s'(2), of s] by auto
      then show ?thesis using 2 s' ts by (simp add: Parse_def nul_search parse_ok_def)
    next
      assume "\<exists>ctx. (\<forall>s. \<not> (is_eof e \<and> g_start (map fst lts) s)) \<and> run_yyparse message sql = (1, ctx) \<and> ctx_error ctx \<noteq> None"
      then show ?thesis using 2 ts by (auto simp: Parse_def nul_search RecordError_def)
    qed
  qed
qed

text \<open>
  C38 (the parser accepts the grammar). For every text and every wording of the syntax error messages: \<open>Parse\<close> returns the
  statement \<open>s\<close> and no error exactly when the text has no NUL byte, is not longer than \<open>INT_MAX\<close>, is scanned to its end
  and its tokens derive \<open>s\<close> from the start symbol; the statement is then unique. In every other case the result carries an
  error, so a caller always finds one of the two.
\<close>

theorem parse_accepts_grammar:
  "(Parse message sql = \<lparr>statement = Some s, parse_error = None\<rparr> \<longleftrightarrow>
      NUL \<notin> set sql \<and> length sql \<le> INT_MAX \<and> snd (scan INITIAL sql) \<and> g_start (fst (scan INITIAL sql)) s) \<and>
   (parse_error (Parse message sql) = None \<longleftrightarrow> parse_ok (Parse message sql)) \<and>
   (parse_ok (Parse message sql) \<longleftrightarrow>
      NUL \<notin> set sql \<and> length sql \<le> INT_MAX \<and> snd (scan INITIAL sql) \<and> (\<exists>s. g_start (fst (scan INITIAL sql)) s))"
proof -
  have c: "(if NUL \<notin> set sql \<and> length sql \<le> INT_MAX \<and> snd (scan INITIAL sql) \<and> g_start (fst (scan INITIAL sql)) s
     then Parse message sql = \<lparr>statement = Some s, parse_error = None\<rparr>
     else Parse message sql \<noteq> \<lparr>statement = Some s, parse_error = None\<rparr>) \<and>
     (parse_ok (Parse message sql) \<or> parse_error (Parse message sql) \<noteq> None)" for s
    using Parse_cases [of sql "fst (scan INITIAL sql)" "snd (scan INITIAL sql)" s message] by simp
  have ok: "parse_ok r \<longleftrightarrow> (\<exists>s. r = \<lparr>statement = Some s, parse_error = None\<rparr>)" for r
    by (cases r) (auto simp: parse_ok_def)
  have "parse_error (Parse message sql) = None \<longleftrightarrow> parse_ok (Parse message sql)" using c by (auto simp: parse_ok_def)
  then show ?thesis using c ok [of "Parse message sql"] by metis
qed

text \<open>
  C39 (spelled statements are parsed back). Whatever tokens \<open>ts\<close> derive a statement \<open>s\<close>, and however each of them is
  spelled (keywords in any case, integers with a sign or leading zeros, strings with their quotes doubled), writing the
  spellings one after the other with blanks between them gives a text that \<open>Parse\<close> turns into \<open>s\<close>.
\<close>

theorem parse_spelled:
  assumes "g_start ts s" and "list_all2 spells ts ws" and "list_all (\<lambda>w. NUL \<notin> set w) ws" and "length (spell ws) \<le> INT_MAX"
  shows "Parse message (spell ws) = \<lparr>statement = Some s, parse_error = None\<rparr>"
proof -
  have "NUL \<notin> set (spell ws)" using assms(3) by (auto simp: spell_def list_all_iff NUL_def)
  then show ?thesis
    using Parse_cases [OF scan_spell [OF assms(2)], of s message] assms(1,4) by simp
qed

definition sample_words :: "string list" where
  "sample_words =
     [''select'', ''*'', ''From'', ''t'', ''where'', ''t'', ''.'', ''a'', ''>='', ''-07'', ''AND'', ''b'', ''='',
      [QUOTE, QUOTE, QUOTE, CHR ''x'', QUOTE], '';'']"

definition sample_tokens :: "token list" where
  "sample_tokens =
     [SELECT, Op CHR ''*'', FROM, IDENTIFIER ''t'', WHERE, IDENTIFIER ''t'', Op CHR ''.'', IDENTIFIER ''a'', GEQ, VALUE_INT (- 7),
      TK_AND, IDENTIFIER ''b'', Op CHR ''='', VALUE_STRING [QUOTE, CHR ''x''], Op CHR '';'']"

definition sample_stmt :: stmt where
  "sample_stmt =
     Select (SelectStmt [Some (StarExpr [])] (Some (TableRef (Inl ''t'') []))
      (Some (LogicalExpr And (Some (BinaryExpr (Some (Col ''t'' ''a'')) Ge (Some (IntLit (- 7)))))
         (Some (BinaryExpr (Some (Col [] ''b'')) Eq (Some (StringLit [QUOTE, CHR ''x''])))))) [] None [] None)"

lemma sample_start: "g_start sample_tokens sample_stmt"
  unfolding yyparse_start [symmetric]
  by (simp add: yyparse_def p_select_list_def p_from_tree_def p_chain_def join_sep_def p_optional_where_def p_predicate_def
      and_sep_def p_comparison_def p_column_reference_def p_comparison_operand_def p_column_expr_def table_ref_def
      p_optional_order_by_def sample_tokens_def sample_stmt_def)

lemma sample_spells: "list_all2 spells sample_tokens sample_words"
  by code_simp

theorem parse_spelled_witness:
  "Parse (\<lambda>ts rest. ''syntax error'') (spell sample_words) = \<lparr>statement = Some sample_stmt, parse_error = None\<rparr>"
proof (rule parse_spelled [OF sample_start sample_spells])
  show "list_all (\<lambda>w. NUL \<notin> set w) sample_words" by code_simp
  show "length (spell sample_words) \<le> INT_MAX" by (simp add: spell_def sample_words_def INT_MAX_def)
qed

section \<open>Locations\<close>

lemma advance_append: "advance (u @ w) p = advance w (advance u p)"
  by (induction u arbitrary: p) auto

lemma advance_line_shift: "advance w (l + n, c) = (fst (advance w (l, c)) + n, snd (advance w (l, c)))"
proof (induction w arbitrary: l c)
  case (Cons d w)
  then show ?case using Cons [of "l + 1" 1] Cons [of l "c + 1"] by (simp add: add.assoc add.commute)
qed simp

lemma advance_no_newline: "LF \<notin> set w \<Longrightarrow> advance w (l, c) = (l, c + length w)"
  by (induction w arbitrary: c) auto

lemma advance_line_pos: "1 \<le> l \<Longrightarrow> 1 \<le> fst (advance w (l, c))"
  by (induction w arbitrary: l c) auto

lemma strip_cr_nth: "k < length l \<Longrightarrow> l ! k \<noteq> CR \<Longrightarrow> k < length (strip_cr l) \<and> strip_cr l ! k = l ! k"
  by (cases l rule: rev_cases) (auto simp: strip_cr_def nth_append less_Suc_eq)

lemma FindLine_offset:
  assumes "k < length sql" and "sql ! k \<noteq> LF" and "sql ! k \<noteq> CR"
  shows "\<exists>line. FindLine sql (fst (advance (take k sql) (1, 1))) = Some line \<and>
     snd (advance (take k sql) (1, 1)) - 1 < length line \<and> line ! (snd (advance (take k sql) (1, 1)) - 1) = sql ! k"
  using assms
proof (induction sql arbitrary: k rule: length_induct)
  case (1 sql)
  show ?case
  proof (cases "LF \<in> set (take k sql)")
    case False
    let ?l = "takeWhile (\<lambda>c. c \<noteq> LF) sql"
    have a: "advance (take k sql) (1, 1) = (1, 1 + k)" using advance_no_newline [OF False, of 1 1] "1.prems"(1) by simp
    have split: "take k sql @ sql ! k # drop (Suc k) sql = sql" using id_take_nth_drop [OF "1.prems"(1)] by simp
    have "takeWhile (\<lambda>c. c \<noteq> LF) (take k sql @ sql ! k # drop (Suc k) sql) =
        take k sql @ sql ! k # takeWhile (\<lambda>c. c \<noteq> LF) (drop (Suc k) sql)"
      using False "1.prems"(2) by (subst takeWhile_append2) auto
    then have "?l = take k sql @ sql ! k # takeWhile (\<lambda>c. c \<noteq> LF) (drop (Suc k) sql)" unfolding split .
    then have l: "k < length ?l \<and> ?l ! k = sql ! k" using "1.prems"(1) by (auto simp: nth_append)
    then show ?thesis using a strip_cr_nth [of k ?l] "1.prems"(3) by simp
  next
    case True
    then obtain u w where u: "take k sql = u @ LF # w" "LF \<notin> set u" by (meson split_list_first)
    define v where "v = drop (Suc (length u)) sql"
    have len: "length u < k" using arg_cong [OF u(1), of length] "1.prems"(1) by simp
    have "u @ [LF] = take (Suc (length u)) sql"
      using arg_cong [OF u(1), of "take (Suc (length u))"] len by (simp add: min_def)
    then have sql: "sql = u @ LF # v" unfolding v_def by (metis append.assoc append_Cons append_Nil append_take_drop_id)
    define j where "j = k - Suc (length u)"
    have k: "k = Suc (length u) + j" unfolding j_def using len by simp
    have tk: "take k sql = u @ LF # take j v" unfolding sql k by simp
    have adv: "advance (take k sql) (1, 1) = (fst (advance (take j v) (1, 1)) + 1, snd (advance (take j v) (1, 1)))"
      unfolding tk using advance_line_shift [of "take j v" 1 1 1] advance_no_newline [OF u(2), of 1 1] by (simp add: advance_append)
    have j: "j < length v" "v ! j = sql ! k" using "1.prems"(1) unfolding sql k by (simp_all add: nth_append)
    obtain n where n: "fst (advance (take j v) (1, 1)) = Suc n" using advance_line_pos [of 1 "take j v" 1] by (cases "fst (advance (take j v) (1, 1))") auto
    have drop: "dropWhile (\<lambda>c. c \<noteq> LF) sql = LF # v" unfolding sql using u(2) by (auto simp: dropWhile_append3)
    then have "FindLine sql (Suc (Suc n)) = FindLine v (Suc n)" by simp
    moreover have "length v < length sql" unfolding sql by simp
    ultimately show ?thesis using "1.IH" [rule_format, of v j] j "1.prems"(2,3) adv n by simp
  qed
qed

lemma best_rule_total: "s \<noteq> [] \<Longrightarrow> best_rule (rules_of cond) s \<noteq> None"
proof -
  assume s: "s \<noteq> []"
  have mem: "R_any \<in> set initial_rules" "R_new_line \<in> set initial_rules" by (simp_all add: initial_rules_def)
  have "rule_match R_any s \<noteq> 0 \<or> rule_match R_new_line s \<noteq> 0" using s by simp
  then have "best_rule initial_rules s \<noteq> None" unfolding best_rule_None using mem by (metis (no_types))
  moreover have "best_rule comment_rules s \<noteq> None" using s by (auto simp: best_rule_None comment_rules_def)
  ultimately show ?thesis by (cases cond) simp_all
qed

lemma return_front:
  assumes "best_rule (rules_of cond) s = Some (r, n)" and "rule_action r (take n s) = Return t"
  shows "hd s \<noteq> LF \<and> hd s \<noteq> CR"
proof -
  have r: "r \<in> set (rules_of cond)" "0 < rule_match r s" using best_rule_Some [OF assms(1)] by auto
  show ?thesis
  proof (cases "r \<in> set main_rules")
    case True
    then show ?thesis
    proof (cases rule: main_rules_cases)
      case 1
      then show ?thesis using r(2) assms(2)
        by (cases s) (auto simp: match_int_def match_float_def char_class_defs split: if_splits)
    next
      case (2 k u)
      then show ?thesis using keyword_match_pos [OF 2(2), of s] r(2) alpha_not [of "hd s"] by auto
    next
      case (3 k u)
      then have "to_upper (hd s) \<in> {CHR ''>'', CHR ''<'', CHR ''!''}" using operator_match_pos [OF 3(2), of s] r(2) by blast
      then show ?thesis by (auto simp: char_class_defs to_upper_def)
    qed
  next
    case False
    then show ?thesis using r(1) assms(2) by (cases cond) (auto simp: initial_rules_main comment_rules_def)
  qed
qed

lemma last_user_action: "(last_line (user_action w st), last_column (user_action w st)) = advance w (last_line st, last_column st)"
  "(first_line (user_action w st), first_column (user_action w st)) = (last_line st, last_column st)"
  "last_line (begin_condition cond st) = last_line st" "last_column (begin_condition cond st) = last_column st"
  by (simp_all add: user_action_def begin_condition_def split: prod.splits)

lemma yylex_location:
  "(last_line st, last_column st) = advance p (1, 1) \<Longrightarrow> (t, l, c) \<in> set (fst (yylex st s)) \<Longrightarrow>
     \<exists>k. k < length (p @ s) \<and> advance (take k (p @ s)) (1, 1) = (l, c) \<and> (p @ s) ! k \<noteq> LF \<and> (p @ s) ! k \<noteq> CR"
proof (induction st s arbitrary: p rule: yylex.induct)
  case (1 st s)
  show ?case
  proof (cases "s = []")
    case True
    then show ?thesis using "1.prems" by (simp add: yylex.simps)
  next
    case False
    obtain r n where rn: "best_rule (rules_of (condition st)) s = Some (r, n)"
      using best_rule_total [OF False, of "condition st"] by auto
    let ?w = "take n s" and ?st = "user_action (take n s) st"
    have last: "(last_line ?st, last_column ?st) = advance (p @ ?w) (1, 1)"
      using last_user_action(1) [of ?w st] "1.prems"(1) by (simp add: advance_append)
    have app: "(p @ ?w) @ drop n s = p @ s" by simp
    show ?thesis
    proof (cases "rule_action r ?w")
      case Skip
      then show ?thesis using "1.IH"(2) [OF False rn refl refl Skip last] "1.prems"(2) False rn
        unfolding app by (simp add: yylex.simps [of _ s] Let_def)
    next
      case (Begin cond)
      then show ?thesis using "1.IH"(3) [OF False rn refl refl Begin, of "p @ ?w"] last "1.prems"(2) False rn
        unfolding app by (simp add: yylex.simps [of _ s] Let_def last_user_action)
    next
      case (Return u)
      have "(t, l, c) = (u, last_line st, last_column st) \<or> (t, l, c) \<in> set (fst (yylex ?st (drop n s)))"
        using "1.prems"(2) False rn Return last_user_action(2) [of ?w st]
        by (auto simp: yylex.simps [of _ s] Let_def split: prod.splits)
      then show ?thesis
      proof
        assume "(t, l, c) = (u, last_line st, last_column st)"
        then show ?thesis using "1.prems"(1) False return_front [OF rn Return]
          by (intro exI [of _ "length p"]) (simp add: nth_append hd_conv_nth)
      next
        assume "(t, l, c) \<in> set (fst (yylex ?st (drop n s)))"
        then show ?thesis using "1.IH"(4) [OF False rn refl refl Return last] unfolding app by simp
      qed
    next
      case (Report msg)
      then show ?thesis using "1.prems"(2) False rn by (simp add: yylex.simps [of _ s] Let_def)
    qed
  qed
qed

lemma token_location_line:
  assumes "(t, l, c) \<in> set (fst (yylex lex_start sql))"
  shows "\<exists>k line. k < length sql \<and> advance (take k sql) (1, 1) = (l, c) \<and>
     FindLine sql l = Some line \<and> c - 1 < length line \<and> line ! (c - 1) = sql ! k"
proof -
  have "(last_line lex_start, last_column lex_start) = advance [] (1, 1)" by (simp add: lex_start_def)
  from yylex_location [OF this assms] obtain k where k: "k < length sql" "advance (take k sql) (1, 1) = (l, c)" "sql ! k \<noteq> LF" "sql ! k \<noteq> CR"
    by auto
  then show ?thesis using FindLine_offset [OF k(1,3,4)] by (intro exI [of _ k]) simp
qed

end
