(* ===== verification/Wire_Codec.thy ===== *)
theory Wire_Codec
  imports Common
begin

text \<open>
  The payload formats of \<^verbatim>\<open>src/src/net/wire.h\<close> and \<^verbatim>\<open>wire.cpp\<close>: the integer writers and readers, the META and
  ROW payloads with their checked encoders, and the decoders the client runs on them. Every reader is an
  interpretation of \<open>field_codec\<close>; on top of it META and ROW payloads round trip, are never larger than a
  frame may be, and the decoders accept exactly the encoder's images.
\<close>

section \<open>Protocol constants (wire.h)\<close>

definition kMajor :: u16 where "kMajor = 3"
definition kMinor :: u16 where "kMinor = 1"
definition kMagic :: string where "kMagic = ''RUCB''"
definition kMaxPayloadBytes :: nat where "kMaxPayloadBytes = 1048576"
definition kMaxDiagnosticBytes :: nat where "kMaxDiagnosticBytes = 65536"
definition kTagExecStream :: u8 where "kTagExecStream = 0x20"
definition kTagMeta :: u8 where "kTagMeta = 0x01"
definition kTagRow :: u8 where "kTagRow = 0x02"
definition kTagCommandOk :: u8 where "kTagCommandOk = 0x10"
definition kTagResultEnd :: u8 where "kTagResultEnd = 0x11"
definition kTagTransactionAbort :: u8 where "kTagTransactionAbort = 0x12"
definition kTagError :: u8 where "kTagError = 0x13"
definition kFlagRawText :: u8 where "kFlagRawText = 0x01"
definition kTypeInt32 :: u8 where "kTypeInt32 = 0x01"
definition kTypeFloat32 :: u8 where "kTypeFloat32 = 0x02"
definition kTypeChar :: u8 where "kTypeChar = 0x03"

lemmas wire_tags = kTagExecStream_def kTagMeta_def kTagRow_def kTagCommandOk_def kTagResultEnd_def
  kTagTransactionAbort_def kTagError_def kFlagRawText_def
lemmas wire_types = kTypeInt32_def kTypeFloat32_def kTypeChar_def
lemmas wire_limits = kMaxPayloadBytes_def kMaxDiagnosticBytes_def

record ColumnDef =
  col_label :: string
  col_sql_type :: u8

record Cell =
  is_null :: bool
  cell_type :: u8
  int_val :: i32
  float_val :: f32
  cell_str :: string

definition Cell_default :: Cell where
  "Cell_default = \<lparr>is_null = False, cell_type = kTypeChar, int_val = 0, float_val = 0, cell_str = []\<rparr>"

lemma Cell_default_simps [simp]:
  "is_null Cell_default = False" "cell_type Cell_default = kTypeChar" "int_val Cell_default = 0"
  "float_val Cell_default = 0" "cell_str Cell_default = []"
  by (simp_all add: Cell_default_def)

definition IsKnownSqlType :: "u8 \<Rightarrow> bool" where
  "IsKnownSqlType t \<longleftrightarrow> t = kTypeInt32 \<or> t = kTypeFloat32 \<or> t = kTypeChar"

section \<open>Integers in network byte order\<close>

definition AppendU8 :: "string \<Rightarrow> u8 \<Rightarrow> string" where
  "AppendU8 out v = out @ [char_of (unat v)]"

definition AppendU16 :: "string \<Rightarrow> u16 \<Rightarrow> string" where
  "AppendU16 out v = out @ be_bytes 2 (unat v)"

definition AppendU32 :: "string \<Rightarrow> u32 \<Rightarrow> string" where
  "AppendU32 out v = out @ be_bytes 4 (unat v)"

definition AppendU64 :: "string \<Rightarrow> u64 \<Rightarrow> string" where
  "AppendU64 out v =
     (let hi = ucast (drop_bit 32 v) :: u32; lo = ucast (and v 0xffffffff) :: u32
      in out @ be_bytes 4 (unat hi) @ be_bytes 4 (unat lo))"

definition ReadU8 :: "string \<Rightarrow> nat \<Rightarrow> (u8 \<times> nat) option" where
  "ReadU8 buf off =
     (if off > length buf \<or> length buf - off < 1 then None
      else Some (word_of_nat (of_char (buf ! off)), off + 1))"

definition ReadU16 :: "string \<Rightarrow> nat \<Rightarrow> (u16 \<times> nat) option" where
  "ReadU16 buf off =
     (if off > length buf \<or> length buf - off < 2 then None
      else Some (word_of_nat (be_val (take 2 (drop off buf))), off + 2))"

definition ReadU32 :: "string \<Rightarrow> nat \<Rightarrow> (u32 \<times> nat) option" where
  "ReadU32 buf off =
     (if off > length buf \<or> length buf - off < 4 then None
      else Some (word_of_nat (be_val (take 4 (drop off buf))), off + 4))"

definition ReadU64 :: "string \<Rightarrow> nat \<Rightarrow> (u64 \<times> nat) option" where
  "ReadU64 buf off =
     (case ReadU32 buf off of
        None \<Rightarrow> None
      | Some (hi, off1) \<Rightarrow>
          (case ReadU32 buf off1 of
             None \<Rightarrow> None
           | Some (lo, off2) \<Rightarrow> Some (or (push_bit 32 (ucast hi)) (ucast lo), off2)))"

definition ReadBytes :: "string \<Rightarrow> nat \<Rightarrow> nat \<Rightarrow> (string \<times> nat) option" where
  "ReadBytes buf off n =
     (if off > length buf \<or> n > length buf - off then None
      else Some (take n (drop off buf), off + n))"

text \<open>Images of fixed width: the three ways to read one back.\<close>

lemma be_word_roundtrip:
  fixes w :: "'a::len word"
  assumes "2 ^ LENGTH('a) = (256::nat) ^ k"
  shows "word_of_nat (be_val (be_bytes k (unat w))) = w"
proof -
  have "unat w < 2 ^ LENGTH('a)" by (rule unsigned_less)
  then have "unat w < 256 ^ k" by (simp only: assms)
  then show ?thesis by (simp add: be_val_be_bytes)
qed

lemma be_word_sound:
  assumes "2 ^ LENGTH('a) = (256::nat) ^ length s"
  shows "be_bytes (length s) (unat (word_of_nat (be_val s) :: 'a::len word)) = s"
proof -
  have "be_val s mod 2 ^ LENGTH('a) = be_val s" using be_val_bound [of s] assms by simp
  then show ?thesis by (simp add: unat_of_nat be_bytes_be_val)
qed

lemma take_drop_mid [simp]: "take (length m) (drop (length pre) (pre @ m @ post)) = m"
  by simp

lemma take_drop_width:
  "length m = k \<Longrightarrow> take k (drop (length pre) (pre @ m @ post)) = m"
  by auto

interpretation u8_codec: field_codec "\<lambda>_. True" "AppendU8 []" ReadU8
proof (unfold_locales, goal_cases)
  case (1 x pre post)
  have "unat x < 256" using unsigned_less [of x] by simp
  then show ?case by (simp add: ReadU8_def AppendU8_def nth_append)
next
  case (2 buf off x off')
  then have lt: "off < length buf" and x: "x = word_of_nat (of_char (buf ! off))" and o: "off' = off + 1"
    by (auto simp: ReadU8_def split: if_splits)
  have "unat x = of_char (buf ! off)"
    using nat_of_char_less_256 [of "buf ! off"] by (simp add: x unat_of_nat)
  with lt o show ?case by (simp add: AppendU8_def take_Suc_conv_app_nth take_Suc hd_drop_conv_nth)
qed

interpretation u16_codec: field_codec "\<lambda>_. True" "AppendU16 []" ReadU16
proof (unfold_locales, goal_cases)
  case (1 x pre post)
  show ?case
    by (simp add: ReadU16_def AppendU16_def take_drop_width be_word_roundtrip)
next
  case (2 buf off x off')
  then have le: "off + 2 \<le> length buf" and x: "x = word_of_nat (be_val (take 2 (drop off buf)))"
    and o: "off' = off + 2"
    by (auto simp: ReadU16_def split: if_splits)
  have "length (take 2 (drop off buf)) = 2" using le by simp
  then have "be_bytes 2 (unat x) = take 2 (drop off buf)"
    using be_word_sound [where ?'a = 16, of "take 2 (drop off buf)"] x by simp
  with le o show ?case by (simp add: AppendU16_def)
qed

interpretation u32_codec: field_codec "\<lambda>_. True" "AppendU32 []" ReadU32
proof (unfold_locales, goal_cases)
  case (1 x pre post)
  show ?case
    by (simp add: ReadU32_def AppendU32_def take_drop_width be_word_roundtrip)
next
  case (2 buf off x off')
  then have le: "off + 4 \<le> length buf" and x: "x = word_of_nat (be_val (take 4 (drop off buf)))"
    and o: "off' = off + 4"
    by (auto simp: ReadU32_def split: if_splits)
  have "length (take 4 (drop off buf)) = 4" using le by simp
  then have "be_bytes 4 (unat x) = take 4 (drop off buf)"
    using be_word_sound [where ?'a = 32, of "take 4 (drop off buf)"] x by simp
  with le o show ?case by (simp add: AppendU32_def)
qed

text \<open>The two halves of a 64 bit word.\<close>

lemma split_join64:
  fixes v :: u64
  shows "or (push_bit 32 (ucast (ucast (drop_bit 32 v) :: u32))) (ucast (ucast (and v 0xffffffff) :: u32)) = v"
proof (rule bit_word_eqI)
  fix n assume "n < LENGTH(64)"
  have m: "(0xffffffff :: u64) = mask 32" by (simp add: mask_eq_exp_minus_1)
  show "bit (or (push_bit 32 (ucast (ucast (drop_bit 32 v) :: u32))) (ucast (ucast (and v 0xffffffff) :: u32)) :: u64) n
      = bit v n"
    using \<open>n < LENGTH(64)\<close> unfolding m
    by (auto simp: bit_simps not_less)
qed

lemma join_split64:
  fixes hi lo :: u32
  defines "v \<equiv> or (push_bit 32 (ucast hi)) (ucast lo) :: u64"
  shows "ucast (drop_bit 32 v) = hi" and "ucast (and v 0xffffffff) = lo"
proof -
  have m: "(0xffffffff :: u64) = mask 32" by (simp add: mask_eq_exp_minus_1)
  show "ucast (drop_bit 32 v) = hi"
    by (rule bit_word_eqI) (auto simp: v_def bit_simps dest: bit_imp_le_length)
  show "ucast (and v 0xffffffff) = lo"
    unfolding m by (rule bit_word_eqI) (auto simp: v_def bit_simps)
qed

lemma AppendU64_halves:
  "AppendU64 out v =
   out @ AppendU32 [] (ucast (drop_bit 32 v)) @ AppendU32 [] (ucast (and v 0xffffffff))"
  by (simp add: AppendU64_def AppendU32_def)

interpretation u64_codec: field_codec "\<lambda>_. True" "AppendU64 []" ReadU64
proof (unfold_locales, goal_cases)
  case (1 x pre post)
  let ?hi = "ucast (drop_bit 32 x) :: u32" and ?lo = "ucast (and x 0xffffffff) :: u32"
  have "ReadU32 (pre @ AppendU32 [] ?hi @ AppendU32 [] ?lo @ post) (length pre) = Some (?hi, length pre + 4)"
    using u32_codec.get_put [of pre ?hi] by (simp add: AppendU32_def)
  moreover have "ReadU32 ((pre @ AppendU32 [] ?hi) @ AppendU32 [] ?lo @ post) (length pre + 4) =
      Some (?lo, length pre + 8)"
    using u32_codec.get_put [of "pre @ AppendU32 [] ?hi" ?lo] by (simp add: AppendU32_def)
  ultimately show ?case
    by (simp add: ReadU64_def AppendU64_halves split_join64) (simp add: AppendU32_def)
next
  case (2 buf off x off')
  then obtain hi lo o1 where hi: "ReadU32 buf off = Some (hi, o1)" and lo: "ReadU32 buf o1 = Some (lo, off')"
    and x: "x = or (push_bit 32 (ucast hi)) (ucast lo)"
    by (auto simp: ReadU64_def split: option.splits)
  have put: "AppendU64 [] x = AppendU32 [] hi @ AppendU32 [] lo"
    unfolding x AppendU64_halves join_split64 by simp
  from u32_codec.get_sound [OF hi] u32_codec.get_sound [OF lo]
  have "o1 = off + 4" "off' = off + 8" "off' \<le> length buf"
    "take 4 (drop off buf) = AppendU32 [] hi" "take 4 (drop (off + 4) buf) = AppendU32 [] lo"
    by (simp_all add: AppendU32_def)
  moreover from this have "take (4 + 4) (drop off buf) = AppendU64 [] x"
    unfolding take_add put by (simp add: add.commute)
  moreover have "length (AppendU64 [] x) = 8" by (simp add: put AppendU32_def)
  ultimately show ?case by simp
qed

text \<open>Every writer only appends.\<close>

lemma Append_append:
  "AppendU8 out a = out @ AppendU8 [] a"
  "AppendU16 out b = out @ AppendU16 [] b"
  "AppendU32 out c = out @ AppendU32 [] c"
  "AppendU64 out d = out @ AppendU64 [] d"
  by (simp_all add: AppendU8_def AppendU16_def AppendU32_def AppendU64_def Let_def)

lemma length_Append [simp, layout_simps]:
  "length (AppendU8 out a) = length out + 1"
  "length (AppendU16 out b) = length out + 2"
  "length (AppendU32 out c) = length out + 4"
  "length (AppendU64 out d) = length out + 8"
  by (simp_all add: AppendU8_def AppendU16_def AppendU32_def AppendU64_def Let_def)

lemma ReadBytes_put:
  "n = length s \<Longrightarrow> ReadBytes (pre @ s @ post) (length pre) n = Some (s, length pre + length s)"
  by (simp add: ReadBytes_def)

lemma ReadBytes_sound:
  "ReadBytes buf off n = Some (s, off') \<Longrightarrow>
   length s = n \<and> off' = off + n \<and> off' \<le> length buf \<and> take n (drop off buf) = s"
  by (auto simp: ReadBytes_def split: if_splits)

section \<open>META payloads\<close>

definition ColTypeToWire :: "int \<Rightarrow> u8 option" where
  "ColTypeToWire col_type =
     (if col_type = 0 then Some kTypeInt32
      else if col_type = 1 then Some kTypeFloat32
      else if col_type = 2 then Some kTypeChar
      else None)"

text \<open>The first loop of \<^verbatim>\<open>TryEncodeMeta\<close>: validation and the size of the payload.\<close>

fun meta_size :: "ColumnDef list \<Rightarrow> nat \<Rightarrow> string + nat" where
  "meta_size [] encoded_size = Inr encoded_size"
| "meta_size (column # columns) encoded_size =
     (let name_size = length (col_label column) in
      if name_size = 0 \<or> name_size > 65535 then Inl ''META column name is out of range''
      else if \<not> IsKnownSqlType (col_sql_type column) then Inl ''META contains an unknown column type''
      else let column_size = 2 + name_size + 1 in
           if column_size > kMaxPayloadBytes - encoded_size then Inl ''META payload exceeds 1 MiB''
           else meta_size columns (encoded_size + column_size))"

definition append_column :: "string \<Rightarrow> ColumnDef \<Rightarrow> string" where
  "append_column payload column =
     AppendU8 (AppendU16 payload (word_of_nat (length (col_label column))) @ col_label column)
       (col_sql_type column)"

definition TryEncodeMeta :: "ColumnDef list \<Rightarrow> string + string" where
  "TryEncodeMeta columns =
     (if columns = [] \<or> length columns > 65535 then Inl ''META column count is out of range''
      else bindE (meta_size columns 2) (\<lambda>encoded_size.
        Inr (foldl append_column (AppendU16 [] (word_of_nat (length columns))) columns)))"

definition EncodeMeta :: "ColumnDef list \<Rightarrow> string" where
  "EncodeMeta columns = (case TryEncodeMeta columns of Inl e \<Rightarrow> [] | Inr payload \<Rightarrow> payload)"

definition EncodeMetaSingleCharColumn :: "string \<Rightarrow> string" where
  "EncodeMetaSingleCharColumn column_name =
     EncodeMeta [\<lparr>col_label = (if column_name = [] then ''output'' else column_name), col_sql_type = kTypeChar\<rparr>]"

text \<open>The loop body of the client's META case, with the diagnostic of each early return.\<close>

definition DecodeColumn :: "string \<Rightarrow> nat \<Rightarrow> string + (ColumnDef \<times> nat)" where
  "DecodeColumn payload off =
     (case ReadU16 payload off of
        None \<Rightarrow> Inl ''invalid META column name''
      | Some (name_size, off1) \<Rightarrow>
          if name_size = 0 then Inl ''invalid META column name''
          else (case ReadBytes payload off1 (unat name_size) of
              None \<Rightarrow> Inl ''invalid META column name bytes''
            | Some (name, off2) \<Rightarrow>
                (case ReadU8 payload off2 of
                   None \<Rightarrow> Inl ''unknown META column type''
                 | Some (sql_type, off3) \<Rightarrow>
                     if \<not> IsKnownSqlType sql_type then Inl ''unknown META column type''
                     else Inr (\<lparr>col_label = name, col_sql_type = sql_type\<rparr>, off3))))"

text \<open>The loop and the whole payload: a failure also leaves the columns decoded before it in the result.\<close>

fun DecodeColumns :: "nat \<Rightarrow> string \<Rightarrow> nat \<Rightarrow> (string \<times> ColumnDef list) + (ColumnDef list \<times> nat)" where
  "DecodeColumns 0 payload off = Inr ([], off)"
| "DecodeColumns (Suc n) payload off =
     (case DecodeColumn payload off of
        Inl e \<Rightarrow> Inl (e, [])
      | Inr (column, off1) \<Rightarrow>
          (case DecodeColumns n payload off1 of
             Inl (e, columns) \<Rightarrow> Inl (e, column # columns)
           | Inr (columns, off2) \<Rightarrow> Inr (column # columns, off2)))"

definition DecodeMeta :: "string \<Rightarrow> (string \<times> ColumnDef list) + ColumnDef list" where
  "DecodeMeta payload =
     (case ReadU16 payload 0 of
        None \<Rightarrow> Inl (''invalid META'', [])
      | Some (column_count, off) \<Rightarrow>
          if column_count = 0 then Inl (''invalid META'', [])
          else (case DecodeColumns (unat column_count) payload off of
              Inl err \<Rightarrow> Inl err
            | Inr (columns, off1) \<Rightarrow>
                if off1 \<noteq> length payload then Inl (''trailing bytes in META'', columns) else Inr columns))"

text \<open>A column a META payload can carry.\<close>

definition column_ok :: "ColumnDef \<Rightarrow> bool" where
  "column_ok c \<longleftrightarrow> col_label c \<noteq> [] \<and> length (col_label c) \<le> 65535 \<and> IsKnownSqlType (col_sql_type c)"

lemma append_column_append: "append_column payload c = payload @ append_column [] c"
  by (simp add: append_column_def AppendU8_def AppendU16_def)

lemma foldl_append_column: "foldl append_column out cs = out @ concat (map (append_column []) cs)"
proof (induction cs arbitrary: out)
  case Nil
  then show ?case by simp
next
  case (Cons c cs)
  then show ?case by (simp add: append_column_append [of out c])
qed

lemma length_append_column [simp]: "length (append_column out c) = length out + 3 + length (col_label c)"
  by (simp add: append_column_def)

lemma unat_u16: "unat (w :: u16) < 65536"
  by (rule order.strict_trans2 [OF unsigned_less]) simp

lemma unat_u32: "unat (w :: u32) \<le> 4294967295"
proof -
  have "unat w < 4294967296" by (rule order.strict_trans2 [OF unsigned_less]) simp
  then show ?thesis by linarith
qed

lemma unat_of_small16: "n \<le> 65535 \<Longrightarrow> unat (word_of_nat n :: u16) = n"
  by (simp add: unat_of_nat)

lemma unat_of_small32: "n < 4294967296 \<Longrightarrow> unat (word_of_nat n :: u32) = n"
  by (simp add: unat_of_nat)

interpretation column_codec: field_codec column_ok "append_column []" "\<lambda>payload off. opt_of (DecodeColumn payload off)"
proof (unfold_locales, goal_cases)
  case (1 c pre post)
  let ?n = "word_of_nat (length (col_label c)) :: u16"
  let ?rest = "AppendU8 [] (col_sql_type c) @ post"
  have len: "unat ?n = length (col_label c)" using 1 by (simp add: column_ok_def unat_of_small16)
  then have nz: "?n \<noteq> 0" using 1 by (auto simp: column_ok_def unat_eq_0 [symmetric])
  have put: "append_column [] c = AppendU16 [] ?n @ col_label c @ AppendU8 [] (col_sql_type c)"
    by (simp add: append_column_def Append_append(1) [of "AppendU16 [] ?n @ col_label c"])
  have r1: "ReadU16 (pre @ append_column [] c @ post) (length pre) = Some (?n, length pre + 2)"
    using u16_codec.get_put [of pre ?n "col_label c @ ?rest"] by (simp add: put)
  have r2: "ReadBytes (pre @ append_column [] c @ post) (length pre + 2) (unat ?n) =
      Some (col_label c, length pre + 2 + length (col_label c))"
    using ReadBytes_put [OF len, of "pre @ AppendU16 [] ?n" ?rest] by (simp add: put)
  have r3: "ReadU8 (pre @ append_column [] c @ post) (length pre + 2 + length (col_label c)) =
      Some (col_sql_type c, length pre + 3 + length (col_label c))"
    using u8_codec.get_put [of "pre @ AppendU16 [] ?n @ col_label c" "col_sql_type c" post] by (simp add: put ac_simps)
  show ?case
    using 1 nz r1 r2 r3 by (simp add: DecodeColumn_def column_ok_def)
next
  case (2 buf off c off')
  then obtain n o1 name o2 t where r1: "ReadU16 buf off = Some (n, o1)" and nz: "n \<noteq> 0"
    and r2: "ReadBytes buf o1 (unat n) = Some (name, o2)" and r3: "ReadU8 buf o2 = Some (t, off')"
    and t: "IsKnownSqlType t" and c: "c = \<lparr>col_label = name, col_sql_type = t\<rparr>"
    by (auto simp: DecodeColumn_def split: option.splits if_splits)
  note s1 = u16_codec.get_sound [OF r1, simplified] and s2 = ReadBytes_sound [OF r2]
    and s3 = u8_codec.get_sound [OF r3, simplified]
  have n16: "unat n < 65536" by (rule unat_u16)
  have name: "word_of_nat (length name) = n" using s2 by simp
  have put: "append_column [] c = AppendU16 [] n @ name @ AppendU8 [] t"
    by (simp add: c name append_column_def Append_append(1) [of "AppendU16 [] n @ name"])
  have o1: "o1 = off + 2" and o2: "o2 = off + 2 + length name" and off': "off' = off + 3 + length name"
    using s1 s2 s3 by simp_all
  have "take (2 + (length name + 1)) (drop off buf) = append_column [] c"
    using s1 s2 s3 unfolding put o1 o2 take_add [of 2] take_add [of "length name"] drop_drop
    by (simp add: add.commute add.left_commute)
  then show ?case
    using s1 s2 s3 nz n16 t off' by (auto simp: column_ok_def c unat_eq_0)
qed

lemma opt_of_DecodeColumns:
  "opt_of (DecodeColumns n payload off) = get_n (\<lambda>p q. opt_of (DecodeColumn p q)) n payload off"
proof (induction n arbitrary: off)
  case 0
  then show ?case by simp
next
  case (Suc n)
  show ?case by (auto simp: Suc.IH [symmetric] split: sum.split prod.split)
qed

lemma DecodeColumns_put:
  "\<forall>c\<in>set cs. column_ok c \<Longrightarrow>
   DecodeColumns (length cs) (pre @ concat (map (append_column []) cs) @ post) (length pre) =
     Inr (cs, length pre + length (concat (map (append_column []) cs)))"
  using column_codec.get_n_put [of cs pre post] unfolding opt_of_DecodeColumns [symmetric] by simp

lemma meta_size_Inr:
  "meta_size cs n = Inr m \<Longrightarrow> n \<le> kMaxPayloadBytes \<Longrightarrow>
   (\<forall>c\<in>set cs. column_ok c) \<and> m = n + length (concat (map (append_column []) cs)) \<and> m \<le> kMaxPayloadBytes"
proof (induction cs arbitrary: n)
  case Nil
  then show ?case by simp
next
  case (Cons c cs)
  from Cons.prems have c: "column_ok c" and fits: "3 + length (col_label c) \<le> kMaxPayloadBytes - n"
    and rest: "meta_size cs (n + (3 + length (col_label c))) = Inr m"
    by (auto simp: column_ok_def Let_def add.assoc split: if_splits)
  have "n + (3 + length (col_label c)) \<le> kMaxPayloadBytes" using fits Cons.prems(2) by linarith
  from Cons.IH [OF rest this] c show ?case by simp
qed

lemma meta_size_complete:
  "\<forall>c\<in>set cs. column_ok c \<Longrightarrow> n + length (concat (map (append_column []) cs)) \<le> kMaxPayloadBytes \<Longrightarrow>
   meta_size cs n = Inr (n + length (concat (map (append_column []) cs)))"
  by (induction cs arbitrary: n) (auto simp: column_ok_def Let_def)

text \<open>What \<^verbatim>\<open>TryEncodeMeta\<close> accepts and what it then writes.\<close>

lemma TryEncodeMeta_Inr_iff:
  "TryEncodeMeta cs = Inr payload \<longleftrightarrow>
     cs \<noteq> [] \<and> length cs \<le> 65535 \<and> (\<forall>c\<in>set cs. column_ok c) \<and> length payload \<le> kMaxPayloadBytes \<and>
     payload = AppendU16 [] (word_of_nat (length cs)) @ concat (map (append_column []) cs)"
  (is "?l \<longleftrightarrow> ?r")
proof
  assume ?l
  then obtain m where m: "meta_size cs 2 = Inr m" and "cs \<noteq> []" "length cs \<le> 65535"
    "payload = AppendU16 [] (word_of_nat (length cs)) @ concat (map (append_column []) cs)"
    by (auto simp: TryEncodeMeta_def foldl_append_column split: if_splits)
  with meta_size_Inr [OF m] show ?r by (simp add: kMaxPayloadBytes_def)
next
  assume ?r
  then show ?l using meta_size_complete [of cs 2] by (auto simp: TryEncodeMeta_def foldl_append_column)
qed

lemma DecodeMeta_TryEncodeMeta:
  assumes "TryEncodeMeta cs = Inr payload"
  shows "DecodeMeta payload = Inr cs"
proof -
  let ?n = "word_of_nat (length cs) :: u16" and ?body = "concat (map (append_column []) cs)"
  from assms have ok: "cs \<noteq> []" "length cs \<le> 65535" "\<forall>c\<in>set cs. column_ok c"
    and p: "payload = AppendU16 [] ?n @ ?body"
    by (simp_all add: TryEncodeMeta_Inr_iff)
  have n: "unat ?n = length cs" using ok by (simp add: unat_of_small16)
  then have "?n \<noteq> 0" using ok by (auto simp: unat_eq_0 [symmetric])
  moreover have "ReadU16 payload 0 = Some (?n, 2)"
    using u16_codec.get_put [of "[]" ?n ?body] by (simp add: p)
  moreover have "DecodeColumns (length cs) payload 2 = Inr (cs, length payload)"
    using DecodeColumns_put [OF ok(3), of "AppendU16 [] ?n" "[]"] by (simp add: p)
  ultimately show ?thesis using n by (simp add: DecodeMeta_def)
qed

text \<open>The decoder accepts nothing but what the encoder writes, apart from the payload limit of the frame.\<close>

lemma DecodeMeta_sound:
  assumes "DecodeMeta payload = Inr cs" "length payload \<le> kMaxPayloadBytes"
  shows "TryEncodeMeta cs = Inr payload"
proof -
  from assms obtain n where n: "ReadU16 payload 0 = Some (n, 2)" "n \<noteq> 0"
    and cols: "opt_of (DecodeColumns (unat n) payload 2) = Some (cs, length payload)"
    by (auto simp: DecodeMeta_def ReadU16_def split: option.splits if_splits sum.splits)
  note s = u16_codec.get_sound [OF n(1), simplified]
  have c: "length cs = unat n \<and> (\<forall>c\<in>set cs. column_ok c) \<and>
      length payload = 2 + length (concat (map (append_column []) cs)) \<and>
      take (length (concat (map (append_column []) cs))) (drop 2 payload) = concat (map (append_column []) cs)"
    using column_codec.get_n_sound [of "unat n" payload 2 cs] cols s by (simp add: opt_of_DecodeColumns)
  have "unat n < 65536" by (rule unat_u16)
  moreover have "payload = AppendU16 [] n @ concat (map (append_column []) cs)"
    using c s by (metis (no_types, lifting) append_take_drop_id add_diff_cancel_left' length_drop take_all_iff order_refl)
  moreover have "word_of_nat (length cs) = n" using c by simp
  ultimately show ?thesis using c n(2) assms(2) by (auto simp: TryEncodeMeta_Inr_iff unat_eq_0)
qed

section \<open>ROW and RESULT\_END payloads\<close>

definition AppendCell :: "string \<Rightarrow> Cell \<Rightarrow> string" where
  "AppendCell payload cell =
     (if is_null cell then AppendU8 payload 0
      else let payload1 = AppendU8 payload 1 in
        if cell_type cell = kTypeInt32 then AppendU32 payload1 (int_val cell)
        else if cell_type cell = kTypeFloat32 then AppendU32 payload1 (float_val cell)
        else if cell_type cell = kTypeChar
          then AppendU32 payload1 (word_of_nat (length (cell_str cell))) @ cell_str cell
        else payload1)"

fun row_size :: "Cell list \<Rightarrow> nat \<Rightarrow> string + nat" where
  "row_size [] encoded_size = Inr encoded_size"
| "row_size (cell # cells) encoded_size =
     (if \<not> IsKnownSqlType (cell_type cell) then Inl ''ROW contains an unknown cell type''
      else if \<not> is_null cell \<and> cell_type cell = kTypeChar \<and> length (cell_str cell) > 4294967295
        then Inl ''ROW string cell is out of range''
      else let cell_size =
             1 + (if is_null cell then 0
                  else if cell_type cell = kTypeChar then 4 + length (cell_str cell) else 4)
           in if cell_size > kMaxPayloadBytes - encoded_size then Inl ''ROW payload exceeds 1 MiB''
              else row_size cells (encoded_size + cell_size))"

definition TryEncodeRow :: "Cell list \<Rightarrow> string + string" where
  "TryEncodeRow cells =
     (if cells = [] then Inl ''ROW has no cells''
      else bindE (row_size cells 0) (\<lambda>encoded_size. Inr (foldl AppendCell [] cells)))"

definition EncodeRow :: "Cell list \<Rightarrow> string" where
  "EncodeRow cells = (case TryEncodeRow cells of Inl e \<Rightarrow> [] | Inr payload \<Rightarrow> payload)"

definition EncodeRowSingleChar :: "string \<Rightarrow> string" where
  "EncodeRowSingleChar value = EncodeRow [Cell_default\<lparr>cell_type := kTypeChar, cell_str := value\<rparr>]"

definition EncodeResultEnd :: "u64 \<Rightarrow> string" where
  "EncodeResultEnd row_count = AppendU64 [] row_count"

definition DecodeCell :: "string \<Rightarrow> nat \<Rightarrow> u8 \<Rightarrow> (Cell \<times> nat) option" where
  "DecodeCell payload off sql_type =
     (if \<not> IsKnownSqlType sql_type then None
      else let cell = Cell_default\<lparr>cell_type := sql_type\<rparr> in
      (case ReadU8 payload off of
         None \<Rightarrow> None
       | Some (present, off1) \<Rightarrow>
           if present > 1 then None
           else if present = 0 then Some (cell\<lparr>is_null := True\<rparr>, off1)
           else if sql_type = kTypeInt32 then
             (case ReadU32 payload off1 of
                None \<Rightarrow> None
              | Some (bits, off2) \<Rightarrow> Some (cell\<lparr>int_val := bits\<rparr>, off2))
           else if sql_type = kTypeFloat32 then
             (case ReadU32 payload off1 of
                None \<Rightarrow> None
              | Some (bits, off2) \<Rightarrow> Some (cell\<lparr>float_val := bits\<rparr>, off2))
           else
             (case ReadU32 payload off1 of
                None \<Rightarrow> None
              | Some (str_size, off2) \<Rightarrow>
                  (case ReadBytes payload off2 (unat str_size) of
                     None \<Rightarrow> None
                   | Some (s, off3) \<Rightarrow> Some (cell\<lparr>cell_str := s\<rparr>, off3)))))"

fun DecodeCells :: "ColumnDef list \<Rightarrow> string \<Rightarrow> nat \<Rightarrow> (Cell list \<times> nat) option" where
  "DecodeCells [] payload off = Some ([], off)"
| "DecodeCells (column # columns) payload off =
     (case DecodeCell payload off (col_sql_type column) of
        None \<Rightarrow> None
      | Some (cell, off1) \<Rightarrow>
          (case DecodeCells columns payload off1 of
             None \<Rightarrow> None
           | Some (cells, off2) \<Rightarrow> Some (cell # cells, off2)))"

definition DecodeRow :: "ColumnDef list \<Rightarrow> string \<Rightarrow> string + Cell list" where
  "DecodeRow columns payload =
     (case DecodeCells columns payload 0 of
        None \<Rightarrow> Inl ''invalid ROW cell''
      | Some (row, off) \<Rightarrow>
          if off \<noteq> length payload then Inl ''trailing bytes in ROW'' else Inr row)"

text \<open>
  ``Only the field matching \<^verbatim>\<open>sql_type\<close> is used'' (\<^verbatim>\<open>wire.h\<close>): the part of a cell that a payload carries. A cell is
  in canonical form for a column type when it has no other part and its text has an encodable length.
\<close>

definition cell_view :: "Cell \<Rightarrow> Cell" where
  "cell_view c =
     (let d = Cell_default\<lparr>cell_type := cell_type c\<rparr> in
      if is_null c then d\<lparr>is_null := True\<rparr>
      else if cell_type c = kTypeInt32 then d\<lparr>int_val := int_val c\<rparr>
      else if cell_type c = kTypeFloat32 then d\<lparr>float_val := float_val c\<rparr>
      else d\<lparr>cell_str := cell_str c\<rparr>)"

definition cell_ok :: "u8 \<Rightarrow> Cell \<Rightarrow> bool" where
  "cell_ok ty c \<longleftrightarrow> IsKnownSqlType ty \<and> cell_type c = ty \<and> cell_view c = c \<and> length (cell_str c) \<le> 4294967295"

lemma AppendCell_append: "AppendCell payload c = payload @ AppendCell [] c"
  by (simp add: AppendCell_def AppendU8_def AppendU32_def Let_def)

lemma foldl_AppendCell: "foldl AppendCell out cs = out @ concat (map (AppendCell []) cs)"
proof (induction cs arbitrary: out)
  case Nil
  then show ?case by simp
next
  case (Cons c cs)
  then show ?case by (simp add: AppendCell_append [of out c])
qed

lemma cell_view_simps [simp]:
  "cell_type (cell_view c) = cell_type c" "is_null (cell_view c) = is_null c"
  "cell_view (cell_view c) = cell_view c"
  by (simp_all add: cell_view_def Let_def)

lemma AppendCell_view: "AppendCell out (cell_view c) = AppendCell out c"
  by (simp add: AppendCell_def cell_view_def Let_def wire_types)

lemma AppendCell_nonempty: "AppendCell [] c \<noteq> []"
  by (simp add: AppendCell_def AppendU8_def AppendU32_def Let_def)

lemma AppendCell_cases:
  assumes "cell_ok ty c"
  obtains "is_null c" "c = Cell_default\<lparr>cell_type := ty, is_null := True\<rparr>" "AppendCell [] c = AppendU8 [] 0"
  | i where "ty = kTypeInt32" "c = Cell_default\<lparr>cell_type := ty, int_val := i\<rparr>"
      "AppendCell [] c = AppendU8 [] 1 @ AppendU32 [] i"
  | f where "ty = kTypeFloat32" "c = Cell_default\<lparr>cell_type := ty, float_val := f\<rparr>"
      "AppendCell [] c = AppendU8 [] 1 @ AppendU32 [] f"
  | s where "ty = kTypeChar" "c = Cell_default\<lparr>cell_type := ty, cell_str := s\<rparr>" "length s \<le> 4294967295"
      "AppendCell [] c = AppendU8 [] 1 @ AppendU32 [] (word_of_nat (length s)) @ s"
proof -
  have c: "cell_type c = ty" "cell_view c = c" "length (cell_str c) \<le> 4294967295"
    "ty = kTypeInt32 \<or> ty = kTypeFloat32 \<or> ty = kTypeChar"
    using assms by (auto simp: cell_ok_def IsKnownSqlType_def)
  have img: "AppendCell [] c =
      (if is_null c then AppendU8 [] 0
       else AppendU8 [] 1 @
         (if ty = kTypeInt32 then AppendU32 [] (int_val c)
          else if ty = kTypeFloat32 then AppendU32 [] (float_val c)
          else AppendU32 [] (word_of_nat (length (cell_str c))) @ cell_str c))"
    using c by (auto simp: AppendCell_def Append_append(3) [of "AppendU8 [] 1"])
  have v: "(let d = Cell_default\<lparr>cell_type := ty\<rparr> in
      if is_null c then d\<lparr>is_null := True\<rparr>
      else if ty = kTypeInt32 then d\<lparr>int_val := int_val c\<rparr>
      else if ty = kTypeFloat32 then d\<lparr>float_val := float_val c\<rparr>
      else d\<lparr>cell_str := cell_str c\<rparr>) = c"
    using c(2) unfolding cell_view_def c(1) .
  consider "is_null c" | "\<not> is_null c" "ty = kTypeInt32" | "\<not> is_null c" "ty = kTypeFloat32"
    | "\<not> is_null c" "ty = kTypeChar"
    using c(4) by blast
  then show ?thesis
  proof cases
    case 1
    have "Cell_default\<lparr>cell_type := ty, is_null := True\<rparr> = c"
      using v 1 by (simp only: Let_def if_True)
    from that(1) [OF 1 this [symmetric]] show ?thesis using img 1 by (simp only: if_True)
  next
    case 2
    have "Cell_default\<lparr>cell_type := ty, int_val := int_val c\<rparr> = c"
      using v 2 by (simp only: Let_def if_True if_False simp_thms)
    from that(2) [OF 2(2) this [symmetric]] show ?thesis
      using img 2 by (simp only: if_True if_False simp_thms)
  next
    case 3
    then have t: "ty \<noteq> kTypeInt32" by (simp add: wire_types)
    have "Cell_default\<lparr>cell_type := ty, float_val := float_val c\<rparr> = c"
      using v 3(1) t by (simp only: Let_def if_True if_False simp_thms 3(2))
    from that(3) [OF 3(2) this [symmetric]] show ?thesis
      using img 3(1) t by (simp only: if_True if_False simp_thms 3(2))
  next
    case 4
    then have t: "ty \<noteq> kTypeInt32" "ty \<noteq> kTypeFloat32" by (simp_all add: wire_types)
    have "Cell_default\<lparr>cell_type := ty, cell_str := cell_str c\<rparr> = c"
      using v 4(1) t by (simp only: Let_def if_False simp_thms)
    from that(4) [OF 4(2) this [symmetric] c(3)] show ?thesis
      using img 4(1) t by (simp only: if_False simp_thms)
  qed
qed

interpretation cell_codec: field_codec "cell_ok ty" "AppendCell []" "\<lambda>payload off. DecodeCell payload off ty"
  for ty :: u8
proof (unfold_locales, goal_cases)
  case (1 c pre post)
  then have known: "IsKnownSqlType ty" by (simp add: cell_ok_def)
  note r8 = u8_codec.get_put [of pre, simplified]
  from 1 show ?case
  proof (cases rule: AppendCell_cases)
    case 1
    then show ?thesis using known r8 [of 0 post] by (simp add: DecodeCell_def)
  next
    case (2 i)
    have "ReadU32 (pre @ AppendU8 [] 1 @ AppendU32 [] i @ post) (length pre + 1) = Some (i, length pre + 5)"
      using u32_codec.get_put [of "pre @ AppendU8 [] 1" i post] by simp
    with 2 known r8 [of 1 "AppendU32 [] i @ post"] show ?thesis by (simp add: DecodeCell_def)
  next
    case (3 f)
    have "ReadU32 (pre @ AppendU8 [] 1 @ AppendU32 [] f @ post) (length pre + 1) = Some (f, length pre + 5)"
      using u32_codec.get_put [of "pre @ AppendU8 [] 1" f post] by simp
    with 3 known r8 [of 1 "AppendU32 [] f @ post"] show ?thesis by (simp add: DecodeCell_def wire_types)
  next
    case (4 s)
    let ?n = "word_of_nat (length s) :: u32"
    have n: "unat ?n = length s" using 4 by (simp add: unat_of_small32)
    have "ReadU32 (pre @ AppendU8 [] 1 @ AppendU32 [] ?n @ s @ post) (length pre + 1) = Some (?n, length pre + 5)"
      using u32_codec.get_put [of "pre @ AppendU8 [] 1" ?n "s @ post"] by simp
    moreover have "ReadBytes (pre @ AppendU8 [] 1 @ AppendU32 [] ?n @ s @ post) (length pre + 5) (unat ?n) =
        Some (s, length pre + 5 + length s)"
      using ReadBytes_put [OF n, of "pre @ AppendU8 [] 1 @ AppendU32 [] ?n" post] by simp
    ultimately show ?thesis
      using 4 known r8 [of 1 "AppendU32 [] ?n @ s @ post"] by (simp add: DecodeCell_def wire_types n)
  qed
next
  case (2 buf off c off')
  then obtain p o1 where known: "IsKnownSqlType ty" and r8: "ReadU8 buf off = Some (p, o1)" and p: "p \<le> 1"
    and rest: "if p = 0 then (c, off') = (Cell_default\<lparr>cell_type := ty, is_null := True\<rparr>, o1)
       else if ty = kTypeInt32 then \<exists>b. ReadU32 buf o1 = Some (b, off') \<and> c = Cell_default\<lparr>cell_type := ty, int_val := b\<rparr>
       else if ty = kTypeFloat32 then \<exists>b. ReadU32 buf o1 = Some (b, off') \<and> c = Cell_default\<lparr>cell_type := ty, float_val := b\<rparr>
       else \<exists>n o2 s. ReadU32 buf o1 = Some (n, o2) \<and> ReadBytes buf o2 (unat n) = Some (s, off') \<and>
          c = Cell_default\<lparr>cell_type := ty, cell_str := s\<rparr>"
    by (auto simp: DecodeCell_def Let_def not_less split: option.splits if_splits)
  note s8 = u8_codec.get_sound [OF r8, simplified]
  have b32: "o1 + 4 \<le> length buf \<and> q = o1 + 4 \<and> take 5 (drop off buf) = AppendU8 [] p @ AppendU32 [] b"
    if "ReadU32 buf o1 = Some (b, q)" for b q
  proof -
    note s32 = u32_codec.get_sound [OF that, simplified]
    have "take (1 + 4) (drop off buf) = AppendU8 [] p @ AppendU32 [] b"
      using s8 s32 unfolding take_add by simp
    then show ?thesis using s32 by simp
  qed
  consider (null) "p = 0" | (int) "p = 1" "ty = kTypeInt32" | (float) "p = 1" "ty = kTypeFloat32"
    | (char) "p = 1" "ty = kTypeChar"
    using p known by (auto simp: IsKnownSqlType_def le_less)
  then show ?case
  proof cases
    case null
    with rest s8 known show ?thesis by (simp add: cell_ok_def cell_view_def AppendCell_def)
  next
    case int
    with rest obtain b where "ReadU32 buf o1 = Some (b, off')" "c = Cell_default\<lparr>cell_type := ty, int_val := b\<rparr>"
      by auto
    with int s8 b32 [of b off'] known show ?thesis
      by (simp add: cell_ok_def cell_view_def AppendCell_def Append_append(3) [of "AppendU8 [] 1"])
  next
    case float
    with rest obtain b where "ReadU32 buf o1 = Some (b, off')" "c = Cell_default\<lparr>cell_type := ty, float_val := b\<rparr>"
      by (auto simp: wire_types)
    with float s8 b32 [of b off'] known show ?thesis
      by (simp add: cell_ok_def cell_view_def AppendCell_def wire_types Append_append(3) [of "AppendU8 [] 1"])
  next
    case char
    with rest obtain n o2 s where r: "ReadU32 buf o1 = Some (n, o2)" "ReadBytes buf o2 (unat n) = Some (s, off')"
      and c: "c = Cell_default\<lparr>cell_type := ty, cell_str := s\<rparr>"
      by (auto simp: wire_types)
    note sb = ReadBytes_sound [OF r(2)]
    have n: "word_of_nat (length s) = n" "length s \<le> 4294967295"
      using sb unat_u32 [of n] by simp_all
    have "take (5 + length s) (drop off buf) = AppendU8 [] 1 @ AppendU32 [] n @ s"
      using b32 [OF r(1)] sb s8 char unfolding take_add by (simp add: add.commute)
    with char s8 b32 [OF r(1)] sb known n c show ?thesis
      by (simp add: cell_ok_def cell_view_def AppendCell_def wire_types Append_append(3) [of "AppendU8 [] 1"])
  qed
qed

lemma length_AppendCell:
  "IsKnownSqlType (cell_type c) \<Longrightarrow>
   length (AppendCell [] c) =
     1 + (if is_null c then 0 else if cell_type c = kTypeChar then 4 + length (cell_str c) else 4)"
  by (auto simp: AppendCell_def IsKnownSqlType_def wire_types Let_def)

lemma row_size_Inr:
  "row_size cs n = Inr m \<Longrightarrow> n \<le> kMaxPayloadBytes \<Longrightarrow>
   (\<forall>c\<in>set cs. IsKnownSqlType (cell_type c)) \<and> m = n + length (concat (map (AppendCell []) cs)) \<and>
   m \<le> kMaxPayloadBytes"
proof (induction cs arbitrary: n)
  case Nil
  then show ?case by simp
next
  case (Cons c cs)
  from Cons.prems have c: "IsKnownSqlType (cell_type c)" by (simp split: if_splits)
  from Cons.prems have fits: "length (AppendCell [] c) \<le> kMaxPayloadBytes - n"
    and rest: "row_size cs (n + length (AppendCell [] c)) = Inr m"
    by (simp_all only: length_AppendCell [OF c] row_size.simps Let_def not_less c not_True_eq_False if_False
        split: if_splits) simp_all
  have "n + length (AppendCell [] c) \<le> kMaxPayloadBytes" using fits Cons.prems(2) by linarith
  from Cons.IH [OF rest this] c show ?case by simp
qed

lemma row_size_complete:
  "\<forall>c\<in>set cs. IsKnownSqlType (cell_type c) \<Longrightarrow> n + length (concat (map (AppendCell []) cs)) \<le> kMaxPayloadBytes \<Longrightarrow>
   row_size cs n = Inr (n + length (concat (map (AppendCell []) cs)))"
proof (induction cs arbitrary: n)
  case Nil
  then show ?case by simp
next
  case (Cons c cs)
  have len: "length (AppendCell [] c) \<le> kMaxPayloadBytes - n" and c: "IsKnownSqlType (cell_type c)"
    using Cons.prems by simp_all
  have "row_size cs (n + length (AppendCell [] c)) = Inr (n + length (concat (map (AppendCell []) (c # cs))))"
    using Cons.IH [of "n + length (AppendCell [] c)"] Cons.prems by (simp add: add.assoc)
  moreover have "\<not> (\<not> is_null c \<and> cell_type c = kTypeChar \<and> length (cell_str c) > 4294967295)"
    using len by (auto simp: length_AppendCell [OF c] kMaxPayloadBytes_def)
  ultimately show ?case using c len by (simp add: length_AppendCell [OF c] Let_def not_less)
qed

text \<open>What \<^verbatim>\<open>TryEncodeRow\<close> accepts and what it then writes.\<close>

lemma TryEncodeRow_Inr_iff:
  "TryEncodeRow cs = Inr payload \<longleftrightarrow>
     cs \<noteq> [] \<and> (\<forall>c\<in>set cs. IsKnownSqlType (cell_type c)) \<and> length payload \<le> kMaxPayloadBytes \<and>
     payload = concat (map (AppendCell []) cs)"
  using row_size_Inr [of cs 0] row_size_complete [of cs 0]
  by (auto simp: TryEncodeRow_def foldl_AppendCell)

lemma cell_view_ok:
  assumes "IsKnownSqlType (cell_type c)" "length (AppendCell [] c) \<le> kMaxPayloadBytes"
  shows "cell_ok (cell_type c) (cell_view c)"
proof -
  have "length (cell_str (cell_view c)) \<le> 4294967295"
    using assms by (auto simp: length_AppendCell cell_view_def Let_def kMaxPayloadBytes_def IsKnownSqlType_def wire_types)
  with assms(1) show ?thesis by (simp add: cell_ok_def)
qed

lemma DecodeCells_put:
  assumes "list_all2 (\<lambda>col c. cell_ok (col_sql_type col) c) cols cs"
  shows "DecodeCells cols (pre @ concat (map (AppendCell []) cs) @ post) (length pre) =
    Some (cs, length pre + length (concat (map (AppendCell []) cs)))"
  using assms
proof (induction arbitrary: pre rule: list_all2_induct)
  case Nil
  then show ?case by simp
next
  case (Cons col cols c cs)
  have "DecodeCell (pre @ AppendCell [] c @ concat (map (AppendCell []) cs) @ post) (length pre) (col_sql_type col) =
      Some (c, length (pre @ AppendCell [] c))"
    using cell_codec.get_put [OF Cons.hyps(1), of pre "concat (map (AppendCell []) cs) @ post"] by simp
  moreover have "DecodeCells cols ((pre @ AppendCell [] c) @ concat (map (AppendCell []) cs) @ post)
      (length (pre @ AppendCell [] c)) =
      Some (cs, length (pre @ AppendCell [] c) + length (concat (map (AppendCell []) cs)))"
    by (rule Cons.IH)
  ultimately show ?case by simp
qed

lemma DecodeCells_sound:
  assumes "DecodeCells cols buf off = Some (cs, off')" "off \<le> length buf"
  shows "list_all2 (\<lambda>col c. cell_ok (col_sql_type col) c) cols cs \<and>
    off' = off + length (concat (map (AppendCell []) cs)) \<and> off' \<le> length buf \<and>
    take (length (concat (map (AppendCell []) cs))) (drop off buf) = concat (map (AppendCell []) cs)"
  using assms
proof (induction cols arbitrary: off cs)
  case Nil
  then show ?case by auto
next
  case (Cons col cols)
  from Cons.prems obtain c o1 ds where c: "DecodeCell buf off (col_sql_type col) = Some (c, o1)"
    and ds: "DecodeCells cols buf o1 = Some (ds, off')" and cs: "cs = c # ds"
    by (auto split: option.splits)
  note s = cell_codec.get_sound [OF c]
  have ih: "list_all2 (\<lambda>col c. cell_ok (col_sql_type col) c) cols ds \<and>
    off' = o1 + length (concat (map (AppendCell []) ds)) \<and> off' \<le> length buf \<and>
    take (length (concat (map (AppendCell []) ds))) (drop o1 buf) = concat (map (AppendCell []) ds)"
    using Cons.IH [OF ds] s by simp
  have "take (length (AppendCell [] c) + length (concat (map (AppendCell []) ds))) (drop off buf) =
      AppendCell [] c @ concat (map (AppendCell []) ds)"
    using s ih by (simp add: take_add add.commute)
  with s ih show ?case by (simp add: cs)
qed

lemma DecodeRow_TryEncodeRow:
  assumes "TryEncodeRow cs = Inr payload" "map cell_type cs = map col_sql_type cols"
  shows "DecodeRow cols payload = Inr (map cell_view cs)"
proof -
  from assms(1) have known: "\<forall>c\<in>set cs. IsKnownSqlType (cell_type c)" and len: "length payload \<le> kMaxPayloadBytes"
    and p: "payload = concat (map (AppendCell []) cs)"
    unfolding TryEncodeRow_Inr_iff by blast+
  have "length (AppendCell [] c) \<le> kMaxPayloadBytes" if "c \<in> set cs" for c
    using len member_le_sum_list [of "length (AppendCell [] c)" "map (length \<circ> AppendCell []) cs"] that
    by (simp add: p length_concat comp_def)
  then have "\<forall>c\<in>set cs. cell_ok (cell_type c) (cell_view c)"
    using known by (simp add: cell_view_ok)
  then have "list_all2 (\<lambda>col c. cell_ok (col_sql_type col) c) cols (map cell_view cs)"
    using assms(2) by (auto simp: list_all2_conv_all_nth list_eq_iff_nth_eq) (metis nth_map nth_mem)
  from DecodeCells_put [OF this, of "[]" "[]"]
  show ?thesis by (simp add: DecodeRow_def p comp_def AppendCell_view)
qed

lemma DecodeRow_sound:
  assumes "DecodeRow cols payload = Inr cs"
  shows "list_all2 (\<lambda>col c. cell_ok (col_sql_type col) c) cols cs \<and> payload = concat (map (AppendCell []) cs)"
  using assms DecodeCells_sound [of cols payload 0]
  by (auto simp: DecodeRow_def split: option.splits if_splits)

section \<open>Properties\<close>

text \<open>
  C12 (META payloads). For every payload that fits a frame, the checked encoder produces it from a column list
  exactly when the client decodes it to that column list: the two are inverse, and the decoder accepts no
  other bytes.
\<close>

theorem meta_encode_decode:
  assumes "length payload \<le> kMaxPayloadBytes"
  shows "TryEncodeMeta cs = Inr payload \<longleftrightarrow> DecodeMeta payload = Inr cs"
  using assms DecodeMeta_TryEncodeMeta DecodeMeta_sound by blast

theorem meta_encode_decode_witness:
  "DecodeMeta [CHR 0x00, CHR 0x01, CHR 0x00, CHR 0x02, CHR ''i'', CHR ''d'', CHR 0x01] =
     Inr [\<lparr>col_label = ''id'', col_sql_type = kTypeInt32\<rparr>]"
proof -
  have "TryEncodeMeta [\<lparr>col_label = ''id'', col_sql_type = kTypeInt32\<rparr>] =
      Inr [CHR 0x00, CHR 0x01, CHR 0x00, CHR 0x02, CHR ''i'', CHR ''d'', CHR 0x01]"
    by (simp add: TryEncodeMeta_def IsKnownSqlType_def wire_types wire_limits append_column_def AppendU8_def
        AppendU16_def eval_simps char_of_def bit_Suc_0_iff)
  then show ?thesis
    using meta_encode_decode [of "[CHR 0x00, CHR 0x01, CHR 0x00, CHR 0x02, CHR ''i'', CHR ''d'', CHR 0x01]"
        "[\<lparr>col_label = ''id'', col_sql_type = kTypeInt32\<rparr>]"]
    by (simp add: wire_limits)
qed

text \<open>
  C13 (ROW payloads). For canonical cells and a payload that fits a frame, the checked encoder produces the
  payload from the cells and the cells have the column types exactly when the client decodes it to those
  cells under these columns.
\<close>

theorem row_encode_decode:
  assumes "cols \<noteq> []" "length payload \<le> kMaxPayloadBytes" "\<forall>c\<in>set cs. cell_view c = c"
  shows "TryEncodeRow cs = Inr payload \<and> map cell_type cs = map col_sql_type cols \<longleftrightarrow>
    DecodeRow cols payload = Inr cs"
proof
  assume "TryEncodeRow cs = Inr payload \<and> map cell_type cs = map col_sql_type cols"
  then show "DecodeRow cols payload = Inr cs"
    using DecodeRow_TryEncodeRow [of cs payload cols] assms(3) by (simp add: map_idI)
next
  assume "DecodeRow cols payload = Inr cs"
  from DecodeRow_sound [OF this] have c: "list_all2 (\<lambda>col c. cell_ok (col_sql_type col) c) cols cs"
    and p: "payload = concat (map (AppendCell []) cs)" by simp_all
  from c have "map cell_type cs = map col_sql_type cols" "\<forall>c\<in>set cs. IsKnownSqlType (cell_type c)" "cs \<noteq> []"
    using assms(1) by (auto simp: list_all2_conv_all_nth cell_ok_def in_set_conv_nth intro: nth_equalityI)
  with p assms(2) show "TryEncodeRow cs = Inr payload \<and> map cell_type cs = map col_sql_type cols"
    unfolding TryEncodeRow_Inr_iff by simp
qed

theorem row_encode_decode_witness:
  "DecodeRow [\<lparr>col_label = ''id'', col_sql_type = kTypeInt32\<rparr>] [CHR 0x01, CHR 0x00, CHR 0x00, CHR 0x01, CHR 0x05] =
     Inr [Cell_default\<lparr>cell_type := kTypeInt32, int_val := 261\<rparr>]"
proof -
  have "TryEncodeRow [Cell_default\<lparr>cell_type := kTypeInt32, int_val := 261\<rparr>] =
      Inr [CHR 0x01, CHR 0x00, CHR 0x00, CHR 0x01, CHR 0x05]"
    by (simp add: TryEncodeRow_def IsKnownSqlType_def wire_types wire_limits AppendCell_def AppendU8_def
        AppendU32_def eval_simps char_of_def bit_Suc_0_iff)
  then show ?thesis
    using row_encode_decode [of "[\<lparr>col_label = ''id'', col_sql_type = kTypeInt32\<rparr>]"
        "[CHR 0x01, CHR 0x00, CHR 0x00, CHR 0x01, CHR 0x05]" "[Cell_default\<lparr>cell_type := kTypeInt32, int_val := 261\<rparr>]"]
    by (simp add: cell_view_def wire_limits)
qed

end
