(* ===== verification/Wire_Transport.thy ===== *)
theory Wire_Transport
  imports Wire_Codec
begin

text \<open>
  The socket layer of \<^verbatim>\<open>src/src/net/wire.cpp\<close>: \<^verbatim>\<open>ReadExact\<close>, \<^verbatim>\<open>WriteAll\<close>, \<^verbatim>\<open>WriteVectorsAll\<close>, the handshake and
  the frame reader and writer.

  The kernel's side of a connection is a script. \<open>inbox\<close> lists what successive \<^verbatim>\<open>recv\<close> calls meet: data
  that has arrived (a call takes at most as many bytes as it asked for and leaves the rest), an
  interruption, an expired timeout or a failure; after the last event the peer has closed. \<open>sends\<close> lists
  how successive \<^verbatim>\<open>send\<close> and \<^verbatim>\<open>sendmsg\<close> calls end; after the last event a call takes everything. A theorem
  that quantifies over these scripts covers every way the kernel can cut the stream into pieces.
\<close>

section \<open>The kernel's side of a connection\<close>

datatype net_event = Data string | Interrupted | WouldBlock | Failed string

datatype send_event = Accept nat | SendInterrupted | SendFailed

record conn =
  fd :: int
  inbox :: "net_event list"
  sends :: "send_event list"
  outbox :: string

datatype recv_result = Bytes string | RecvEintr | RecvEagain | RecvErrno string

fun recv :: "nat \<Rightarrow> net_event list \<Rightarrow> recv_result \<times> net_event list" where
  "recv n [] = (Bytes [], [])"
| "recv n (Data bs # es) = (Bytes (take n bs), if length bs \<le> n then es else Data (drop n bs) # es)"
| "recv n (Interrupted # es) = (RecvEintr, es)"
| "recv n (WouldBlock # es) = (RecvEagain, es)"
| "recv n (Failed e # es) = (RecvErrno e, es)"

datatype send_result = Sent nat | SendEintr | SendErrno

fun send :: "nat \<Rightarrow> send_event list \<Rightarrow> send_result \<times> send_event list" where
  "send n [] = (Sent n, [])"
| "send n (Accept k # es) = (Sent (min k n), es)"
| "send n (SendInterrupted # es) = (SendEintr, es)"
| "send n (SendFailed # es) = (SendErrno, es)"

text \<open>The bytes an inbox delivers, and when it delivers them without a failure.\<close>

fun event_bytes :: "net_event \<Rightarrow> string" where
  "event_bytes (Data bs) = bs"
| "event_bytes _ = []"

definition stream :: "net_event list \<Rightarrow> string" where
  "stream es = concat (map event_bytes es)"

fun clean_event :: "net_event \<Rightarrow> bool" where
  "clean_event (Data bs) \<longleftrightarrow> bs \<noteq> []"
| "clean_event Interrupted \<longleftrightarrow> True"
| "clean_event _ \<longleftrightarrow> False"

definition clean :: "net_event list \<Rightarrow> bool" where
  "clean es \<longleftrightarrow> list_all clean_event es"

fun clean_send :: "send_event \<Rightarrow> bool" where
  "clean_send (Accept k) \<longleftrightarrow> 0 < k"
| "clean_send SendInterrupted \<longleftrightarrow> True"
| "clean_send SendFailed \<longleftrightarrow> False"

definition clean_sends :: "send_event list \<Rightarrow> bool" where
  "clean_sends es \<longleftrightarrow> list_all clean_send es"

fun event_weight :: "net_event \<Rightarrow> nat" where
  "event_weight (Data bs) = Suc (length bs)"
| "event_weight _ = 1"

definition weight :: "net_event list \<Rightarrow> nat" where
  "weight es = sum_list (map event_weight es)"

lemma stream_simps [simp]:
  "stream [] = []" "stream (e # es) = event_bytes e @ stream es"
  by (simp_all add: stream_def)

lemma clean_simps [simp]:
  "clean []" "clean (e # es) \<longleftrightarrow> clean_event e \<and> clean es"
  "clean_sends []" "clean_sends (s # ss) \<longleftrightarrow> clean_send s \<and> clean_sends ss"
  by (simp_all add: clean_def clean_sends_def)

lemma weight_simps [simp]:
  "weight [] = 0" "weight (e # es) = event_weight e + weight es"
  by (simp_all add: weight_def)

lemma recv_Bytes:
  "recv n es = (Bytes bs, es') \<Longrightarrow>
   length bs \<le> n \<and> stream es = bs @ stream es' \<and> (clean es \<longrightarrow> clean es') \<and>
   (bs \<noteq> [] \<longrightarrow> weight es' < weight es)"
  by (cases "(n, es)" rule: recv.cases) auto

lemma recv_Eintr:
  "recv n es = (RecvEintr, es') \<Longrightarrow> stream es = stream es' \<and> (clean es \<longrightarrow> clean es') \<and> weight es' < weight es"
  by (cases "(n, es)" rule: recv.cases) auto

lemma recv_clean:
  "clean es \<Longrightarrow> recv n es = (r, es') \<Longrightarrow> r = RecvEintr \<or> (\<exists>bs. r = Bytes bs)"
  by (cases "(n, es)" rule: recv.cases) auto

lemma recv_clean_progress:
  "clean es \<Longrightarrow> recv n es = (Bytes [], es') \<Longrightarrow> 0 < n \<Longrightarrow> stream es = []"
  by (cases "(n, es)" rule: recv.cases) auto

section \<open>Reading\<close>

datatype IoReadStatus = IoOk | IoEof | IoTimeout | IoError

text \<open>The loop of \<^verbatim>\<open>ReadExactInternal\<close>: \<open>got\<close> is the part of the buffer filled so far.\<close>

function read_loop :: "nat \<Rightarrow> string \<Rightarrow> net_event list \<Rightarrow> (IoReadStatus \<times> string \<times> string) \<times> net_event list" where
  "read_loop n got es =
     (if length got \<ge> n then ((IoOk, got, []), es)
      else (case recv (n - length got) es of
          (RecvEintr, es') \<Rightarrow> read_loop n got es'
        | (RecvEagain, es') \<Rightarrow> ((IoTimeout, got, ''socket read timed out''), es')
        | (RecvErrno e, es') \<Rightarrow> ((IoError, got, ''socket read failed: '' @ e), es')
        | (Bytes bs, es') \<Rightarrow>
            if bs = [] then ((IoEof, got, ''peer closed the connection''), es')
            else read_loop n (got @ bs) es'))"
  by pat_completeness auto
termination
  by (relation "measure (\<lambda>(n, got, es). weight es)") (auto dest!: sym [of "(_, _)"] recv_Bytes recv_Eintr)

declare read_loop.simps [simp del]

definition ReadExactInternal :: "conn \<Rightarrow> nat \<Rightarrow> (IoReadStatus \<times> string \<times> string) \<times> conn" where
  "ReadExactInternal c n =
     (if fd c < 0 then ((IoError, [], ''invalid read arguments''), c)
      else let (r, es) = read_loop n [] (inbox c) in (r, c\<lparr>inbox := es\<rparr>))"

definition ReadExact :: "conn \<Rightarrow> nat \<Rightarrow> (bool \<times> string) \<times> conn" where
  "ReadExact c n = (case ReadExactInternal c n of ((status, buf, d), c') \<Rightarrow> ((status = IoOk, buf), c'))"

text \<open>A read that succeeds returns the next bytes of the stream, however it was cut.\<close>

lemma read_loop_Ok:
  "read_loop n got es = ((IoOk, buf, d), es') \<Longrightarrow> length got \<le> n \<Longrightarrow>
   length buf = n \<and> got @ stream es = buf @ stream es' \<and> (clean es \<longrightarrow> clean es') \<and>
   weight es' \<le> weight es \<and> (length got < n \<longrightarrow> weight es' < weight es)"
proof (induction n got es rule: read_loop.induct)
  case (1 n got es)
  show ?case
  proof (cases "length got \<ge> n")
    case True
    with 1 show ?thesis by (auto simp: read_loop.simps)
  next
    case False
    obtain r es1 where r: "recv (n - length got) es = (r, es1)" by fastforce
    show ?thesis
    proof (cases r)
      case (Bytes bs)
      with False r 1(3) have ne: "bs \<noteq> []" and rec: "read_loop n (got @ bs) es1 = ((IoOk, buf, d), es')"
        by (auto simp: read_loop.simps [of n got es] split: if_splits)
      note b = recv_Bytes [OF r [unfolded Bytes]]
      have "length (got @ bs) \<le> n" using b False by (simp, linarith)
      from 1(1) [OF False r [symmetric] Bytes ne rec this] b ne show ?thesis by auto
    next
      case RecvEintr
      with False r 1(3) have rec: "read_loop n got es1 = ((IoOk, buf, d), es')"
        by (simp add: read_loop.simps [of n got es])
      with recv_Eintr [OF r [unfolded RecvEintr]] False 1(2) [OF False r [symmetric] RecvEintr rec] show ?thesis
        by auto
    qed (use False r 1(3) in \<open>auto simp: read_loop.simps [of n got es]\<close>)
  qed
qed

text \<open>On a clean inbox with enough bytes the read succeeds.\<close>

lemma read_loop_total:
  "clean es \<Longrightarrow> n \<le> length got + length (stream es) \<Longrightarrow>
   \<exists>buf d es'. read_loop n got es = ((IoOk, buf, d), es')"
proof (induction n got es rule: read_loop.induct)
  case (1 n got es)
  show ?case
  proof (cases "length got \<ge> n")
    case True
    then show ?thesis by (simp add: read_loop.simps)
  next
    case False
    obtain r es1 where r: "recv (n - length got) es = (r, es1)" by fastforce
    from recv_clean [OF 1(3) r] consider (intr) "r = RecvEintr" | (bytes) bs where "r = Bytes bs" by blast
    then show ?thesis
    proof cases
      case intr
      with recv_Eintr r 1(3,4) have "clean es1" "n \<le> length got + length (stream es1)" by auto
      from 1(2) [OF False r [symmetric] intr this] show ?thesis
        using False r intr by (simp add: read_loop.simps [of n got es])
    next
      case (bytes bs)
      note b = recv_Bytes [OF r [unfolded bytes]]
      have ne: "bs \<noteq> []"
        using recv_clean_progress [of es "n - length got" es1] r bytes 1(3,4) False by auto
      from b 1(3,4) have "clean es1" "n \<le> length (got @ bs) + length (stream es1)" by auto
      from 1(1) [OF False r [symmetric] bytes ne this] show ?thesis
        using False r bytes ne by (simp add: read_loop.simps [of n got es])
    qed
  qed
qed

lemma read_loop_clean:
  assumes "clean es" "stream es = bs @ rest" "length bs = n"
  obtains d es' where "read_loop n [] es = ((IoOk, bs, d), es')" "clean es'" "stream es' = rest"
proof -
  from read_loop_total [OF assms(1), of n "[]"] assms(2,3)
  obtain buf d es' where r: "read_loop n [] es = ((IoOk, buf, d), es')" by auto
  note ok = read_loop_Ok [OF r]
  have "buf @ stream es' = bs @ rest" "length buf = length bs" using ok assms(2,3) by simp_all
  then have "buf = bs" "stream es' = rest" by simp_all
  with r ok assms(1) that show ?thesis by simp
qed

section \<open>Writing\<close>

text \<open>The loop of \<^verbatim>\<open>WriteAll\<close>, over the bytes that are still to be sent; the second result is what left.\<close>

function write_loop :: "string \<Rightarrow> send_event list \<Rightarrow> string \<Rightarrow> bool \<times> send_event list \<times> string" where
  "write_loop left es out =
     (if left = [] then (True, es, out)
      else (case send (length left) es of
          (SendEintr, es') \<Rightarrow> write_loop left es' out
        | (SendErrno, es') \<Rightarrow> (False, es', out)
        | (Sent w, es') \<Rightarrow>
            if w = 0 then (False, es', out) else write_loop (drop w left) es' (out @ take w left)))"
  by pat_completeness auto

lemma send_Sent: "send n es = (Sent w, es') \<Longrightarrow> w \<le> n \<and> (es = [] \<and> w = n \<and> es' = [] \<or> length es' < length es)"
  by (cases "(n, es)" rule: send.cases) auto

lemma send_Eintr: "send n es = (SendEintr, es') \<Longrightarrow> length es' < length es"
  by (cases "(n, es)" rule: send.cases) auto

lemma send_clean:
  "clean_sends es \<Longrightarrow> send n es = (r, es') \<Longrightarrow> 0 < n \<Longrightarrow>
   clean_sends es' \<and> (r = SendEintr \<or> (\<exists>w. r = Sent w \<and> 0 < w))"
  by (cases "(n, es)" rule: send.cases) auto

termination write_loop
proof (relation "measure (\<lambda>(left, es, out). 2 * length es + (if left = [] then 0 else 1))", goal_cases)
  case 1
  then show ?case by simp
next
  case (2 left es out x y w)
  then show ?case using send_Sent [of "length left" es w y] by auto
next
  case (3 left es out x y)
  then show ?case using send_Eintr [of "length left" es y] by auto
qed

declare write_loop.simps [simp del]

definition WriteAll :: "conn \<Rightarrow> string \<Rightarrow> bool \<times> conn" where
  "WriteAll c buf =
     (if fd c < 0 then (False, c)
      else let (ok, es, out) = write_loop buf (sends c) (outbox c) in (ok, c\<lparr>sends := es, outbox := out\<rparr>))"

text \<open>The inner loop of \<^verbatim>\<open>WriteVectorsAll\<close>, which drops sent vectors and advances into the first unsent one.\<close>

fun drop_vectors :: "nat \<Rightarrow> string list \<Rightarrow> string list" where
  "drop_vectors consumed [] = []"
| "drop_vectors consumed (v # vs) =
     (if consumed \<ge> length v then drop_vectors (consumed - length v) vs
      else if consumed \<noteq> 0 then drop consumed v # vs
      else v # vs)"

function write_vectors :: "string list \<Rightarrow> send_event list \<Rightarrow> string \<Rightarrow> bool \<times> send_event list \<times> string" where
  "write_vectors vectors es out =
     (if vectors = [] then (True, es, out)
      else (case send (length (concat vectors)) es of
          (SendEintr, es') \<Rightarrow> write_vectors vectors es' out
        | (SendErrno, es') \<Rightarrow> (False, es', out)
        | (Sent w, es') \<Rightarrow>
            if w = 0 then (False, es', out)
            else write_vectors (drop_vectors w vectors) es' (out @ take w (concat vectors))))"
  by pat_completeness auto

lemma concat_drop_vectors: "concat (drop_vectors n vs) = drop n (concat vs)"
  by (induction n vs rule: drop_vectors.induct) auto

lemma drop_vectors_all: "length (concat vs) \<le> n \<Longrightarrow> drop_vectors n vs = []"
  by (induction n vs rule: drop_vectors.induct) auto

termination write_vectors
proof (relation "measure (\<lambda>(vs, es, out). 2 * length es + (if vs = [] then 0 else 1))", goal_cases)
  case 1
  then show ?case by simp
next
  case (2 vs es out x y w)
  then show ?case using send_Sent [of "length (concat vs)" es w y] by (auto simp: drop_vectors_all)
next
  case (3 vs es out x y)
  then show ?case using send_Eintr [of "length (concat vs)" es y] by auto
qed

declare write_vectors.simps [simp del]

definition WriteVectorsAll :: "conn \<Rightarrow> string list \<Rightarrow> bool \<times> conn" where
  "WriteVectorsAll c vectors =
     (let (ok, es, out) = write_vectors vectors (sends c) (outbox c) in (ok, c\<lparr>sends := es, outbox := out\<rparr>))"

text \<open>
  The gathered write is the flat write: vectors none of which is empty behave as their concatenation,
  whatever the kernel accepts at each call.
\<close>

lemma drop_vectors_nonempty: "\<forall>v\<in>set vs. v \<noteq> [] \<Longrightarrow> \<forall>v\<in>set (drop_vectors n vs). v \<noteq> []"
  by (induction n vs rule: drop_vectors.induct) auto

lemma write_vectors_flat:
  "\<forall>v\<in>set vs. v \<noteq> [] \<Longrightarrow> write_vectors vs es out = write_loop (concat vs) es out"
proof (induction vs es out rule: write_vectors.induct)
  case (1 vs es out)
  have empty: "concat vs = [] \<longleftrightarrow> vs = []" using 1(3) by (cases vs) auto
  show ?case
  proof (cases "vs = []")
    case True
    then show ?thesis by (simp add: write_vectors.simps write_loop.simps)
  next
    case False
    obtain r es' where r: "send (length (concat vs)) es = (r, es')" by fastforce
    show ?thesis
      using False empty r 1(1) [OF False r [symmetric]] 1(2) [OF False r [symmetric]] 1(3)
        drop_vectors_nonempty [OF 1(3)]
      by (cases r) (simp_all add: write_vectors.simps [of vs es out] write_loop.simps [of "concat vs" es out]
          concat_drop_vectors)
  qed
qed

text \<open>What a write puts on the wire: everything on success, a prefix on failure; and when it succeeds.\<close>

lemma write_loop_out:
  "write_loop bs es out = (ok, es', out') \<Longrightarrow>
   \<exists>k\<le>length bs. out' = out @ take k bs \<and> (ok \<longleftrightarrow> k = length bs)"
proof (induction bs es out arbitrary: ok es' out' rule: write_loop.induct)
  case (1 bs es out)
  show ?case
  proof (cases "bs = []")
    case True
    with 1(3) show ?thesis by (simp add: write_loop.simps)
  next
    case False
    obtain r es1 where r: "send (length bs) es = (r, es1)" by fastforce
    show ?thesis
    proof (cases r)
      case (Sent w)
      note w = send_Sent [OF r [unfolded Sent]]
      show ?thesis
      proof (cases "w = 0")
        case True
        with 1(3) False r Sent have "\<not> ok" "out' = out" by (auto simp: write_loop.simps [of bs])
        with False show ?thesis by (intro exI [of _ 0]) simp
      next
        case nz: False
        with 1(3) False r Sent have "write_loop (drop w bs) es1 (out @ take w bs) = (ok, es', out')"
          by (simp add: write_loop.simps [of bs])
        from 1(1) [OF False r [symmetric] Sent nz this] obtain k where
          "k \<le> length bs - w" "out' = out @ take w bs @ take k (drop w bs)" "ok \<longleftrightarrow> k = length bs - w" by auto
        with w show ?thesis by (intro exI [of _ "w + k"]) (auto simp: take_add)
      qed
    next
      case SendEintr
      with 1(3) False r have "write_loop bs es1 out = (ok, es', out')" by (simp add: write_loop.simps [of bs])
      from 1(2) [OF False r [symmetric] SendEintr this] show ?thesis .
    next
      case SendErrno
      with 1(3) False r have "\<not> ok" "out' = out" by (auto simp: write_loop.simps [of bs])
      with False show ?thesis by (intro exI [of _ 0]) simp
    qed
  qed
qed

lemma write_loop_total:
  "clean_sends es \<Longrightarrow> \<exists>es'. write_loop bs es out = (True, es', out @ bs) \<and> clean_sends es'"
proof (induction bs es out rule: write_loop.induct)
  case (1 bs es out)
  show ?case
  proof (cases "bs = []")
    case True
    with 1(3) show ?thesis by (simp add: write_loop.simps)
  next
    case False
    obtain r es1 where r: "send (length bs) es = (r, es1)" by fastforce
    from send_clean [OF 1(3) r] False
    consider (intr) "r = SendEintr" "clean_sends es1" | (sent) w where "r = Sent w" "0 < w" "clean_sends es1" by auto
    then show ?thesis
    proof cases
      case intr
      from 1(2) [OF False r [symmetric] intr] show ?thesis
        using False r intr by (simp add: write_loop.simps [of bs])
    next
      case (sent w)
      from 1(1) [OF False r [symmetric] sent(1) _ sent(3)] show ?thesis
        using False r sent by (simp add: write_loop.simps [of bs])
    qed
  qed
qed

lemma ReadExactInternal_clean:
  assumes "0 \<le> fd c" "clean (inbox c)" "stream (inbox c) = bs @ rest" "length bs = n"
  obtains d es where "ReadExactInternal c n = ((IoOk, bs, d), c\<lparr>inbox := es\<rparr>)" "clean es" "stream es = rest"
proof -
  obtain d es where "read_loop n [] (inbox c) = ((IoOk, bs, d), es)" "clean es" "stream es = rest"
    by (rule read_loop_clean [OF assms(2-4)])
  with that assms(1) show ?thesis by (simp add: ReadExactInternal_def)
qed

lemma ReadExactInternal_Ok:
  assumes "ReadExactInternal c n = ((IoOk, buf, d), c')"
  obtains es where "c' = c\<lparr>inbox := es\<rparr>" "length buf = n" "stream (inbox c) = buf @ stream es"
    "clean (inbox c) \<longrightarrow> clean es" "weight es \<le> weight (inbox c)" "0 < n \<longrightarrow> weight es < weight (inbox c)"
  using assms read_loop_Ok [of n "[]" "inbox c" buf d]
  by (auto simp: ReadExactInternal_def Let_def split: if_splits prod.splits)

lemma WriteAll_True:
  assumes "WriteAll c bs = (True, c')"
  shows "outbox c' = outbox c @ bs \<and> inbox c' = inbox c \<and> fd c' = fd c"
  using assms write_loop_out [of bs "sends c" "outbox c" True]
  by (fastforce simp: WriteAll_def Let_def split: if_splits prod.splits)

lemma WriteAll_clean:
  assumes "0 \<le> fd c" "clean_sends (sends c)"
  obtains es where "WriteAll c bs = (True, c\<lparr>sends := es, outbox := outbox c @ bs\<rparr>)" "clean_sends es"
  using write_loop_total [OF assms(2), of bs "outbox c"] assms(1) by (auto simp: WriteAll_def)

section \<open>Handshake\<close>

definition handshake_bytes :: string where
  "handshake_bytes = kMagic @ be_bytes 2 (unat kMajor) @ be_bytes 2 (unat kMinor)"

definition WriteHandshakeBytes :: "conn \<Rightarrow> bool \<times> conn" where
  "WriteHandshakeBytes c = WriteAll c handshake_bytes"

definition CheckHandshakeBytes :: "string \<Rightarrow> bool" where
  "CheckHandshakeBytes msg \<longleftrightarrow>
     take 4 msg = kMagic \<and>
     word_of_nat (be_val (take 2 (drop 4 msg))) = kMajor \<and> word_of_nat (be_val (take 2 (drop 6 msg))) = kMinor"

definition WriteHandshake :: "conn \<Rightarrow> bool \<times> conn" where
  "WriteHandshake c = WriteHandshakeBytes c"

definition ReadAndCheckHandshake :: "conn \<Rightarrow> bool \<times> conn" where
  "ReadAndCheckHandshake c =
     (case ReadExact c 8 of ((ok, msg), c1) \<Rightarrow>
        if \<not> ok then (False, c1)
        else if \<not> CheckHandshakeBytes msg then (False, c1)
        else WriteAll c1 msg)"

definition ClientHandshake :: "conn \<Rightarrow> bool \<times> conn" where
  "ClientHandshake c =
     (case WriteHandshakeBytes c of (ok, c1) \<Rightarrow>
        if \<not> ok then (False, c1)
        else (case ReadExact c1 8 of ((ok2, echo), c2) \<Rightarrow>
          if \<not> ok2 then (False, c2) else (CheckHandshakeBytes echo, c2)))"

lemma length_handshake [simp]: "length handshake_bytes = 8"
  by (simp add: handshake_bytes_def kMagic_def)

text \<open>Exactly one 8 byte message passes the check.\<close>

lemma CheckHandshakeBytes_iff:
  assumes "length msg = 8"
  shows "CheckHandshakeBytes msg \<longleftrightarrow> msg = handshake_bytes"
proof
  assume c: "CheckHandshakeBytes msg"
  have l2: "length (take 2 (drop 4 msg)) = 2" "length (take 2 (drop 6 msg)) = 2" using assms by simp_all
  have "be_bytes 2 (unat (word_of_nat (be_val (take 2 (drop 4 msg))) :: u16)) = take 2 (drop 4 msg)"
    "be_bytes 2 (unat (word_of_nat (be_val (take 2 (drop 6 msg))) :: u16)) = take 2 (drop 6 msg)"
    using be_word_sound [where ?'a = 16, of "take 2 (drop 4 msg)"]
      be_word_sound [where ?'a = 16, of "take 2 (drop 6 msg)"] by (simp_all add: assms)
  then have v: "be_bytes 2 (unat kMajor) = take 2 (drop 4 msg)" "be_bytes 2 (unat kMinor) = take 2 (drop 6 msg)"
    using c by (simp_all add: CheckHandshakeBytes_def)
  have "msg = take (4 + (2 + 2)) msg" using assms by simp
  also have "\<dots> = take 4 msg @ take 2 (drop 4 msg) @ take 2 (drop 6 msg)"
    unfolding take_add by simp
  also have "\<dots> = handshake_bytes"
    using c v by (simp add: handshake_bytes_def CheckHandshakeBytes_def)
  finally show "msg = handshake_bytes" .
next
  have r: "word_of_nat (be_val (be_bytes 2 (unat kMajor))) = kMajor" "word_of_nat (be_val (be_bytes 2 (unat kMinor))) = kMinor"
    by (simp_all add: be_word_roundtrip)
  assume "msg = handshake_bytes"
  then show "CheckHandshakeBytes msg"
    using r by (simp add: CheckHandshakeBytes_def handshake_bytes_def kMagic_def)
qed

section \<open>Frames\<close>

record Frame =
  frame_tag :: u8
  frame_flags :: u8
  frame_payload :: string

definition WriteFrame :: "conn \<Rightarrow> u8 \<Rightarrow> u8 \<Rightarrow> string \<Rightarrow> bool \<times> conn" where
  "WriteFrame c tag flags payload =
     (if fd c < 0 \<or> length payload > kMaxPayloadBytes then (False, c)
      else if (tag = kTagError \<or> tag = kTagTransactionAbort) \<and> length payload > kMaxDiagnosticBytes then (False, c)
      else let header = be_bytes 4 (unat (word_of_nat (length payload) :: u32)) @
                 [char_of (unat tag), char_of (unat flags), char_of (0::nat), char_of (0::nat)];
               vectors = (if payload \<noteq> [] then [header, payload] else [header])
           in WriteVectorsAll c vectors)"

datatype frame_read = FrameOk Frame | FrameTransport string | FrameProtocol string

definition ReadFrameInternal :: "conn \<Rightarrow> frame_read \<times> conn" where
  "ReadFrameInternal c =
     (case ReadExactInternal c 8 of ((status, header, d), c1) \<Rightarrow>
        if status \<noteq> IoOk then (FrameTransport d, c1)
        else let len = unat (word_of_nat (be_val (take 4 header)) :: u32);
                 hdr = (\<lambda>i. word_of_nat (of_char (header ! i)) :: u8) in
        if len > kMaxPayloadBytes then (FrameProtocol ''frame payload exceeds 1 MiB'', c1)
        else if (hdr 4 = kTagError \<or> hdr 4 = kTagTransactionAbort) \<and> len > kMaxDiagnosticBytes
          then (FrameProtocol ''diagnostic payload exceeds 64 KiB'', c1)
        else if hdr 6 \<noteq> 0 \<or> hdr 7 \<noteq> 0 then (FrameProtocol ''non-zero reserved frame field'', c1)
        else if len = 0 then (FrameOk \<lparr>frame_tag = hdr 4, frame_flags = hdr 5, frame_payload = []\<rparr>, c1)
        else (case ReadExactInternal c1 len of ((status2, payload, d2), c2) \<Rightarrow>
            if status2 \<noteq> IoOk then (FrameTransport d2, c2)
            else (FrameOk \<lparr>frame_tag = hdr 4, frame_flags = hdr 5, frame_payload = payload\<rparr>, c2)))"

definition ReadFrame :: "conn \<Rightarrow> Frame option \<times> conn" where
  "ReadFrame c = (case ReadFrameInternal c of (FrameOk f, c1) \<Rightarrow> (Some f, c1) | (_, c1) \<Rightarrow> (None, c1))"

text \<open>The image of a frame, and the frames both sides may exchange.\<close>

definition frame_image :: "Frame \<Rightarrow> string" where
  "frame_image f =
     AppendU32 [] (word_of_nat (length (frame_payload f))) @ AppendU8 [] (frame_tag f) @ AppendU8 [] (frame_flags f) @
     AppendU16 [] 0 @ frame_payload f"

definition legal_frame :: "Frame \<Rightarrow> bool" where
  "legal_frame f \<longleftrightarrow> length (frame_payload f) \<le> kMaxPayloadBytes \<and>
     (frame_tag f = kTagError \<or> frame_tag f = kTagTransactionAbort \<longrightarrow> length (frame_payload f) \<le> kMaxDiagnosticBytes)"

lemma AppendU16_zero: "AppendU16 [] 0 = [char_of (0::nat), char_of (0::nat)]"
  by (simp add: AppendU16_def numeral_2_eq_2)

lemma WriteFrame_flat:
  "WriteFrame c tag flags payload =
     (if legal_frame \<lparr>frame_tag = tag, frame_flags = flags, frame_payload = payload\<rparr>
      then WriteAll c (frame_image \<lparr>frame_tag = tag, frame_flags = flags, frame_payload = payload\<rparr>)
      else (False, c))"
  by (auto simp: WriteFrame_def WriteAll_def WriteVectorsAll_def legal_frame_def frame_image_def Let_def
      AppendU16_zero AppendU8_def AppendU32_def write_vectors_flat not_less)

definition frame_header :: "Frame \<Rightarrow> string" where
  "frame_header f = AppendU32 [] (word_of_nat (length (frame_payload f))) @
     [char_of (unat (frame_tag f)), char_of (unat (frame_flags f)), char_of (0::nat), char_of (0::nat)]"

lemma frame_image_header: "frame_image f = frame_header f @ frame_payload f"
  by (simp add: frame_image_def frame_header_def AppendU16_zero AppendU8_def)

lemma word_of_char_of: "word_of_nat (unat (b :: u8) mod 256) = b"
  using byte_of_char_of_byte [of b] by (simp add: byte_of_char_def char_of_byte_def)

lemma frame_header_fields:
  "length (frame_header f) = 8"
  "word_of_nat (of_char (frame_header f ! 4)) = frame_tag f"
  "word_of_nat (of_char (frame_header f ! 5)) = frame_flags f"
  "word_of_nat (of_char (frame_header f ! 6)) = (0 :: u8)"
  "word_of_nat (of_char (frame_header f ! 7)) = (0 :: u8)"
  "word_of_nat (be_val (take 4 (frame_header f))) = (word_of_nat (length (frame_payload f)) :: u32)"
  by (simp_all add: frame_header_def nth_append word_of_char_of AppendU32_def be_word_roundtrip)

lemma ReadFrameInternal_clean:
  assumes "0 \<le> fd c" "clean (inbox c)" "stream (inbox c) = frame_image f @ rest" "legal_frame f"
  obtains es where "ReadFrameInternal c = (FrameOk f, c\<lparr>inbox := es\<rparr>)" "clean es" "stream es = rest"
proof -
  have len: "unat (word_of_nat (length (frame_payload f)) :: u32) = length (frame_payload f)"
    using assms(4) by (simp add: legal_frame_def kMaxPayloadBytes_def unat_of_small32)
  from assms(3) have "stream (inbox c) = frame_header f @ frame_payload f @ rest"
    by (simp add: frame_image_header)
  from ReadExactInternal_clean [OF assms(1,2) this frame_header_fields(1)] obtain d es where
    h: "ReadExactInternal c 8 = ((IoOk, frame_header f, d), c\<lparr>inbox := es\<rparr>)"
    and es: "clean es" "stream es = frame_payload f @ rest" by blast
  note legal = assms(4) [unfolded legal_frame_def]
  show ?thesis
  proof (cases "frame_payload f = []")
    case True
    with h es legal show ?thesis
      by (intro that [of es]) (auto simp: ReadFrameInternal_def Let_def frame_header_fields)
  next
    case False
    from ReadExactInternal_clean [of "c\<lparr>inbox := es\<rparr>" "frame_payload f" rest "length (frame_payload f)"] assms(1) es
    obtain d2 es2 where p: "ReadExactInternal (c\<lparr>inbox := es\<rparr>) (length (frame_payload f)) =
        ((IoOk, frame_payload f, d2), c\<lparr>inbox := es2\<rparr>)" "clean es2" "stream es2 = rest"
      by auto
    with h legal False show ?thesis
      by (intro that [of es2]) (auto simp: ReadFrameInternal_def Let_def frame_header_fields len)
  qed
qed

text \<open>A header that passes the checks is the header of the frame it announces.\<close>

lemma frame_header_sound:
  assumes "length h = 8" "word_of_nat (of_char (h ! 6)) = (0 :: u8)" "word_of_nat (of_char (h ! 7)) = (0 :: u8)"
    and "length p = unat (word_of_nat (be_val (take 4 h)) :: u32)"
  shows "h = frame_header \<lparr>frame_tag = word_of_nat (of_char (h ! 4)), frame_flags = word_of_nat (of_char (h ! 5)),
    frame_payload = p\<rparr>"
proof -
  have ch: "char_of (unat (word_of_nat (of_char c) :: u8)) = c" for c
    using char_of_byte_of_char [of c] by (simp add: byte_of_char_def char_of_byte_def)
  have h67: "h ! 6 = char_of (0::nat)" "h ! 7 = char_of (0::nat)"
    using ch [of "h ! 6"] ch [of "h ! 7"] assms(2,3) by simp_all
  have "be_bytes 4 (unat (word_of_nat (be_val (take 4 h)) :: u32)) = take 4 h"
    using be_word_sound [where ?'a = 32, of "take 4 h"] assms(1) by simp
  moreover have "(word_of_nat (length p) :: u32) = word_of_nat (be_val (take 4 h))"
    by (simp add: assms(4))
  moreover have "drop 4 h = [h ! 4, h ! 5, h ! 6, h ! 7]"
    using assms(1) by (auto simp: numeral_eq_Suc length_Suc_conv)
  ultimately show ?thesis
    by (metis AppendU32_def Frame.select_convs append_Nil append_take_drop_id ch frame_header_def h67)
qed

lemma ReadFrameInternal_Ok:
  assumes "ReadFrameInternal c = (FrameOk f, c')"
  obtains es where "c' = c\<lparr>inbox := es\<rparr>" "legal_frame f" "stream (inbox c) = frame_image f @ stream es"
    "clean (inbox c) \<longrightarrow> clean es" "weight es < weight (inbox c)"
proof -
  obtain s h d c1 where r: "ReadExactInternal c 8 = ((s, h, d), c1)" by (metis prod.exhaust)
  let ?len = "unat (word_of_nat (be_val (take 4 h)) :: u32)"
  from assms r have s: "s = IoOk" by (auto simp: ReadFrameInternal_def split: if_splits)
  from ReadExactInternal_Ok [OF r [unfolded s]] obtain es where c1: "c1 = c\<lparr>inbox := es\<rparr>" and h: "length h = 8"
    "stream (inbox c) = h @ stream es" "clean (inbox c) \<longrightarrow> clean es" "weight es < weight (inbox c)" by auto
  obtain p es2 where p: "length p = ?len" "c' = c\<lparr>inbox := es2\<rparr>" "stream es = p @ stream es2"
    "clean es \<longrightarrow> clean es2" "weight es2 \<le> weight es"
    and f: "f = \<lparr>frame_tag = word_of_nat (of_char (h ! 4)), frame_flags = word_of_nat (of_char (h ! 5)), frame_payload = p\<rparr>"
    and legal: "?len \<le> kMaxPayloadBytes" "word_of_nat (of_char (h ! 6)) = (0::u8)" "word_of_nat (of_char (h ! 7)) = (0::u8)"
      "(frame_tag f = kTagError \<or> frame_tag f = kTagTransactionAbort) \<longrightarrow> ?len \<le> kMaxDiagnosticBytes"
  proof (cases "?len = 0")
    case True
    with assms r s c1 that [of "[]" es] show ?thesis
      by (auto simp: ReadFrameInternal_def Let_def split: if_splits)
  next
    case False
    obtain s2 q d2 c2 where r2: "ReadExactInternal c1 ?len = ((s2, q, d2), c2)" by (metis prod.exhaust)
    from assms r s r2 False have s2: "s2 = IoOk"
      by (auto simp: ReadFrameInternal_def Let_def split: if_splits)
    from ReadExactInternal_Ok [OF r2 [unfolded s2]] obtain es2 where "c2 = c\<lparr>inbox := es2\<rparr>" "length q = ?len"
      "stream es = q @ stream es2" "clean es \<longrightarrow> clean es2" "weight es2 \<le> weight es"
      by (auto simp: c1)
    with assms r s r2 s2 False that [of q es2] show ?thesis
      by (auto simp: ReadFrameInternal_def Let_def split: if_splits)
  qed
  have "h = frame_header f" using frame_header_sound [OF h(1) legal(2,3) p(1)] by (simp add: f)
  then have "stream (inbox c) = frame_image f @ stream es2" using h p by (simp add: frame_image_header f)
  moreover have "legal_frame f" using legal p(1) by (simp add: legal_frame_def f)
  ultimately show ?thesis using that [of es2] h p by auto
qed

section \<open>Socket configuration\<close>

text \<open>
  \<^verbatim>\<open>ConfigureConnectedSocket\<close> on a platform with \<^verbatim>\<open>MSG_NOSIGNAL\<close>: the outcome of each system call is an input, the
  options the calls set are the state. \<^verbatim>\<open>FD_CLOEXEC\<close> is bit 0 of the descriptor flags.
\<close>

datatype address_family = AF_UNIX | AF_INET | AF_INET6

record socket_calls =
  getfd_result :: int
  setfd_ok :: bool
  rcvtimeo_ok :: bool
  sndtimeo_ok :: bool
  sockname :: "address_family option"
  nodelay_ok :: bool

record socket_options =
  descriptor_flags :: u32
  rcv_timeout :: "(nat \<times> nat) option"
  snd_timeout :: "(nat \<times> nat) option"
  no_delay :: bool

definition ConfigureConnectedSocket :: "int \<Rightarrow> u32 \<Rightarrow> socket_calls \<Rightarrow> socket_options \<Rightarrow> bool \<times> socket_options" where
  "ConfigureConnectedSocket fd' timeout_ms calls opts =
     (if fd' < 0 \<or> timeout_ms = 0 then (False, opts)
      else if getfd_result calls < 0 then (False, opts)
      else let close_on_exec_flags = or (word_of_int (getfd_result calls)) 1 in
      if \<not> setfd_ok calls then (False, opts)
      else let opts1 = opts\<lparr>descriptor_flags := close_on_exec_flags\<rparr>;
               timeout = (unat (timeout_ms div 1000), unat ((timeout_ms mod 1000) * 1000)) in
      if \<not> rcvtimeo_ok calls then (False, opts1)
      else let opts2 = opts1\<lparr>rcv_timeout := Some timeout\<rparr> in
      if \<not> sndtimeo_ok calls then (False, opts2)
      else let opts3 = opts2\<lparr>snd_timeout := Some timeout\<rparr> in
      (case sockname calls of
         None \<Rightarrow> (False, opts3)
       | Some family \<Rightarrow>
           if family = AF_INET \<or> family = AF_INET6
           then (if \<not> nodelay_ok calls then (False, opts3) else (True, opts3\<lparr>no_delay := True\<rparr>))
           else (True, opts3)))"

text \<open>The microseconds never overflow their field, and seconds and microseconds make up the milliseconds.\<close>

lemma timeval_exact:
  fixes ms :: u32
  shows "unat ((ms mod 1000) * 1000) = unat ms mod 1000 * 1000" "unat (ms div 1000) = unat ms div 1000"
proof -
  have m: "unat (ms mod 1000) = unat ms mod 1000" by (simp add: unat_mod)
  have "unat ms mod 1000 * 1000 < 4294967296"
    using mod_less_divisor [of 1000 "unat ms"] by linarith
  then show "unat ((ms mod 1000) * 1000) = unat ms mod 1000 * 1000"
    by (simp add: unat_word_ariths m)
  show "unat (ms div 1000) = unat ms div 1000" by (simp add: unat_div)
qed

lemma ConfigureConnectedSocket_True:
  assumes "ConfigureConnectedSocket s ms calls opts = (True, opts')"
  shows "bit (descriptor_flags opts') 0 \<and>
    (\<exists>sec usec. rcv_timeout opts' = Some (sec, usec) \<and> snd_timeout opts' = Some (sec, usec) \<and>
       usec < 1000000 \<and> sec * 1000000 + usec = unat ms * 1000 \<and> 0 < sec + usec)"
proof -
  let ?sec = "unat (ms div 1000)" and ?usec = "unat ((ms mod 1000) * 1000)"
  from assms have nz: "unat ms \<noteq> 0" by (auto simp: ConfigureConnectedSocket_def unat_eq_0 split: if_splits)
  from assms have "rcv_timeout opts' = Some (?sec, ?usec)" "snd_timeout opts' = Some (?sec, ?usec)"
    "bit (descriptor_flags opts') 0"
    by (auto simp: ConfigureConnectedSocket_def Let_def bit_simps split: if_splits option.splits)
  moreover have "?sec * 1000000 + ?usec = unat ms * 1000"
    using div_mult_mod_eq [of "unat ms" 1000] unfolding timeval_exact by linarith
  moreover have "?usec < 1000000" using mod_less_divisor [of 1000 "unat ms"] unfolding timeval_exact by linarith
  moreover have "0 < ?sec + ?usec" using nz div_mult_mod_eq [of "unat ms" 1000] unfolding timeval_exact by linarith
  ultimately show ?thesis by blast
qed

section \<open>Properties\<close>

text \<open>
  C14 (a frame arrives). If \<^verbatim>\<open>WriteFrame\<close> reports success on a fresh connection, then \<^verbatim>\<open>ReadFrame\<close> on the other side
  returns that frame, for every way the kernel cuts the bytes into partial writes and partial reads, and it
  leaves the stream exactly behind the frame.
\<close>

theorem frame_arrives:
  assumes "WriteFrame w tag flags payload = (True, w')" "outbox w = []"
    and "0 \<le> fd c" "clean (inbox c)" "stream (inbox c) = outbox w' @ rest"
  shows "\<exists>es. ReadFrame c = (Some \<lparr>frame_tag = tag, frame_flags = flags, frame_payload = payload\<rparr>, c\<lparr>inbox := es\<rparr>) \<and>
    clean es \<and> stream es = rest"
proof -
  let ?f = "\<lparr>frame_tag = tag, frame_flags = flags, frame_payload = payload\<rparr>"
  from assms(1) have "legal_frame ?f" "WriteAll w (frame_image ?f) = (True, w')"
    by (auto simp: WriteFrame_flat split: if_splits)
  with WriteAll_True [of w "frame_image ?f" w'] assms(2,5) have "stream (inbox c) = frame_image ?f @ rest" by simp
  from ReadFrameInternal_clean [OF assms(3,4) this \<open>legal_frame ?f\<close>] obtain es where
    "ReadFrameInternal c = (FrameOk ?f, c\<lparr>inbox := es\<rparr>)" "clean es" "stream es = rest" by blast
  then show ?thesis by (intro exI [of _ es]) (simp add: ReadFrame_def)
qed

theorem frame_arrives_witness:
  "\<exists>es. ReadFrame \<lparr>fd = 4, inbox = [Data [CHR 0x00], Interrupted, Data [CHR 0x00, CHR 0x00, CHR 0x01, CHR 0x20],
      Data [CHR 0x00, CHR 0x00, CHR 0x00, CHR '';'', CHR ''r'']], sends = [], outbox = []\<rparr> =
     (Some \<lparr>frame_tag = kTagExecStream, frame_flags = 0, frame_payload = '';''\<rparr>,
      \<lparr>fd = 4, inbox = es, sends = [], outbox = []\<rparr>) \<and> clean es \<and> stream es = ''r''"
proof -
  let ?w = "\<lparr>fd = 3, inbox = [], sends = [Accept 1, SendInterrupted], outbox = []\<rparr> :: conn"
  have "WriteFrame ?w kTagExecStream 0 '';'' = (True, ?w\<lparr>sends := [], outbox :=
      [CHR 0x00, CHR 0x00, CHR 0x00, CHR 0x01, CHR 0x20, CHR 0x00, CHR 0x00, CHR 0x00, CHR '';'']\<rparr>)"
    by (simp add: WriteFrame_flat legal_frame_def frame_image_def wire_limits wire_tags WriteAll_def
        write_loop.simps AppendU32_def AppendU16_def AppendU8_def eval_simps char_of_def bit_Suc_0_iff)
  from frame_arrives [OF this, of "\<lparr>fd = 4, inbox = [Data [CHR 0x00], Interrupted, Data [CHR 0x00, CHR 0x00, CHR 0x01, CHR 0x20],
      Data [CHR 0x00, CHR 0x00, CHR 0x00, CHR '';'', CHR ''r'']], sends = [], outbox = []\<rparr>" "''r''"]
  show ?thesis by simp
qed

text \<open>
  C15 (what \<^verbatim>\<open>ReadFrame\<close> accepts). On any inbox, a frame that is returned respects the payload and diagnostic
  limits, and the bytes consumed are exactly its image: nothing is skipped and nothing is read ahead.
\<close>

theorem frame_read_exact:
  assumes "ReadFrame c = (Some f, c')"
  shows "length (frame_payload f) \<le> 1048576 \<and>
    (frame_tag f = kTagError \<or> frame_tag f = kTagTransactionAbort \<longrightarrow> length (frame_payload f) \<le> 65536) \<and>
    stream (inbox c) = frame_image f @ stream (inbox c')"
proof -
  from assms have "ReadFrameInternal c = (FrameOk f, c')"
    by (auto simp: ReadFrame_def split: prod.splits frame_read.splits)
  from ReadFrameInternal_Ok [OF this] obtain es where
    "c' = c\<lparr>inbox := es\<rparr>" "legal_frame f" "stream (inbox c) = frame_image f @ stream es" by blast
  then show ?thesis by (simp add: legal_frame_def wire_limits)
qed

theorem frame_read_exact_witness:
  "stream [Data [CHR 0x00, CHR 0x00, CHR 0x00], Data [CHR 0x00, CHR 0x10, CHR 0x00, CHR 0x00, CHR 0x00, CHR ''x'']] =
   frame_image \<lparr>frame_tag = kTagCommandOk, frame_flags = 0, frame_payload = []\<rparr> @ ''x''"
proof -
  let ?c = "\<lparr>fd = 4, inbox = [Data [CHR 0x00, CHR 0x00, CHR 0x00],
      Data [CHR 0x00, CHR 0x10, CHR 0x00, CHR 0x00, CHR 0x00, CHR ''x'']], sends = [], outbox = []\<rparr> :: conn"
  have "ReadFrame ?c = (Some \<lparr>frame_tag = kTagCommandOk, frame_flags = 0, frame_payload = []\<rparr>, ?c\<lparr>inbox := [Data ''x'']\<rparr>)"
    by (simp add: ReadFrame_def ReadFrameInternal_def ReadExactInternal_def read_loop.simps be_val_def wire_tags wire_limits)
  from frame_read_exact [OF this] show ?thesis by simp
qed

text \<open>
  C17 (handshake). A client whose handshake succeeds and a server whose handshake succeeds have both read
  exactly the 8 bytes of this protocol version, and the server has echoed them; any other 8 bytes are refused
  before the server writes anything.
\<close>

theorem handshake_agreement:
  assumes "ReadAndCheckHandshake c = (ok, c')"
  shows "if ok then stream (inbox c) = handshake_bytes @ stream (inbox c') \<and> outbox c' = outbox c @ handshake_bytes
    else \<exists>k\<le>8. outbox c' = outbox c @ take k handshake_bytes"
proof -
  obtain s msg d c1 where r: "ReadExactInternal c 8 = ((s, msg, d), c1)" by (metis prod.exhaust)
  show ?thesis
  proof (cases "s = IoOk \<and> CheckHandshakeBytes msg")
    case False
    have "outbox c1 = outbox c" using r by (auto simp: ReadExactInternal_def Let_def split: if_splits prod.splits)
    with False r assms show ?thesis
      by (auto simp: ReadAndCheckHandshake_def ReadExact_def intro: exI [of _ 0] split: if_splits)
  next
    case True
    from ReadExactInternal_Ok [of c 8 msg d c1] r True obtain es where
      c1: "c1 = c\<lparr>inbox := es\<rparr>" "length msg = 8" "stream (inbox c) = msg @ stream es" by blast
    with True have msg: "msg = handshake_bytes" using CheckHandshakeBytes_iff by blast
    from assms r True have w: "WriteAll c1 handshake_bytes = (ok, c')"
      by (simp add: ReadAndCheckHandshake_def ReadExact_def msg)
    obtain ok' es' out' where l: "write_loop handshake_bytes (sends c1) (outbox c1) = (ok', es', out')"
      by (metis prod.exhaust)
    from write_loop_out [OF l] obtain k where k: "k \<le> 8" "out' = outbox c1 @ take k handshake_bytes"
      "ok' \<longleftrightarrow> k = 8" by auto
    show ?thesis
    proof (cases "fd c1 < 0")
      case True
      with w c1(1) show ?thesis by (auto simp: WriteAll_def intro: exI [of _ 0])
    next
      case False
      with w l have "ok' = ok" "c' = c1\<lparr>sends := es', outbox := out'\<rparr>" by (auto simp: WriteAll_def)
      with k c1 msg show ?thesis by auto
    qed
  qed
qed

theorem handshake_agreement_witness:
  "stream [Data ''RUCB'', Interrupted, Data [CHR 0x00, CHR 0x03, CHR 0x00, CHR 0x01]] = handshake_bytes @ []"
proof -
  let ?c = "\<lparr>fd = 4, inbox = [Data ''RUCB'', Interrupted, Data [CHR 0x00, CHR 0x03, CHR 0x00, CHR 0x01]],
      sends = [Accept 5], outbox = []\<rparr> :: conn"
  let ?m = "[CHR ''R'', CHR ''U'', CHR ''C'', CHR ''B'', CHR 0x00, CHR 0x03, CHR 0x00, CHR 0x01]"
  have "ReadAndCheckHandshake ?c = (True, ?c\<lparr>inbox := [], sends := [], outbox := ?m\<rparr>)"
    by (simp add: ReadAndCheckHandshake_def ReadExact_def ReadExactInternal_def read_loop.simps CheckHandshakeBytes_def
        be_val_def kMagic_def kMajor_def kMinor_def WriteAll_def write_loop.simps)
  from handshake_agreement [OF this] show ?thesis by simp
qed

text \<open>
  Gathered write. \<^verbatim>\<open>WriteVectorsAll\<close> over non-empty vectors behaves, for every script of partial and
  interrupted writes, as \<^verbatim>\<open>WriteAll\<close> of their concatenation: what it leaves on the wire is a prefix, and the whole
  when it reports success.
\<close>

theorem gathered_write_flat:
  assumes "\<forall>v\<in>set vs. v \<noteq> []" "0 \<le> fd c"
  shows "WriteVectorsAll c vs = WriteAll c (concat vs) \<and>
    (\<exists>k\<le>length (concat vs). outbox (snd (WriteVectorsAll c vs)) = outbox c @ take k (concat vs) \<and>
      (fst (WriteVectorsAll c vs) \<longleftrightarrow> k = length (concat vs)))"
proof -
  obtain ok es out where w: "write_loop (concat vs) (sends c) (outbox c) = (ok, es, out)" by (metis prod.exhaust)
  from write_loop_out [OF w] w assms show ?thesis
    by (auto simp: WriteVectorsAll_def WriteAll_def write_vectors_flat)
qed

theorem gathered_write_flat_witness:
  "WriteVectorsAll \<lparr>fd = 3, inbox = [], sends = [Accept 3, Accept 0], outbox = []\<rparr> [''ab'', ''cd''] =
     WriteAll \<lparr>fd = 3, inbox = [], sends = [Accept 3, Accept 0], outbox = []\<rparr> ''abcd''"
  using gathered_write_flat [of "[''ab'', ''cd'']" "\<lparr>fd = 3, inbox = [], sends = [Accept 3, Accept 0], outbox = []\<rparr>"]
  by simp

end
