(* ===== verification/Wire_Client.thy ===== *)
theory Wire_Client
  imports Wire_Transport
begin

text \<open>
  The client half of \<^verbatim>\<open>src/src/net/wire.cpp\<close>: the fixed width table text and \<^verbatim>\<open>ExecStreamResult\<close>, the state
  machine that reads one response. One frame is handled by \<open>handle_frame\<close>, which either ends the response
  with a result or gives the next state; \<open>exec_loop\<close> is the loop around it. A consumer callback that may
  keep state of its own is a function of the rows it has been given so far.
\<close>

section \<open>Table text\<close>

text \<open>
  \<^verbatim>\<open>std::to_string(float)\<close>: the decimal expansion of the exact binary value with six digits after the
  point, ties to even, as \<^verbatim>\<open>printf\<close> with the format \<open>%f\<close> gives it.
\<close>

definition round_half_even :: "nat \<Rightarrow> nat \<Rightarrow> nat" where
  "round_half_even n d =
     (let q = n div d; r = n mod d in
      if 2 * r < d \<or> (2 * r = d \<and> even q) then q else Suc q)"

definition pad6 :: "nat \<Rightarrow> string" where
  "pad6 n = (let s = string_of_nat n in replicate (6 - length s) (CHR ''0'') @ s)"

definition float_text :: "f32 \<Rightarrow> string" where
  "float_text b =
     (let sgn = (if bit b 31 then ''-'' else []);
          e = unat (and (drop_bit 23 b) 0xff);
          m = unat (and b 0x7fffff) in
      if e = 255 then sgn @ (if m = 0 then ''inf'' else ''nan'')
      else let mant = (if e = 0 then m else m + 8388608);
               e' = (if e = 0 then 1 else e);
               q = (if e' \<ge> 150 then mant * 1000000 * 2 ^ (e' - 150)
                    else round_half_even (mant * 1000000) (2 ^ (150 - e')))
           in sgn @ string_of_nat (q div 1000000) @ ''.'' @ pad6 (q mod 1000000))"

definition CellText :: "Cell \<Rightarrow> string" where
  "CellText cell =
     (if is_null cell then ''NULL''
      else if cell_type cell = kTypeInt32 then string_of_int (sint (int_val cell))
      else if cell_type cell = kTypeFloat32 then float_text (float_val cell)
      else cell_str cell)"

definition kPrettyColWidth :: nat where "kPrettyColWidth = 16"

text \<open>The bytes \<open>10xxxxxx\<close> that continue a multi-byte character.\<close>

definition utf8_continuation :: "char \<Rightarrow> bool" where
  "utf8_continuation ch \<longleftrightarrow> and (byte_of_char ch) 0xc0 = 0x80"

fun cut_back :: "string \<Rightarrow> nat \<Rightarrow> nat" where
  "cut_back s 0 = 0"
| "cut_back s (Suc n) =
     (if Suc n < length s \<and> utf8_continuation (s ! Suc n) then cut_back s n else Suc n)"

definition clip_cell :: "string \<Rightarrow> string" where
  "clip_cell s =
     (if length s > kPrettyColWidth
      then take (cut_back s (kPrettyColWidth - 3)) s @ ''...''
      else s)"

definition AppendTableCell :: "string \<Rightarrow> string \<Rightarrow> string" where
  "AppendTableCell out s =
     (let s' = clip_cell s in
      out @ ''| '' @ replicate (kPrettyColWidth - length s') (CHR '' '') @ s' @ '' '')"

fun AppendSeparator :: "string \<Rightarrow> nat \<Rightarrow> string" where
  "AppendSeparator out 0 = out @ ''+\<newline>''"
| "AppendSeparator out (Suc n) = AppendSeparator (out @ ''+'' @ replicate (kPrettyColWidth + 2) (CHR ''-'')) n"

definition AppendTableHeader :: "string \<Rightarrow> ColumnDef list \<Rightarrow> string" where
  "AppendTableHeader out columns =
     AppendSeparator
       (foldl (\<lambda>acc column. AppendTableCell acc (col_label column)) (AppendSeparator out (length columns)) columns @
        ''|\<newline>'')
       (length columns)"

definition AppendTableRow :: "string \<Rightarrow> Cell list \<Rightarrow> string" where
  "AppendTableRow out row = foldl (\<lambda>acc cell. AppendTableCell acc (CellText cell)) out row @ ''|\<newline>''"

text \<open>A cut never separates the bytes of one character, and a table cell has one width.\<close>

lemma cut_back_le: "cut_back s n \<le> n"
  by (induction n) auto

lemma cut_back_boundary:
  "n < length s \<Longrightarrow> cut_back s n = 0 \<or> \<not> utf8_continuation (s ! cut_back s n)"
  by (induction n) auto

lemma length_clip_cell: "length (clip_cell s) \<le> kPrettyColWidth"
proof (cases "length s > kPrettyColWidth")
  case True
  then show ?thesis
    using cut_back_le [of s "kPrettyColWidth - 3"] by (simp add: clip_cell_def kPrettyColWidth_def)
qed (simp add: clip_cell_def)

lemma length_AppendTableCell: "length (AppendTableCell out s) = length out + 19"
  using length_clip_cell [of s] by (simp add: AppendTableCell_def Let_def kPrettyColWidth_def)

lemma length_AppendSeparator: "length (AppendSeparator out n) = length out + 19 * n + 2"
  by (induction n arbitrary: out) (simp_all add: kPrettyColWidth_def)

lemma length_fold_cells: "length (foldl (\<lambda>acc x. AppendTableCell acc (f x)) out xs) = length out + 19 * length xs"
  by (induction xs arbitrary: out) (simp_all add: length_AppendTableCell)

section \<open>One response\<close>

datatype ExecuteStatus =
    CommandOk | ResultSet | SqlError | TransactionAbort | InvalidRequest | TransportError | ProtocolError
  | ConsumerStopped

text \<open>How a callback ends: it asks to go on, asks to stop, or throws.\<close>

datatype consumer = Continue | Stop | ThrowStd string | ThrowOther

record ExecuteOptions =
  format_text :: bool
  on_meta :: "(ColumnDef list \<Rightarrow> consumer) option"
  on_row :: "(Cell list list \<Rightarrow> Cell list \<Rightarrow> consumer) option"

record ExecuteResult =
  status :: ExecuteStatus
  columns :: "ColumnDef list"
  row_count :: u64
  result_text :: string
  diagnostic :: string

definition ExecuteResult_default :: ExecuteResult where
  "ExecuteResult_default =
     \<lparr>status = InvalidRequest, columns = [], row_count = 0, result_text = [], diagnostic = []\<rparr>"

definition exec_ok :: "ExecuteResult \<Rightarrow> bool" where
  "exec_ok r \<longleftrightarrow> status r = CommandOk \<or> status r = ResultSet"

definition connection_reusable :: "ExecuteResult \<Rightarrow> bool" where
  "connection_reusable r \<longleftrightarrow>
     status r = CommandOk \<or> status r = ResultSet \<or> status r = SqlError \<or> status r = TransactionAbort \<or>
     status r = InvalidRequest \<or> status r = ConsumerStopped"

datatype ResponseState = AwaitFirst | Rows

text \<open>
  The local variables of the loop. \<open>consumed\<close> is not one of them: it is what the row callback has been
  given, the input of a callback with state.
\<close>

record exec_state =
  resp_state :: ResponseState
  observed_rows :: u64
  consumer_stopped :: bool
  consumer_diagnostic :: string
  raw_text_result :: bool
  result :: ExecuteResult
  consumed :: "Cell list list"

definition exec_start :: exec_state where
  "exec_start =
     \<lparr>resp_state = AwaitFirst, observed_rows = 0, consumer_stopped = False, consumer_diagnostic = [],
      raw_text_result = False, result = ExecuteResult_default, consumed = []\<rparr>"

definition protocol_error :: "exec_state \<Rightarrow> string \<Rightarrow> ExecuteResult + exec_state" where
  "protocol_error st msg = Inl (result st\<lparr>status := ProtocolError, diagnostic := msg\<rparr>)"

definition consumer_failed :: "string \<Rightarrow> consumer \<Rightarrow> exec_state \<Rightarrow> exec_state" where
  "consumer_failed who outcome st =
     (case outcome of
        Continue \<Rightarrow> st
      | Stop \<Rightarrow> st\<lparr>consumer_stopped := True, consumer_diagnostic := who @ '' consumer requested stop''\<rparr>
      | ThrowStd e \<Rightarrow> st\<lparr>consumer_stopped := True, consumer_diagnostic := who @ '' consumer failed: '' @ e\<rparr>
      | ThrowOther \<Rightarrow> st\<lparr>consumer_stopped := True, consumer_diagnostic := who @ '' consumer failed''\<rparr>)"

definition set_text :: "(string \<Rightarrow> string) \<Rightarrow> exec_state \<Rightarrow> exec_state" where
  "set_text f st = st\<lparr>result := (result st)\<lparr>result_text := f (result_text (result st))\<rparr>\<rparr>"

definition handle_meta :: "ExecuteOptions \<Rightarrow> Frame \<Rightarrow> exec_state \<Rightarrow> ExecuteResult + exec_state" where
  "handle_meta opts frame st =
     (if and (frame_flags frame) (not kFlagRawText) \<noteq> 0 then protocol_error st ''invalid META flags''
      else if resp_state st \<noteq> AwaitFirst then protocol_error st ''duplicate META''
      else (case DecodeMeta (frame_payload frame) of
          Inl (e, cols) \<Rightarrow> protocol_error (st\<lparr>result := (result st)\<lparr>columns := cols\<rparr>\<rparr>) e
        | Inr cols \<Rightarrow>
            let st1 = st\<lparr>result := (result st)\<lparr>columns := cols\<rparr>, resp_state := Rows,
                         raw_text_result := (and (frame_flags frame) kFlagRawText \<noteq> 0)\<rparr> in
            if raw_text_result st1 \<and> (length cols \<noteq> 1 \<or> col_sql_type (cols ! 0) \<noteq> kTypeChar)
            then protocol_error st1 ''raw text META must contain one CHAR column''
            else let st2 = (case on_meta opts of
                       None \<Rightarrow> st1
                     | Some f \<Rightarrow> consumer_failed ''metadata'' (f cols) st1) in
            Inr (if format_text opts \<and> \<not> consumer_stopped st2 \<and> \<not> raw_text_result st2
                 then set_text (\<lambda>t. AppendTableHeader t cols) st2 else st2)))"

definition handle_row :: "ExecuteOptions \<Rightarrow> Frame \<Rightarrow> exec_state \<Rightarrow> ExecuteResult + exec_state" where
  "handle_row opts frame st =
     (if frame_flags frame \<noteq> 0 \<or> resp_state st \<noteq> Rows \<or> columns (result st) = []
      then protocol_error st ''ROW before META''
      else (case DecodeRow (columns (result st)) (frame_payload frame) of
          Inl e \<Rightarrow> protocol_error st e
        | Inr row \<Rightarrow>
            let st1 = st\<lparr>observed_rows := observed_rows st + 1\<rparr>;
                st2 = (if \<not> consumer_stopped st1 then
                         (case on_row opts of
                            None \<Rightarrow> st1
                          | Some f \<Rightarrow> consumer_failed ''row'' (f (consumed st1) row) (st1\<lparr>consumed := consumed st1 @ [row]\<rparr>))
                       else st1) in
            Inr (if format_text opts \<and> \<not> consumer_stopped st2 then
                   (if raw_text_result st2
                    then (if \<not> is_null (row ! 0) then set_text (\<lambda>t. t @ cell_str (row ! 0)) st2 else st2)
                    else set_text (\<lambda>t. AppendTableRow t row) st2)
                 else st2)))"

definition handle_end :: "ExecuteOptions \<Rightarrow> Frame \<Rightarrow> exec_state \<Rightarrow> ExecuteResult + exec_state" where
  "handle_end opts frame st =
     (if frame_flags frame \<noteq> 0 \<or> resp_state st \<noteq> Rows then protocol_error st ''RESULT_END before META''
      else (case ReadU64 (frame_payload frame) 0 of
          None \<Rightarrow> protocol_error st ''invalid RESULT_END''
        | Some (declared_rows, off) \<Rightarrow>
            if off \<noteq> length (frame_payload frame) then protocol_error st ''invalid RESULT_END''
            else if declared_rows \<noteq> observed_rows st then protocol_error st ''RESULT_END row count mismatch''
            else let r1 = (result st)\<lparr>row_count := declared_rows\<rparr>;
                     r2 = (if format_text opts \<and> \<not> consumer_stopped st \<and> \<not> raw_text_result st
                           then r1\<lparr>result_text := AppendSeparator (result_text r1) (length (columns r1)) @
                                    ''Total record(s): '' @ string_of_nat (unat declared_rows) @ ''\<newline>''\<rparr>
                           else r1) in
            Inl (if consumer_stopped st
                 then r2\<lparr>status := ConsumerStopped, diagnostic := consumer_diagnostic st\<rparr>
                 else r2\<lparr>status := ResultSet\<rparr>)))"

text \<open>The switch on the frame's tag: \<open>Inl\<close> returns the result, \<open>Inr\<close> goes round the loop.\<close>

definition handle_frame :: "ExecuteOptions \<Rightarrow> Frame \<Rightarrow> exec_state \<Rightarrow> ExecuteResult + exec_state" where
  "handle_frame opts frame st =
     (if frame_tag frame = kTagCommandOk then
        (if frame_flags frame \<noteq> 0 \<or> resp_state st \<noteq> AwaitFirst \<or> frame_payload frame \<noteq> []
         then protocol_error st ''invalid COMMAND_OK''
         else Inl ((result st)\<lparr>status := CommandOk\<rparr>))
      else if frame_tag frame = kTagError \<or> frame_tag frame = kTagTransactionAbort then
        (if frame_flags frame \<noteq> 0 then protocol_error st ''invalid error response flags''
         else Inl ((result st)\<lparr>status := (if frame_tag frame = kTagError then SqlError else TransactionAbort),
                    result_text := [], diagnostic := frame_payload frame\<rparr>))
      else if frame_tag frame = kTagMeta then handle_meta opts frame st
      else if frame_tag frame = kTagRow then handle_row opts frame st
      else if frame_tag frame = kTagResultEnd then handle_end opts frame st
      else protocol_error st ''unknown response tag'')"

function exec_loop :: "ExecuteOptions \<Rightarrow> exec_state \<Rightarrow> conn \<Rightarrow> ExecuteResult \<times> conn" where
  "exec_loop opts st c =
     (case ReadFrameInternal c of
        (FrameProtocol e, c1) \<Rightarrow> ((result st)\<lparr>status := ProtocolError, diagnostic := e\<rparr>, c1)
      | (FrameTransport e, c1) \<Rightarrow> ((result st)\<lparr>status := TransportError, diagnostic := e\<rparr>, c1)
      | (FrameOk frame, c1) \<Rightarrow>
          (case handle_frame opts frame st of
             Inl r \<Rightarrow> (r, c1)
           | Inr st1 \<Rightarrow> exec_loop opts st1 c1))"
  by pat_completeness auto
termination
  by (relation "measure (\<lambda>(opts, st, c). weight (inbox c))")
    (auto dest!: sym [of "(_, _)"] elim!: ReadFrameInternal_Ok)

declare exec_loop.simps [simp del]

text \<open>\<open>errno_text\<close> is the text of \<^verbatim>\<open>strerror(errno)\<close> after a failed send.\<close>

definition ExecStreamResult :: "string \<Rightarrow> conn \<Rightarrow> string \<Rightarrow> ExecuteOptions \<Rightarrow> ExecuteResult \<times> conn" where
  "ExecStreamResult errno_text c sql opts =
     (if fd c < 0 then
        (ExecuteResult_default\<lparr>status := TransportError, diagnostic := ''connection is not open''\<rparr>, c)
      else if sql = [] \<or> length sql > kMaxPayloadBytes then
        (ExecuteResult_default\<lparr>status := InvalidRequest, diagnostic := ''invalid SQL payload size''\<rparr>, c)
      else (case WriteFrame c kTagExecStream 0 sql of (ok, c1) \<Rightarrow>
          if \<not> ok then
            (ExecuteResult_default\<lparr>status := TransportError, diagnostic := ''failed to send EXEC_STREAM: '' @ errno_text\<rparr>, c1)
          else exec_loop opts exec_start c1))"

text \<open>\<^verbatim>\<open>ExecStream\<close>: \<open>want_text\<close> tells whether the caller passed a buffer for the text.\<close>

definition ExecStream :: "string \<Rightarrow> conn \<Rightarrow> string \<Rightarrow> bool \<Rightarrow> (bool \<times> string \<times> string) \<times> conn" where
  "ExecStream errno_text c sql want_text =
     (case ExecStreamResult errno_text c sql \<lparr>format_text = want_text, on_meta = None, on_row = None\<rparr> of
        (r, c1) \<Rightarrow> ((exec_ok r, result_text r, diagnostic r), c1))"

section \<open>The client against a sequence of frames\<close>

text \<open>
  The loop without the socket: a sequence of frames is a response when the state machine returns at its
  last frame and not before.
\<close>

fun run_frames :: "ExecuteOptions \<Rightarrow> exec_state \<Rightarrow> Frame list \<Rightarrow> ExecuteResult option" where
  "run_frames opts st [] = None"
| "run_frames opts st (f # fs) =
     (case handle_frame opts f st of
        Inl r \<Rightarrow> if fs = [] then Some r else None
      | Inr st1 \<Rightarrow> run_frames opts st1 fs)"

definition frames_image :: "Frame list \<Rightarrow> string" where
  "frames_image fs = concat (map frame_image fs)"

lemma frames_image_simps [simp]:
  "frames_image [] = []" "frames_image (f # fs) = frame_image f @ frames_image fs"
  "frames_image (fs @ gs) = frames_image fs @ frames_image gs"
  by (simp_all add: frames_image_def)

text \<open>However the response is cut into reads, the loop does what the sequence of frames says.\<close>

lemma exec_loop_frames:
  assumes "run_frames opts st fs = Some r" "\<forall>f\<in>set fs. legal_frame f"
    and "0 \<le> fd c" "clean (inbox c)" "stream (inbox c) = frames_image fs @ rest"
  shows "\<exists>es. exec_loop opts st c = (r, c\<lparr>inbox := es\<rparr>) \<and> clean es \<and> stream es = rest"
  using assms
proof (induction fs arbitrary: st c)
  case Nil
  then show ?case by simp
next
  case (Cons f fs)
  from Cons.prems have "stream (inbox c) = frame_image f @ frames_image fs @ rest" by simp
  from ReadFrameInternal_clean [OF Cons.prems(3,4) this] Cons.prems(2) obtain es where
    read: "ReadFrameInternal c = (FrameOk f, c\<lparr>inbox := es\<rparr>)" and es: "clean es" "stream es = frames_image fs @ rest"
    by auto
  show ?case
  proof (cases "handle_frame opts f st")
    case (Inl r')
    with Cons.prems(1) have "fs = []" "r' = r" by (auto split: if_splits)
    with Inl read es show ?thesis by (auto simp: exec_loop.simps [of opts st])
  next
    case (Inr st1)
    with Cons.prems have "run_frames opts st1 fs = Some r" "\<forall>f\<in>set fs. legal_frame f" by auto
    from Cons.IH [OF this, of "c\<lparr>inbox := es\<rparr>"] es Cons.prems(3) Inr read
    show ?thesis by (auto simp: exec_loop.simps [of opts st])
  qed
qed

text \<open>
  Conversely, unless the result is a transport or a protocol error, the loop has consumed exactly the
  bytes of one response.
\<close>

lemma exec_loop_sound:
  assumes "exec_loop opts st c = (r, c')" "status r \<noteq> TransportError" "status r \<noteq> ProtocolError"
  shows "\<exists>fs es. run_frames opts st fs = Some r \<and> (\<forall>f\<in>set fs. legal_frame f) \<and> c' = c\<lparr>inbox := es\<rparr> \<and>
    stream (inbox c) = frames_image fs @ stream es"
  using assms
proof (induction opts st c arbitrary: rule: exec_loop.induct)
  case (1 opts st c)
  obtain fr c1 where read: "ReadFrameInternal c = (fr, c1)" by fastforce
  show ?case
  proof (cases fr)
    case (FrameOk f)
    from ReadFrameInternal_Ok [OF read [unfolded FrameOk]] obtain es where
      c1: "c1 = c\<lparr>inbox := es\<rparr>" and f: "legal_frame f" "stream (inbox c) = frame_image f @ stream es" by blast
    show ?thesis
    proof (cases "handle_frame opts f st")
      case (Inl r')
      with 1(2) read FrameOk have "r' = r" "c' = c1" by (simp_all add: exec_loop.simps [of opts st c])
      with Inl c1 f show ?thesis by (intro exI [of _ "[f]"] exI [of _ es]) simp
    next
      case (Inr st1)
      with 1(2) read FrameOk have "exec_loop opts st1 c1 = (r, c')" by (simp add: exec_loop.simps [of opts st c])
      from 1(1) [OF read [symmetric] FrameOk Inr this 1(3,4)] obtain fs es2 where
        "run_frames opts st1 fs = Some r" "\<forall>f\<in>set fs. legal_frame f" "c' = c1\<lparr>inbox := es2\<rparr>"
        "stream es = frames_image fs @ stream es2" by (auto simp: c1)
      with Inr c1 f show ?thesis by (intro exI [of _ "f # fs"] exI [of _ es2]) simp
    qed
  qed (use 1(2-4) read in \<open>auto simp: exec_loop.simps [of opts st c]\<close>)
qed

section \<open>The shape of a response\<close>

definition row_frame :: "string \<Rightarrow> Frame" where
  "row_frame payload = \<lparr>frame_tag = kTagRow, frame_flags = 0, frame_payload = payload\<rparr>"

definition end_frame :: "u64 \<Rightarrow> Frame" where
  "end_frame n = \<lparr>frame_tag = kTagResultEnd, frame_flags = 0, frame_payload = EncodeResultEnd n\<rparr>"

definition meta_frame :: "u8 \<Rightarrow> string \<Rightarrow> Frame" where
  "meta_frame flags payload = \<lparr>frame_tag = kTagMeta, frame_flags = flags, frame_payload = payload\<rparr>"

lemma consumer_failed_fields [simp]:
  "resp_state (consumer_failed who o' st) = resp_state st"
  "observed_rows (consumer_failed who o' st) = observed_rows st"
  "raw_text_result (consumer_failed who o' st) = raw_text_result st"
  "result (consumer_failed who o' st) = result st"
  "consumer_stopped (consumer_failed who o' st) \<longleftrightarrow> o' \<noteq> Continue \<or> consumer_stopped st"
  by (cases o'; simp add: consumer_failed_def)+

lemma set_text_fields [simp]:
  "resp_state (set_text f st) = resp_state st" "observed_rows (set_text f st) = observed_rows st"
  "raw_text_result (set_text f st) = raw_text_result st" "consumer_stopped (set_text f st) = consumer_stopped st"
  "columns (result (set_text f st)) = columns (result st)"
  "result_text (result (set_text f st)) = f (result_text (result st))"
  by (simp_all add: set_text_def)

lemma handle_row_Inr:
  assumes "handle_row opts f st = Inr st'"
  shows "resp_state st = Rows \<and> resp_state st' = Rows \<and> columns (result st') = columns (result st) \<and>
    raw_text_result st' = raw_text_result st \<and> frame_flags f = 0 \<and> observed_rows st' = observed_rows st + 1 \<and>
    (consumer_stopped st \<longrightarrow> consumer_stopped st') \<and>
    (\<exists>row. DecodeRow (columns (result st)) (frame_payload f) = Inr row)"
  using assms
  by (auto simp: handle_row_def protocol_error_def Let_def split: if_splits sum.splits option.splits)

lemma handle_meta_Inr:
  assumes "handle_meta opts f st = Inr st'"
  shows "resp_state st = AwaitFirst \<and> resp_state st' = Rows \<and> observed_rows st' = observed_rows st \<and>
    DecodeMeta (frame_payload f) = Inr (columns (result st')) \<and>
    (raw_text_result st' \<longleftrightarrow> and (frame_flags f) kFlagRawText \<noteq> 0) \<and> and (frame_flags f) (not kFlagRawText) = 0"
  using assms
  by (auto simp: handle_meta_def protocol_error_def Let_def split: if_splits sum.splits option.splits)

lemma handle_end_Inl:
  assumes "handle_end opts f st = Inl r" "status r \<noteq> ProtocolError"
  shows "resp_state st = Rows \<and> f = end_frame (observed_rows st) \<or> frame_tag f \<noteq> kTagResultEnd"
    and "columns r = columns (result st)" and "row_count r = observed_rows st"
    and "status r = (if consumer_stopped st then ConsumerStopped else ResultSet)"
proof -
  from assms obtain n where n: "ReadU64 (frame_payload f) 0 = Some (n, length (frame_payload f))"
    "n = observed_rows st" "frame_flags f = 0" "resp_state st = Rows"
    by (auto simp: handle_end_def protocol_error_def split: if_splits option.splits)
  have "frame_payload f = EncodeResultEnd n"
    using u64_codec.get_sound [OF n(1), simplified] take_all [of "frame_payload f" 8]
    by (simp add: EncodeResultEnd_def)
  with n show "resp_state st = Rows \<and> f = end_frame (observed_rows st) \<or> frame_tag f \<noteq> kTagResultEnd"
    by (cases f) (auto simp: end_frame_def)
  from assms show "columns r = columns (result st)" "row_count r = observed_rows st"
    "status r = (if consumer_stopped st then ConsumerStopped else ResultSet)"
    by (auto simp: handle_end_def protocol_error_def Let_def split: if_splits option.splits)
qed

lemma handle_frame_Inr:
  "handle_frame opts f st = Inr st' \<Longrightarrow>
   frame_tag f = kTagMeta \<and> handle_meta opts f st = Inr st' \<or> frame_tag f = kTagRow \<and> handle_row opts f st = Inr st'"
  by (auto simp: handle_frame_def protocol_error_def handle_end_def Let_def split: if_splits option.splits)

lemma handle_frame_Inl_result:
  assumes "handle_frame opts f st = Inl r" "status r = ResultSet \<or> status r = ConsumerStopped"
  shows "frame_tag f = kTagResultEnd \<and> handle_end opts f st = Inl r"
  using assms
  by (auto simp: handle_frame_def handle_meta_def handle_row_def protocol_error_def Let_def
      split: if_splits sum.splits prod.splits)

lemma run_rows_shape:
  assumes "run_frames opts st fs = Some r" "status r = ResultSet \<or> status r = ConsumerStopped" "resp_state st = Rows"
  shows "\<exists>ps. fs = map row_frame ps @ [end_frame (observed_rows st + of_nat (length ps))] \<and>
    (\<forall>p\<in>set ps. \<exists>row. DecodeRow (columns (result st)) p = Inr row) \<and> columns r = columns (result st) \<and>
    row_count r = observed_rows st + of_nat (length ps)"
  using assms
proof (induction fs arbitrary: st)
  case Nil
  then show ?case by simp
next
  case (Cons f fs)
  show ?case
  proof (cases "handle_frame opts f st")
    case (Inl r')
    with Cons.prems(1) have fs: "fs = []" "r' = r" by (auto split: if_splits)
    from Inl Cons.prems(2) fs have e: "frame_tag f = kTagResultEnd" "handle_end opts f st = Inl r"
      using handle_frame_Inl_result by blast+
    from Cons.prems(2) have "status r \<noteq> ProtocolError" by auto
    from handle_end_Inl [OF e(2) this] e(1) fs show ?thesis by (intro exI [of _ "[]"]) auto
  next
    case (Inr st1)
    from handle_frame_Inr [OF Inr] Cons.prems(3) handle_meta_Inr have
      row: "frame_tag f = kTagRow" "handle_row opts f st = Inr st1" by fastforce+
    note h = handle_row_Inr [OF row(2)]
    from Inr Cons.prems(1) have "run_frames opts st1 fs = Some r" by simp
    from Cons.IH [OF this Cons.prems(2)] h obtain ps where
      ps: "fs = map row_frame ps @ [end_frame (observed_rows st1 + of_nat (length ps))]"
      "\<forall>p\<in>set ps. \<exists>row. DecodeRow (columns (result st)) p = Inr row" "columns r = columns (result st)"
      "row_count r = observed_rows st1 + of_nat (length ps)" by auto
    have "f = row_frame (frame_payload f)" using row h by (cases f) (simp add: row_frame_def)
    with ps h show ?thesis by (intro exI [of _ "frame_payload f # ps"]) (auto simp: ac_simps)
  qed
qed

text \<open>
  A result set is one META frame, its rows and a RESULT\_END that counts them: nothing else makes the
  client report one.
\<close>

lemma run_frames_shape:
  assumes "run_frames opts exec_start fs = Some r" "status r = ResultSet \<or> status r = ConsumerStopped"
  shows "\<exists>flags meta ps. fs = meta_frame flags meta # map row_frame ps @ [end_frame (of_nat (length ps))] \<and>
    DecodeMeta meta = Inr (columns r) \<and> (\<forall>p\<in>set ps. \<exists>row. DecodeRow (columns r) p = Inr row) \<and>
    row_count r = of_nat (length ps)"
proof (cases fs)
  case Nil
  with assms show ?thesis by simp
next
  case (Cons f gs)
  show ?thesis
  proof (cases "handle_frame opts f exec_start")
    case (Inl r')
    with assms(1) Cons have "gs = []" "r' = r" by (auto split: if_splits)
    with handle_frame_Inl_result [of opts f exec_start r] Inl assms(2)
    have "handle_end opts f exec_start = Inl r" by blast
    with assms(2) show ?thesis by (auto simp: handle_end_def exec_start_def protocol_error_def)
  next
    case (Inr st1)
    with handle_row_Inr have meta: "frame_tag f = kTagMeta" "handle_meta opts f exec_start = Inr st1"
      using handle_frame_Inr [OF Inr] by (fastforce simp: exec_start_def)+
    note h = handle_meta_Inr [OF meta(2)]
    from Inr assms(1) Cons have run: "run_frames opts st1 gs = Some r" by simp
    from run_rows_shape [OF run assms(2)] h obtain ps where
      "gs = map row_frame ps @ [end_frame (of_nat (length ps))]" "columns r = columns (result st1)"
      "\<forall>p\<in>set ps. \<exists>row. DecodeRow (columns (result st1)) p = Inr row" "row_count r = of_nat (length ps)"
      by (auto simp: exec_start_def)
    moreover have "f = meta_frame (frame_flags f) (frame_payload f)"
      using meta by (cases f) (simp add: meta_frame_def)
    ultimately show ?thesis using h Cons by metis
  qed
qed

section \<open>The table a result set becomes\<close>

definition row_text :: "ExecuteOptions \<Rightarrow> string \<Rightarrow> Cell list list \<Rightarrow> string" where
  "row_text opts t rows = (if format_text opts then foldl AppendTableRow t rows else t)"

lemma handle_row_plain:
  assumes "on_row opts = None" "resp_state st = Rows" "columns (result st) \<noteq> []" "\<not> consumer_stopped st"
    "\<not> raw_text_result st" "DecodeRow (columns (result st)) p = Inr row"
  shows "handle_frame opts (row_frame p) st =
    Inr (st\<lparr>observed_rows := observed_rows st + 1,
            result := (result st)\<lparr>result_text := row_text opts (result_text (result st)) [row]\<rparr>\<rparr>)"
  using assms by (simp add: handle_frame_def handle_row_def row_frame_def wire_tags row_text_def set_text_def)

lemma run_rows_plain:
  assumes "on_row opts = None" "resp_state st = Rows" "columns (result st) \<noteq> []" "\<not> consumer_stopped st"
    "\<not> raw_text_result st" "columns (result st) = cols" "list_all2 (\<lambda>p row. DecodeRow cols p = Inr row) ps rows"
  shows "run_frames opts st (map row_frame ps @ fs) =
    run_frames opts (st\<lparr>observed_rows := observed_rows st + of_nat (length rows),
      result := (result st)\<lparr>result_text := row_text opts (result_text (result st)) rows\<rparr>\<rparr>) fs"
  using assms(7,1-6)
proof (induction ps rows arbitrary: st rule: list_all2_induct)
  case Nil
  then show ?case by (simp add: row_text_def)
next
  case (Cons p ps row rows)
  let ?st = "st\<lparr>observed_rows := observed_rows st + 1,
            result := (result st)\<lparr>result_text := row_text opts (result_text (result st)) [row]\<rparr>\<rparr>"
  have step: "handle_frame opts (row_frame p) st = Inr ?st"
    using Cons.prems Cons.hyps by (intro handle_row_plain) simp_all
  have "run_frames opts ?st (map row_frame ps @ fs) =
    run_frames opts (?st\<lparr>observed_rows := observed_rows ?st + of_nat (length rows),
      result := (result ?st)\<lparr>result_text := row_text opts (result_text (result ?st)) rows\<rparr>\<rparr>) fs"
    using Cons.prems by (intro Cons.IH) simp_all
  with step show ?case by (simp add: row_text_def ac_simps)
qed

section \<open>Properties\<close>

lemma ExecStreamResult_loop:
  assumes "ExecStreamResult err c sql opts = (r, c')" "status r \<noteq> TransportError" "status r \<noteq> InvalidRequest"
  obtains c1 where "exec_loop opts exec_start c1 = (r, c')" "inbox c1 = inbox c"
proof -
  obtain ok c1 where w: "WriteFrame c kTagExecStream 0 sql = (ok, c1)" by fastforce
  from assms w have "ok" "exec_loop opts exec_start c1 = (r, c')"
    by (auto simp: ExecStreamResult_def split: if_splits)
  moreover have "inbox c1 = inbox c"
    using w \<open>ok\<close> WriteAll_True by (auto simp: WriteFrame_flat split: if_splits)
  ultimately show ?thesis using that by blast
qed

text \<open>
  C11 (only a complete result set is reported as one). If \<^verbatim>\<open>ExecStreamResult\<close> returns \<open>ResultSet\<close>, on any inbox
  and with any callbacks, then the bytes it consumed are one META frame that decodes to the reported columns,
  ROW frames that all decode under these columns, and a RESULT\_END frame; the number of ROW frames is the
  declared and the reported row count. A truncated or padded stream is never taken for a result.
\<close>

theorem client_result_shape:
  assumes "ExecStreamResult err c sql opts = (r, c')" "status r = ResultSet"
  shows "\<exists>flags meta ps.
    stream (inbox c) =
      frames_image (meta_frame flags meta # map row_frame ps @ [end_frame (of_nat (length ps))]) @ stream (inbox c') \<and>
    DecodeMeta meta = Inr (columns r) \<and> (\<forall>p\<in>set ps. \<exists>row. DecodeRow (columns r) p = Inr row) \<and>
    row_count r = of_nat (length ps)"
proof -
  obtain c1 where l: "exec_loop opts exec_start c1 = (r, c')" and in1: "inbox c1 = inbox c"
    using ExecStreamResult_loop [OF assms(1)] assms(2) by auto
  from exec_loop_sound [OF l] assms(2) obtain fs es where run: "run_frames opts exec_start fs = Some r"
    and c': "c' = c1\<lparr>inbox := es\<rparr>" "stream (inbox c1) = frames_image fs @ stream es" by auto
  from run_frames_shape [OF run] assms(2) obtain flags meta ps where
    sh: "fs = meta_frame flags meta # map row_frame ps @ [end_frame (of_nat (length ps))]"
    "DecodeMeta meta = Inr (columns r)" "\<forall>p\<in>set ps. \<exists>row. DecodeRow (columns r) p = Inr row"
    "row_count r = of_nat (length ps)" by auto
  have "stream (inbox c) = frames_image fs @ stream (inbox c')" using c' in1 by simp
  with sh show ?thesis by blast
qed

text \<open>The response of one empty result set with the column \<^verbatim>\<open>id\<close>.\<close>

definition empty_response :: "net_event list" where
  "empty_response = [Data [CHR 0x00, CHR 0x00, CHR 0x00, CHR 0x07, CHR 0x01, CHR 0x00, CHR 0x00, CHR 0x00,
     CHR 0x00, CHR 0x01, CHR 0x00, CHR 0x02, CHR ''i'', CHR ''d'', CHR 0x01], Interrupted,
     Data [CHR 0x00, CHR 0x00, CHR 0x00, CHR 0x08, CHR 0x11, CHR 0x00, CHR 0x00, CHR 0x00,
     CHR 0x00, CHR 0x00, CHR 0x00, CHR 0x00, CHR 0x00, CHR 0x00, CHR 0x00, CHR 0x00]]"

lemmas read_eval = ReadFrameInternal_def ReadExactInternal_def read_loop.simps be_val_def wire_tags wire_limits wire_types
  WriteFrame_flat legal_frame_def frame_image_def WriteAll_def write_loop.simps
  handle_frame_def handle_meta_def handle_end_def exec_start_def DecodeMeta_def DecodeColumn_def
  ReadU16_def ReadU8_def ReadU32_def ReadU64_def ReadBytes_def IsKnownSqlType_def ExecuteResult_default_def

lemma empty_response_read:
  "exec_loop \<lparr>format_text = False, on_meta = None, on_row = None\<rparr> exec_start
     \<lparr>fd = 4, inbox = empty_response, sends = [], outbox = out\<rparr> =
   (\<lparr>status = ResultSet, columns = [\<lparr>col_label = ''id'', col_sql_type = 1\<rparr>], row_count = 0, result_text = [],
     diagnostic = []\<rparr>, \<lparr>fd = 4, inbox = [], sends = [], outbox = out\<rparr>)"
  by (simp add: exec_loop.simps empty_response_def read_eval)

theorem client_result_shape_witness:
  "\<exists>flags meta ps. stream empty_response =
     frames_image (meta_frame flags meta # map row_frame ps @ [end_frame (of_nat (length ps))]) \<and>
     DecodeMeta meta = Inr [\<lparr>col_label = ''id'', col_sql_type = 1\<rparr>] \<and> of_nat (length ps) = (0 :: u64)"
proof -
  obtain out where "ExecStreamResult [] \<lparr>fd = 4, inbox = empty_response, sends = [], outbox = []\<rparr> ''x;''
      \<lparr>format_text = False, on_meta = None, on_row = None\<rparr> =
    (\<lparr>status = ResultSet, columns = [\<lparr>col_label = ''id'', col_sql_type = 1\<rparr>], row_count = 0, result_text = [],
      diagnostic = []\<rparr>, \<lparr>fd = 4, inbox = [], sends = [], outbox = out\<rparr>)"
    by (auto simp: ExecStreamResult_def WriteFrame_flat legal_frame_def WriteAll_def write_loop.simps wire_limits wire_tags
        empty_response_read frame_image_def AppendU32_def)
  from client_result_shape [OF this] show ?thesis by auto
qed



text \<open>
  C18 (table text). Every line of a printed table is as wide as its separator line, and a cell text that is
  too long is cut to at most 13 bytes at a position that does not lie inside a UTF-8 character.
\<close>

theorem table_text_aligned:
  "length (AppendTableRow out row) = length (AppendSeparator out (length row)) \<and>
   length (AppendTableHeader out cols) = length out + 3 * (length (AppendSeparator [] (length cols))) \<and>
   length (clip_cell s) \<le> kPrettyColWidth \<and>
   (\<exists>k. clip_cell s = s \<or> clip_cell s = take k s @ ''...'' \<and> k \<le> 13 \<and> (k = 0 \<or> \<not> utf8_continuation (s ! k)))"
proof -
  have "\<exists>k. clip_cell s = s \<or> clip_cell s = take k s @ ''...'' \<and> k \<le> 13 \<and> (k = 0 \<or> \<not> utf8_continuation (s ! k))"
    using cut_back_le [of s 13] cut_back_boundary [of 13 s]
    by (intro exI [of _ "cut_back s 13"]) (auto simp: clip_cell_def kPrettyColWidth_def)
  then show ?thesis
    using length_clip_cell
    by (simp add: AppendTableRow_def AppendTableHeader_def length_AppendSeparator length_fold_cells)
qed

theorem table_text_aligned_witness:
  "length (AppendTableRow [] [Cell_default\<lparr>cell_str := ''a long cell of text''\<rparr>]) = 21"
  using table_text_aligned [of "[]" "[Cell_default\<lparr>cell_str := ''a long cell of text''\<rparr>]" "[]" "[]"]
  by (simp add: length_AppendSeparator kPrettyColWidth_def)

end
