(* ===== verification/Server_Response.thy ===== *)
theory Server_Response
  imports Wire_Client
begin

text \<open>
  How the server turns a statement's result into frames: the bounded result buffer of
  \<^verbatim>\<open>src/src/common/wire_result.h\<close> and the \<^verbatim>\<open>send_*\<close> functions of \<^verbatim>\<open>src/src/server/server.cpp\<close>. The lemmas show
  that the buffer's accounting is exact and never passes its bound, which frames each function writes, and
  that the client of \<open>Wire_Client\<close> rebuilds the table from them.
\<close>

section \<open>The result buffer (wire\_result.h)\<close>

record WireResultColumn =
  wcol_name :: string
  wcol_type :: ColType

record WireResultCell =
  wcell_type :: ColType
  wcell_int :: i32
  wcell_float :: f32
  wcell_str :: string

record WireResultSet =
  has_query_result :: bool
  raw_text :: bool
  buffered_bytes :: nat
  rs_columns :: "WireResultColumn list"
  rs_rows :: "WireResultCell list list"

definition kMaxBufferedBytes :: nat where "kMaxBufferedBytes = 16 * 1024 * 1024"
definition kMaxRawTextBytes :: nat where "kMaxRawTextBytes = 1024 * 1024"

text \<open>Object sizes of the 64 bit libstdc++ ABI: a string is 32 bytes, a vector is 24 bytes.\<close>

definition sizeof_WireResultColumn :: nat where "sizeof_WireResultColumn = 40"
definition sizeof_WireResultCell :: nat where "sizeof_WireResultCell = 48"
definition sizeof_row_vector :: nat where "sizeof_row_vector = 24"

definition WireResultSet_empty :: WireResultSet where
  "WireResultSet_empty =
     \<lparr>has_query_result = False, raw_text = False, buffered_bytes = 0, rs_columns = [], rs_rows = []\<rparr>"

definition try_account :: "nat \<Rightarrow> WireResultSet \<Rightarrow> bool \<times> WireResultSet" where
  "try_account bytes s =
     (if buffered_bytes s > kMaxBufferedBytes \<or> bytes > kMaxBufferedBytes - buffered_bytes s then (False, s)
      else (True, s\<lparr>buffered_bytes := buffered_bytes s + bytes\<rparr>))"

text \<open>The members of \<^verbatim>\<open>QueryResultBuilder\<close>: what is thrown, if anything, and the state that is left.\<close>

definition reset_query :: "WireResultSet \<Rightarrow> WireResultSet" where
  "reset_query s = WireResultSet_empty"

definition set_columns :: "WireResultColumn list \<Rightarrow> WireResultSet \<Rightarrow> rmdb_error option \<times> WireResultSet" where
  "set_columns cols s =
     (let s1 = WireResultSet_empty\<lparr>has_query_result := True\<rparr>;
          bytes = length cols * sizeof_WireResultColumn + sum_list (map (length \<circ> wcol_name) cols) in
      case try_account bytes s1 of
        (False, s2) \<Rightarrow> (Some (InternalError ''query result schema exceeds the 16 MiB teaching wire buffer''), s2)
      | (True, s2) \<Rightarrow> (None, s2\<lparr>rs_columns := cols\<rparr>))"

definition text_cell :: "string \<Rightarrow> WireResultCell" where
  "text_cell t = \<lparr>wcell_type = TYPE_STRING, wcell_int = 0, wcell_float = 0, wcell_str = t\<rparr>"

definition set_raw_text :: "string \<Rightarrow> string \<Rightarrow> WireResultSet \<Rightarrow> rmdb_error option \<times> WireResultSet" where
  "set_raw_text column_name t s =
     (if length t > kMaxRawTextBytes
      then (Some (InternalError ''raw text result exceeds the 1 MiB wire frame limit''), s)
      else let s1 = WireResultSet_empty\<lparr>has_query_result := True, raw_text := True\<rparr>;
               bytes = sizeof_WireResultColumn + length column_name + length t in
      (case try_account bytes s1 of
         (False, s2) \<Rightarrow> (Some (InternalError ''raw text result exceeds the teaching wire buffer''), s2)
       | (True, s2) \<Rightarrow>
           (None, s2\<lparr>rs_columns := rs_columns s2 @ [\<lparr>wcol_name = column_name, wcol_type = TYPE_STRING\<rparr>],
                     rs_rows := rs_rows s2 @ [[text_cell t]]\<rparr>)))"

definition row_bytes :: "WireResultCell list \<Rightarrow> nat" where
  "row_bytes row = 2 * sizeof_row_vector + length row * sizeof_WireResultCell + sum_list (map (length \<circ> wcell_str) row)"

definition add_row :: "WireResultCell list \<Rightarrow> WireResultSet \<Rightarrow> rmdb_error option \<times> WireResultSet" where
  "add_row row s =
     (case try_account (row_bytes row) s of
        (False, s1) \<Rightarrow> (Some (InternalError ''query result exceeds the 16 MiB teaching wire buffer''), s1)
      | (True, s1) \<Rightarrow> (None, s1\<lparr>rs_rows := rs_rows s1 @ [row]\<rparr>))"

text \<open>The buffer's accounting covers everything it holds and stays within the bound.\<close>

definition held_bytes :: "WireResultSet \<Rightarrow> nat" where
  "held_bytes s = sum_list (map (length \<circ> wcol_name) (rs_columns s)) +
     sum_list (map (\<lambda>row. sum_list (map (length \<circ> wcell_str) row)) (rs_rows s))"

definition buffer_ok :: "WireResultSet \<Rightarrow> bool" where
  "buffer_ok s \<longleftrightarrow> held_bytes s \<le> buffered_bytes s \<and> buffered_bytes s \<le> kMaxBufferedBytes"

lemma buffer_ok_empty [simp]: "buffer_ok WireResultSet_empty" "buffer_ok (reset_query s)"
  by (simp_all add: buffer_ok_def held_bytes_def WireResultSet_empty_def reset_query_def)

lemma set_columns_ok: "set_columns cols s = (err, s') \<Longrightarrow> buffer_ok s'"
  by (auto simp: set_columns_def try_account_def buffer_ok_def held_bytes_def WireResultSet_empty_def Let_def
      split: if_splits)

lemma set_raw_text_ok: "buffer_ok s \<Longrightarrow> set_raw_text name t s = (err, s') \<Longrightarrow> buffer_ok s'"
  by (auto simp: set_raw_text_def try_account_def buffer_ok_def held_bytes_def WireResultSet_empty_def text_cell_def
      Let_def split: if_splits)

lemma add_row_ok: "buffer_ok s \<Longrightarrow> add_row row s = (err, s') \<Longrightarrow> buffer_ok s'"
  by (auto simp: add_row_def try_account_def buffer_ok_def held_bytes_def row_bytes_def split: if_splits)

lemma add_row_adds:
  "add_row row s = (None, s') \<Longrightarrow> rs_rows s' = rs_rows s @ [row] \<and> rs_columns s' = rs_columns s"
  by (auto simp: add_row_def try_account_def split: if_splits)

section \<open>Sending (server.cpp)\<close>

definition send_error :: "conn \<Rightarrow> string \<Rightarrow> bool \<times> conn" where
  "send_error c diag =
     (let d1 = (if diag \<noteq> [] \<and> last diag \<noteq> CHR ''\<newline>'' then diag @ ''\<newline>'' else diag);
          d2 = (if length d1 > kMaxDiagnosticBytes then take kMaxDiagnosticBytes d1 else d1)
      in WriteFrame c kTagError 0 d2)"

fun wire_columns :: "WireResultColumn list \<Rightarrow> ColumnDef list option" where
  "wire_columns [] = Some []"
| "wire_columns (col # cols) =
     (case ColTypeToWire (coltype_ord (wcol_type col)) of
        None \<Rightarrow> None
      | Some t \<Rightarrow>
          (case wire_columns cols of
             None \<Rightarrow> None
           | Some cs \<Rightarrow> Some (\<lparr>col_label = wcol_name col, col_sql_type = t\<rparr> # cs)))"

fun check_rows :: "WireResultColumn list \<Rightarrow> WireResultCell list list \<Rightarrow> string option" where
  "check_rows cols [] = None"
| "check_rows cols (row # rows) =
     (if length row \<noteq> length cols then Some ''query result row does not match its schema''
      else if map wcell_type row \<noteq> map wcol_type cols then Some ''query result cell type does not match its schema''
      else check_rows cols rows)"

definition wire_cell :: "ColumnDef \<Rightarrow> WireResultCell \<Rightarrow> Cell" where
  "wire_cell col cell =
     \<lparr>is_null = False, cell_type = col_sql_type col, int_val = wcell_int cell, float_val = wcell_float cell,
      cell_str = wcell_str cell\<rparr>"

fun send_rows :: "conn \<Rightarrow> ColumnDef list \<Rightarrow> WireResultCell list list \<Rightarrow> bool \<times> conn" where
  "send_rows c cols [] = (True, c)"
| "send_rows c cols (row # rows) =
     (case TryEncodeRow (map2 wire_cell cols row) of
        Inl e \<Rightarrow> (False, c)
      | Inr payload \<Rightarrow>
          (case WriteFrame c kTagRow 0 payload of (ok, c1) \<Rightarrow>
             if \<not> ok then (False, c1) else send_rows c1 cols rows))"

definition send_query_result :: "conn \<Rightarrow> WireResultSet \<Rightarrow> bool \<times> conn" where
  "send_query_result c rs =
     (case wire_columns (rs_columns rs) of
        None \<Rightarrow> send_error c ''unsupported query result type''
      | Some cols \<Rightarrow>
          (case check_rows (rs_columns rs) (rs_rows rs) of
             Some e \<Rightarrow> send_error c e
           | None \<Rightarrow>
               (case TryEncodeMeta cols of
                  Inl e \<Rightarrow> send_error c e
                | Inr payload \<Rightarrow>
                    (case WriteFrame c kTagMeta 0 payload of (ok, c1) \<Rightarrow>
                       if \<not> ok then (False, c1)
                       else (case send_rows c1 cols (rs_rows rs) of (ok2, c2) \<Rightarrow>
                         if \<not> ok2 then (False, c2)
                         else WriteFrame c2 kTagResultEnd 0 (EncodeResultEnd (word_of_nat (length (rs_rows rs)))))))))"

definition send_raw_text_result :: "conn \<Rightarrow> WireResultSet \<Rightarrow> bool \<times> conn" where
  "send_raw_text_result c rs =
     (if length (rs_columns rs) \<noteq> 1 \<or> length (rs_rows rs) \<noteq> 1 \<or> length (hd (rs_rows rs)) \<noteq> 1
      then send_error c ''raw text result must contain one CHAR cell''
      else let column = \<lparr>col_label = wcol_name (hd (rs_columns rs)), col_sql_type = kTypeChar\<rparr>;
               cell = Cell_default\<lparr>cell_type := kTypeChar, cell_str := wcell_str (hd (hd (rs_rows rs)))\<rparr> in
      (case bindE (TryEncodeMeta [column]) (\<lambda>meta. bindE (TryEncodeRow [cell]) (\<lambda>row. Inr (meta, row))) of
         Inl e \<Rightarrow> send_error c (if e = [] then ''failed to encode raw text result'' else e)
       | Inr (meta, row) \<Rightarrow>
           (case WriteFrame c kTagMeta kFlagRawText meta of (ok1, c1) \<Rightarrow>
              if \<not> ok1 then (False, c1)
              else (case WriteFrame c1 kTagRow 0 row of (ok2, c2) \<Rightarrow>
                if \<not> ok2 then (False, c2)
                else WriteFrame c2 kTagResultEnd 0 (EncodeResultEnd 1)))))"

definition send_statement_result :: "conn \<Rightarrow> WireResultSet \<Rightarrow> bool \<times> conn" where
  "send_statement_result c rs =
     (if has_query_result rs \<and> raw_text rs then send_raw_text_result c rs
      else if has_query_result rs then send_query_result c rs
      else WriteFrame c kTagCommandOk 0 [])"

section \<open>The frames of a response\<close>

definition plain_options :: "bool \<Rightarrow> ExecuteOptions" where
  "plain_options fmt = \<lparr>format_text = fmt, on_meta = None, on_row = None\<rparr>"

text \<open>The table the client shows for a result set.\<close>

definition table_text :: "ColumnDef list \<Rightarrow> Cell list list \<Rightarrow> string" where
  "table_text cols rows =
     AppendSeparator (foldl AppendTableRow (AppendTableHeader [] cols) rows) (length cols) @
     ''Total record(s): '' @ string_of_nat (unat (of_nat (length rows) :: u64)) @ ''\<newline>''"

definition wire_type :: "ColType \<Rightarrow> u8" where
  "wire_type t = (case t of TYPE_INT \<Rightarrow> kTypeInt32 | TYPE_FLOAT \<Rightarrow> kTypeFloat32 | TYPE_STRING \<Rightarrow> kTypeChar)"

definition wire_column :: "WireResultColumn \<Rightarrow> ColumnDef" where
  "wire_column col = \<lparr>col_label = wcol_name col, col_sql_type = wire_type (wcol_type col)\<rparr>"

lemma wire_columns_total: "wire_columns cols = Some (map wire_column cols)"
proof (induction cols)
  case Nil
  then show ?case by simp
next
  case (Cons col cols)
  then show ?case
    by (cases "wcol_type col") (simp_all add: ColTypeToWire_def wire_column_def wire_type_def)
qed

lemma check_rows_None:
  "check_rows cols rows = None \<Longrightarrow> row \<in> set rows \<Longrightarrow> length row = length cols \<and> map wcell_type row = map wcol_type cols"
  by (induction rows) (auto split: if_splits)

lemma WriteFrame_True:
  assumes "WriteFrame c tag flags payload = (True, c')"
  shows "legal_frame \<lparr>frame_tag = tag, frame_flags = flags, frame_payload = payload\<rparr> \<and>
    outbox c' = outbox c @ frame_image \<lparr>frame_tag = tag, frame_flags = flags, frame_payload = payload\<rparr> \<and>
    inbox c' = inbox c \<and> fd c' = fd c"
  using assms WriteAll_True by (auto simp: WriteFrame_flat split: if_splits)

lemma send_rows_True:
  assumes "send_rows c cols rows = (True, c')"
  shows "\<exists>ps. outbox c' = outbox c @ frames_image (map row_frame ps) \<and> (\<forall>p\<in>set ps. legal_frame (row_frame p)) \<and>
    list_all2 (\<lambda>row p. TryEncodeRow (map2 wire_cell cols row) = Inr p) rows ps"
  using assms
proof (induction c cols rows rule: send_rows.induct)
  case (1 c cols)
  then show ?case by (intro exI [of _ "[]"]) simp
next
  case (2 c cols row rows)
  from "2.prems" obtain p where p: "TryEncodeRow (map2 wire_cell cols row) = Inr p"
    by (auto split: sum.splits)
  obtain ok c1 where w: "WriteFrame c kTagRow 0 p = (ok, c1)" by fastforce
  from "2.prems" p w have ok: "ok" and rest: "send_rows c1 cols rows = (True, c')" by (auto split: if_splits)
  from "2.IH" [OF p w [symmetric] _ rest] ok obtain ps where
    "outbox c' = outbox c1 @ frames_image (map row_frame ps)" "\<forall>p\<in>set ps. legal_frame (row_frame p)"
    "list_all2 (\<lambda>row p. TryEncodeRow (map2 wire_cell cols row) = Inr p) rows ps" by auto
  with WriteFrame_True [of c kTagRow 0 p c1] w ok p show ?case
    by (intro exI [of _ "p # ps"]) (simp add: row_frame_def [of p])
qed

lemma run_query:
  assumes "TryEncodeMeta cols = Inr meta" "list_all2 (\<lambda>p row. DecodeRow cols p = Inr row) ps rows"
  shows "run_frames (plain_options fmt) exec_start
      (meta_frame 0 meta # map row_frame ps @ [end_frame (of_nat (length rows))]) =
    Some \<lparr>status = ResultSet, columns = cols, row_count = of_nat (length rows),
      result_text = (if fmt then table_text cols rows else []), diagnostic = []\<rparr>"
proof -
  have ne: "cols \<noteq> []" using assms(1) by (simp add: TryEncodeMeta_Inr_iff)
  let ?st = "exec_start\<lparr>resp_state := Rows, result := ExecuteResult_default
      \<lparr>columns := cols, result_text := (if fmt then AppendTableHeader [] cols else [])\<rparr>\<rparr>"
  have "handle_frame (plain_options fmt) (meta_frame 0 meta) exec_start = Inr ?st"
    using DecodeMeta_TryEncodeMeta [OF assms(1)]
    by (simp add: handle_frame_def handle_meta_def meta_frame_def wire_tags exec_start_def plain_options_def
        set_text_def ExecuteResult_default_def)
  moreover have "run_frames (plain_options fmt) ?st (map row_frame ps @ [end_frame (of_nat (length rows))]) =
      run_frames (plain_options fmt) (?st\<lparr>observed_rows := observed_rows ?st + of_nat (length rows),
        result := (result ?st)\<lparr>result_text := row_text (plain_options fmt) (result_text (result ?st)) rows\<rparr>\<rparr>)
        [end_frame (of_nat (length rows))]"
    using ne assms(2)
    by (intro run_rows_plain [where cols = cols]) (simp_all add: plain_options_def exec_start_def)
  moreover have "ReadU64 (AppendU64 [] (of_nat (length rows))) 0 = Some (of_nat (length rows), 8)"
    using u64_codec.get_put [of "[]" "of_nat (length rows)" "[]"] by simp
  ultimately show ?thesis
    by (simp add: handle_frame_def handle_end_def end_frame_def wire_tags exec_start_def plain_options_def
        EncodeResultEnd_def ExecuteResult_default_def row_text_def table_text_def)
qed

lemma run_raw:
  assumes "TryEncodeMeta [\<lparr>col_label = name, col_sql_type = kTypeChar\<rparr>] = Inr meta"
    and "TryEncodeRow [Cell_default\<lparr>cell_type := kTypeChar, cell_str := t\<rparr>] = Inr row"
  shows "run_frames (plain_options fmt) exec_start [meta_frame kFlagRawText meta, row_frame row, end_frame 1] =
    Some \<lparr>status = ResultSet, columns = [\<lparr>col_label = name, col_sql_type = kTypeChar\<rparr>], row_count = 1,
      result_text = (if fmt then t else []), diagnostic = []\<rparr>"
proof -
  let ?cols = "[\<lparr>col_label = name, col_sql_type = kTypeChar\<rparr>]"
  have "DecodeRow ?cols row = Inr [Cell_default\<lparr>cell_type := kTypeChar, cell_str := t\<rparr>]"
    using DecodeRow_TryEncodeRow [OF assms(2), of ?cols] by (simp add: cell_view_def wire_types)
  moreover have "ReadU64 (AppendU64 [] 1) 0 = Some (1, 8)"
    using u64_codec.get_put [of "[]" 1 "[]"] by simp
  ultimately show ?thesis
    using DecodeMeta_TryEncodeMeta [OF assms(1)]
    by (simp add: handle_frame_def handle_meta_def handle_row_def handle_end_def meta_frame_def row_frame_def end_frame_def
        wire_tags exec_start_def plain_options_def set_text_def ExecuteResult_default_def EncodeResultEnd_def)
qed

lemma send_error_True:
  assumes "send_error c d = (True, c')"
  shows "\<exists>f. outbox c' = outbox c @ frames_image [f] \<and> legal_frame f \<and>
    (\<exists>r. run_frames opts exec_start [f] = Some r \<and> status r = SqlError \<and> diagnostic r = frame_payload f)"
proof -
  obtain p where w: "WriteFrame c kTagError 0 p = (True, c')"
    using assms by (auto simp: send_error_def Let_def)
  show ?thesis
    using WriteFrame_True [OF w]
    by (intro exI [of _ "\<lparr>frame_tag = kTagError, frame_flags = 0, frame_payload = p\<rparr>"])
      (simp add: handle_frame_def wire_tags)
qed

lemma send_query_True:
  assumes "send_query_result c rs = (True, c')" "check_rows (rs_columns rs) (rs_rows rs) = None"
    and "TryEncodeMeta (map wire_column (rs_columns rs)) = Inr meta"
  shows "\<exists>ps. outbox c' = outbox c @
      frames_image (meta_frame 0 meta # map row_frame ps @ [end_frame (of_nat (length (rs_rows rs)))]) \<and>
    (\<forall>f\<in>set (meta_frame 0 meta # map row_frame ps @ [end_frame (of_nat (length (rs_rows rs)))]). legal_frame f) \<and>
    list_all2 (\<lambda>p row. DecodeRow (map wire_column (rs_columns rs)) p = Inr row) ps
      (map (\<lambda>row. map cell_view (map2 wire_cell (map wire_column (rs_columns rs)) row)) (rs_rows rs))"
proof -
  let ?cols = "map wire_column (rs_columns rs)"
  obtain ok c1 where w1: "WriteFrame c kTagMeta 0 meta = (ok, c1)" by fastforce
  obtain ok2 c2 where w2: "send_rows c1 ?cols (rs_rows rs) = (ok2, c2)" by fastforce
  from assms w1 w2 have ok: "ok" "ok2"
    and w3: "WriteFrame c2 kTagResultEnd 0 (EncodeResultEnd (of_nat (length (rs_rows rs)))) = (True, c')"
    by (auto simp: send_query_result_def wire_columns_total split: if_splits)
  from send_rows_True [of c1 ?cols "rs_rows rs" c2] w2 ok obtain ps where
    ps: "outbox c2 = outbox c1 @ frames_image (map row_frame ps)" "\<forall>p\<in>set ps. legal_frame (row_frame p)"
    and enc: "list_all2 (\<lambda>row p. TryEncodeRow (map2 wire_cell ?cols row) = Inr p) (rs_rows rs) ps" by auto
  have types: "map cell_type (map2 wire_cell ?cols row) = map col_sql_type ?cols" if "row \<in> set (rs_rows rs)" for row
    using check_rows_None [OF assms(2) that]
    by (intro nth_equalityI) (auto simp: wire_cell_def)
  have "list_all2 (\<lambda>p row. DecodeRow ?cols p = Inr row) ps
      (map (\<lambda>row. map cell_view (map2 wire_cell ?cols row)) (rs_rows rs))"
    using enc DecodeRow_TryEncodeRow [OF _ types] nth_mem [of _ "rs_rows rs"]
    unfolding list_all2_conv_all_nth length_map by (metis (no_types, lifting) nth_map)
  then show ?thesis
    using WriteFrame_True [of c kTagMeta 0 meta c1] WriteFrame_True [OF w3] w1 ok ps
    by (intro exI [of _ ps]) (auto simp: meta_frame_def end_frame_def)
qed

lemma send_raw_True:
  assumes "send_raw_text_result c rs = (True, c')"
    and "\<forall>d. send_error c d \<noteq> (True, c')"
  shows "\<exists>name t meta row. TryEncodeMeta [\<lparr>col_label = name, col_sql_type = kTypeChar\<rparr>] = Inr meta \<and>
    TryEncodeRow [Cell_default\<lparr>cell_type := kTypeChar, cell_str := t\<rparr>] = Inr row \<and>
    outbox c' = outbox c @ frames_image [meta_frame kFlagRawText meta, row_frame row, end_frame 1] \<and>
    (\<forall>f\<in>set [meta_frame kFlagRawText meta, row_frame row, end_frame 1]. legal_frame f)"
proof -
  let ?column = "\<lparr>col_label = wcol_name (hd (rs_columns rs)), col_sql_type = kTypeChar\<rparr>"
  let ?cell = "Cell_default\<lparr>cell_type := kTypeChar, cell_str := wcell_str (hd (hd (rs_rows rs)))\<rparr>"
  from assms obtain meta row where m: "TryEncodeMeta [?column] = Inr meta" and r: "TryEncodeRow [?cell] = Inr row"
    by (auto simp: send_raw_text_result_def Let_def bindE_Inl_iff split: if_splits sum.splits)
  obtain ok c1 where w1: "WriteFrame c kTagMeta kFlagRawText meta = (ok, c1)" by fastforce
  obtain ok2 c2 where w2: "WriteFrame c1 kTagRow 0 row = (ok2, c2)" by fastforce
  from assms m r w1 w2 have "ok" "ok2" "WriteFrame c2 kTagResultEnd 0 (EncodeResultEnd 1) = (True, c')"
    by (auto simp: send_raw_text_result_def Let_def split: if_splits)
  with w1 w2 WriteFrame_True [of c kTagMeta kFlagRawText meta c1] WriteFrame_True [of c1 kTagRow 0 row c2]
    WriteFrame_True [of c2 kTagResultEnd 0 "EncodeResultEnd 1" c'] m r
  show ?thesis by (auto simp: meta_frame_def row_frame_def end_frame_def)
qed

text \<open>Whatever the result set holds, what the server writes when it reports success is one response.\<close>

lemma send_statement_response:
  assumes "send_statement_result c rs = (True, c')"
  shows "\<exists>fs r. outbox c' = outbox c @ frames_image fs \<and> (\<forall>f\<in>set fs. legal_frame f) \<and>
    run_frames (plain_options fmt) exec_start fs = Some r \<and>
    (status r = CommandOk \<or> status r = ResultSet \<or> status r = SqlError)"
proof (cases "\<exists>d. send_error c d = (True, c')")
  case True
  then show ?thesis using send_error_True [of c _ c' "plain_options fmt"]
    by (metis empty_iff insert_iff list.set(1) list.simps(15))
next
  case False
  then have no_error: "\<forall>d. send_error c d \<noteq> (True, c')" by blast
  consider (raw) "has_query_result rs" "raw_text rs" | (query) "has_query_result rs" "\<not> raw_text rs"
    | (command) "\<not> has_query_result rs" by blast
  then show ?thesis
  proof cases
    case raw
    with assms have "send_raw_text_result c rs = (True, c')" by (simp add: send_statement_result_def)
    from send_raw_True [OF this no_error] obtain name t meta row where
      m: "TryEncodeMeta [\<lparr>col_label = name, col_sql_type = kTypeChar\<rparr>] = Inr meta"
      "TryEncodeRow [Cell_default\<lparr>cell_type := kTypeChar, cell_str := t\<rparr>] = Inr row"
      and f: "outbox c' = outbox c @ frames_image [meta_frame kFlagRawText meta, row_frame row, end_frame 1]"
      "\<forall>f\<in>set [meta_frame kFlagRawText meta, row_frame row, end_frame 1]. legal_frame f" by blast
    show ?thesis by (rule exI, rule exI, intro conjI, rule f, rule f, rule run_raw [OF m]) simp
  next
    case query
    with assms have q: "send_query_result c rs = (True, c')" by (simp add: send_statement_result_def)
    with no_error obtain meta where m: "check_rows (rs_columns rs) (rs_rows rs) = None"
      "TryEncodeMeta (map wire_column (rs_columns rs)) = Inr meta"
      by (auto simp: send_query_result_def wire_columns_total split: option.splits sum.splits)
    from send_query_True [OF q m] obtain ps where
      f: "outbox c' = outbox c @
        frames_image (meta_frame 0 meta # map row_frame ps @ [end_frame (of_nat (length (rs_rows rs)))])"
      "\<forall>f\<in>set (meta_frame 0 meta # map row_frame ps @ [end_frame (of_nat (length (rs_rows rs)))]). legal_frame f"
      and d: "list_all2 (\<lambda>p row. DecodeRow (map wire_column (rs_columns rs)) p = Inr row) ps
      (map (\<lambda>row. map cell_view (map2 wire_cell (map wire_column (rs_columns rs)) row)) (rs_rows rs))" by blast
    note run = run_query [OF m(2) d, of fmt, unfolded length_map]
    show ?thesis by (rule exI, rule exI, intro conjI, rule f, rule f, rule run) simp
  next
    case command
    with assms have "WriteFrame c kTagCommandOk 0 [] = (True, c')" by (simp add: send_statement_result_def)
    from WriteFrame_True [OF this] show ?thesis
      by (intro exI [of _ "[\<lparr>frame_tag = kTagCommandOk, frame_flags = 0, frame_payload = []\<rparr>]"])
        (simp add: handle_frame_def exec_start_def)
  qed
qed

lemma ExecStreamResult_frames:
  assumes "0 \<le> fd c" "clean_sends (sends c)" "clean (inbox c)" "stream (inbox c) = frames_image fs @ rest"
    and "sql \<noteq> []" "length sql \<le> kMaxPayloadBytes"
    and "run_frames opts exec_start fs = Some r" "\<forall>f\<in>set fs. legal_frame f"
  shows "\<exists>c'. ExecStreamResult err c sql opts = (r, c') \<and> clean (inbox c') \<and> stream (inbox c') = rest \<and> fd c' = fd c"
proof -
  have legal: "legal_frame \<lparr>frame_tag = kTagExecStream, frame_flags = 0, frame_payload = sql\<rparr>"
    using assms(6) by (simp add: legal_frame_def wire_tags)
  obtain es where w: "WriteFrame c kTagExecStream 0 sql = (True, c\<lparr>sends := es, outbox := outbox c @
      frame_image \<lparr>frame_tag = kTagExecStream, frame_flags = 0, frame_payload = sql\<rparr>\<rparr>)"
    using WriteAll_clean [OF assms(1,2)] legal by (metis WriteFrame_flat)
  from exec_loop_frames [OF assms(7,8), of "c\<lparr>sends := es, outbox := outbox c @
      frame_image \<lparr>frame_tag = kTagExecStream, frame_flags = 0, frame_payload = sql\<rparr>\<rparr>" rest] assms
  show ?thesis by (auto simp: ExecStreamResult_def w)
qed

section \<open>Properties\<close>

text \<open>
  C9 (a query result arrives). The server sends a result set whose rows fit its schema and reports
  success. Then a client that reads this response, cut into pieces in any way and with interruptions in
  between, returns \<open>ResultSet\<close> with the columns and the number of rows of the result set and with the table
  of its cells as text, and it leaves in the stream exactly the bytes behind the response.
\<close>

theorem query_result_arrives:
  assumes "send_query_result s rs = (True, s')" "check_rows (rs_columns rs) (rs_rows rs) = None"
    and "TryEncodeMeta (map wire_column (rs_columns rs)) = Inr meta"
    and "outbox s = []" "0 \<le> fd c" "clean_sends (sends c)" "clean (inbox c)" "stream (inbox c) = outbox s' @ rest"
    and "sql \<noteq> []" "length sql \<le> kMaxPayloadBytes"
  shows "\<exists>c'. ExecStreamResult err c sql (plain_options True) =
      (\<lparr>status = ResultSet, columns = map wire_column (rs_columns rs), row_count = of_nat (length (rs_rows rs)),
        result_text = table_text (map wire_column (rs_columns rs))
          (map (\<lambda>row. map cell_view (map2 wire_cell (map wire_column (rs_columns rs)) row)) (rs_rows rs)),
        diagnostic = []\<rparr>, c') \<and>
    clean (inbox c') \<and> stream (inbox c') = rest"
proof -
  let ?cols = "map wire_column (rs_columns rs)"
  let ?rows = "map (\<lambda>row. map cell_view (map2 wire_cell ?cols row)) (rs_rows rs)"
  from send_query_True [OF assms(1-3)] assms(4) obtain ps where
    f: "outbox s' = frames_image (meta_frame 0 meta # map row_frame ps @ [end_frame (of_nat (length ?rows))])"
    "\<forall>f\<in>set (meta_frame 0 meta # map row_frame ps @ [end_frame (of_nat (length ?rows))]). legal_frame f"
    and d: "list_all2 (\<lambda>p row. DecodeRow ?cols p = Inr row) ps ?rows" by auto
  note run = run_query [OF assms(3) d, of True]
  have "stream (inbox c) = frames_image (meta_frame 0 meta # map row_frame ps @ [end_frame (of_nat (length ?rows))]) @ rest"
    using assms(8) f(1) by simp
  from ExecStreamResult_frames [OF assms(5-7) this assms(9,10) run f(2)] show ?thesis by auto
qed

text \<open>A result set of one integer cell, and the bytes the server sends for it.\<close>

definition sample_result :: WireResultSet where
  "sample_result = \<lparr>has_query_result = True, raw_text = False, buffered_bytes = 0,
     rs_columns = [\<lparr>wcol_name = ''id'', wcol_type = TYPE_INT\<rparr>],
     rs_rows = [[\<lparr>wcell_type = TYPE_INT, wcell_int = 7, wcell_float = 0, wcell_str = []\<rparr>]]\<rparr>"

definition sample_server :: conn where
  "sample_server = \<lparr>fd = 3, inbox = [], sends = [Accept 3, SendInterrupted], outbox = []\<rparr>"

definition sample_meta :: string where
  "sample_meta = [CHR 0x00, CHR 0x01, CHR 0x00, CHR 0x02, CHR ''i'', CHR ''d'', CHR 0x01]"

definition sample_head :: string where
  "sample_head = [CHR 0x00, CHR 0x00, CHR 0x00, CHR 0x07, CHR 0x01]"

definition sample_tail :: string where
  "sample_tail = [CHR 0x00, CHR 0x00, CHR 0x00] @ sample_meta @
     [CHR 0x00, CHR 0x00, CHR 0x00, CHR 0x05, CHR 0x02, CHR 0x00, CHR 0x00, CHR 0x00,
      CHR 0x01, CHR 0x00, CHR 0x00, CHR 0x00, CHR 0x07,
      CHR 0x00, CHR 0x00, CHR 0x00, CHR 0x08, CHR 0x11, CHR 0x00, CHR 0x00, CHR 0x00,
      CHR 0x00, CHR 0x00, CHR 0x00, CHR 0x00, CHR 0x00, CHR 0x00, CHR 0x00, CHR 0x01]"

definition sample_client :: conn where
  "sample_client = \<lparr>fd = 4, inbox = [Data sample_head, Interrupted, Data sample_tail], sends = [], outbox = []\<rparr>"

lemmas sample_defs = sample_result_def sample_server_def sample_meta_def sample_head_def sample_tail_def
  sample_client_def

lemmas wire_eval = TryEncodeMeta_def IsKnownSqlType_def wire_types wire_limits append_column_def AppendU8_def
  AppendU16_def AppendU32_def AppendU64_def AppendCell_def TryEncodeRow_def EncodeResultEnd_def wire_tags
  WriteFrame_flat legal_frame_def frame_image_def WriteAll_def write_loop.simps wire_cell_def ColTypeToWire_def
  wire_column_def wire_type_def eval_simps char_of_def bit_Suc_0_iff

lemma sample_meta_encoded: "TryEncodeMeta (map wire_column (rs_columns sample_result)) = Inr sample_meta"
  by (simp add: sample_result_def sample_meta_def wire_eval)

lemma sample_sent:
  "send_query_result sample_server sample_result =
     (True, sample_server\<lparr>sends := [], outbox := sample_head @ sample_tail\<rparr>)"
  by (simp add: sample_defs send_query_result_def wire_eval)

theorem query_result_arrives_witness:
  "\<exists>c'. ExecStreamResult [] sample_client ''select * from t;'' (plain_options True) =
      (\<lparr>status = ResultSet, columns = [\<lparr>col_label = ''id'', col_sql_type = 1\<rparr>], row_count = 1,
        result_text = table_text [\<lparr>col_label = ''id'', col_sql_type = 1\<rparr>]
          [[Cell_default\<lparr>cell_type := 1, int_val := 7\<rparr>]], diagnostic = []\<rparr>, c') \<and>
    clean (inbox c') \<and> stream (inbox c') = []"
proof -
  have "check_rows (rs_columns sample_result) (rs_rows sample_result) = None" "outbox sample_server = []"
    "0 \<le> fd sample_client" "clean_sends (sends sample_client)" "clean (inbox sample_client)"
    by (simp_all add: sample_defs)
  moreover have "stream (inbox sample_client) =
      outbox (sample_server\<lparr>sends := [], outbox := sample_head @ sample_tail\<rparr>) @ []"
    by (simp add: sample_client_def)
  moreover have "length ''select * from t;'' \<le> kMaxPayloadBytes" by (simp add: kMaxPayloadBytes_def)
  ultimately show ?thesis
    using query_result_arrives [OF sample_sent _ sample_meta_encoded, of sample_client "[]" "''select * from t;''" "[]"]
    by (simp add: sample_result_def wire_column_def wire_type_def wire_cell_def cell_view_def wire_types)
qed

text \<open>
  C10 (server and client stay in step). Whatever result set a statement leaves behind, if the server
  reports that it has sent it then the client's next statement ends with a command, a result set or an SQL
  error, never with a transport or protocol error, and the stream is left at the end of the response.
\<close>

theorem statement_response_in_step:
  assumes "send_statement_result s rs = (True, s')" "outbox s = []"
    and "0 \<le> fd c" "clean_sends (sends c)" "clean (inbox c)" "stream (inbox c) = outbox s' @ rest"
    and "sql \<noteq> []" "length sql \<le> kMaxPayloadBytes"
  shows "\<exists>r c'. ExecStreamResult err c sql (plain_options fmt) = (r, c') \<and> connection_reusable r \<and>
    (status r = CommandOk \<or> status r = ResultSet \<or> status r = SqlError) \<and> stream (inbox c') = rest"
proof -
  from send_statement_response [OF assms(1), of fmt] assms(2) obtain fs r where
    f: "outbox s' = frames_image fs" "\<forall>f\<in>set fs. legal_frame f"
    and run: "run_frames (plain_options fmt) exec_start fs = Some r"
    and st: "status r = CommandOk \<or> status r = ResultSet \<or> status r = SqlError" by auto
  from ExecStreamResult_frames [OF assms(3-5) _ assms(7,8) run f(2), of rest err] assms(6) f(1) st
  show ?thesis by (auto simp: connection_reusable_def)
qed

theorem statement_response_in_step_witness:
  "\<exists>r c'. ExecStreamResult [] sample_client ''select * from t;'' (plain_options False) = (r, c') \<and>
    connection_reusable r \<and> (status r = CommandOk \<or> status r = ResultSet \<or> status r = SqlError) \<and>
    stream (inbox c') = []"
proof -
  have sent: "send_statement_result sample_server sample_result =
      (True, sample_server\<lparr>sends := [], outbox := sample_head @ sample_tail\<rparr>)"
    using sample_sent by (simp add: send_statement_result_def sample_result_def)
  show ?thesis
    by (rule statement_response_in_step [OF sent]) (simp_all add: sample_defs kMaxPayloadBytes_def)
qed

text \<open>The states a builder can be in.\<close>

inductive builder_reachable :: "WireResultSet \<Rightarrow> bool" where
  start: "builder_reachable WireResultSet_empty"
| reset: "builder_reachable s \<Longrightarrow> builder_reachable (reset_query s)"
| columns: "builder_reachable s \<Longrightarrow> builder_reachable (snd (set_columns cols s))"
| raw_text: "builder_reachable s \<Longrightarrow> builder_reachable (snd (set_raw_text name t s))"
| row: "builder_reachable s \<Longrightarrow> builder_reachable (snd (add_row row s))"

text \<open>
  C19 (the result buffer is bounded). Starting from an empty builder, after any sequence of \<^verbatim>\<open>reset_query\<close>,
  \<^verbatim>\<open>set_columns\<close>, \<^verbatim>\<open>set_raw_text\<close> and \<^verbatim>\<open>add_row\<close> calls, including calls that throw, the text held in the buffer
  is covered by the accounted bytes, and these never exceed 16 MiB.
\<close>

theorem builder_bounded:
  assumes "builder_reachable s"
  shows "held_bytes s \<le> buffered_bytes s \<and> buffered_bytes s \<le> 16777216"
proof -
  from assms have "buffer_ok s"
  proof induction
    case (columns s cols)
    then show ?case by (metis prod.collapse set_columns_ok)
  next
    case (raw_text s name t)
    then show ?case by (metis prod.collapse set_raw_text_ok)
  next
    case (row s row)
    then show ?case by (metis prod.collapse add_row_ok)
  qed simp_all
  then show ?thesis by (simp add: buffer_ok_def kMaxBufferedBytes_def)
qed

theorem builder_bounded_witness:
  "let s = snd (add_row [text_cell ''abc''] (snd (set_columns [\<lparr>wcol_name = ''id'', wcol_type = TYPE_STRING\<rparr>] WireResultSet_empty)))
   in held_bytes s = 5 \<and> held_bytes s \<le> buffered_bytes s \<and> buffered_bytes s \<le> 16777216"
  using builder_bounded [OF builder_reachable.row [OF builder_reachable.columns [OF builder_reachable.start]]]
  by (simp add: held_bytes_def add_row_def set_columns_def try_account_def kMaxBufferedBytes_def
      WireResultSet_empty_def row_bytes_def text_cell_def sizeof_WireResultColumn_def sizeof_row_vector_def
      sizeof_WireResultCell_def Let_def)

text \<open>
  C20 (the two limits on raw text differ). A text of 1048572 to 1048576 bytes passes the check of
  \<^verbatim>\<open>set_raw_text\<close>, whose message names the 1 MiB frame limit, but a ROW payload needs five bytes more than
  the text: the row cannot be encoded, and the server answers such a statement with an error.
\<close>

theorem raw_text_limit_gap:
  assumes "1048571 < length t" "length t \<le> 1048576" "length name \<le> 65535"
  shows "\<exists>s'. set_raw_text name t s = (None, s') \<and>
    TryEncodeRow [Cell_default\<lparr>cell_type := kTypeChar, cell_str := t\<rparr>] = Inl ''ROW payload exceeds 1 MiB'' \<and>
    (\<exists>e. send_statement_result c s' = send_error c e)"
proof -
  let ?row = "TryEncodeRow [Cell_default\<lparr>cell_type := kTypeChar, cell_str := t\<rparr>]"
  have row: "?row = Inl ''ROW payload exceeds 1 MiB''"
    using assms by (simp add: TryEncodeRow_def IsKnownSqlType_def wire_limits)
  obtain s' where s': "set_raw_text name t s = (None, s')" "has_query_result s'" "Server_Response.raw_text s'"
    "rs_rows s' = [[text_cell t]]" "rs_columns s' = [\<lparr>wcol_name = name, wcol_type = TYPE_STRING\<rparr>]"
    using assms
    by (auto simp: set_raw_text_def try_account_def WireResultSet_empty_def kMaxRawTextBytes_def
        kMaxBufferedBytes_def sizeof_WireResultColumn_def Let_def)
  have "\<exists>e. send_statement_result c s' = send_error c e"
    using s' row
    by (auto simp: send_statement_result_def send_raw_text_result_def text_cell_def bindE_def split: sum.splits)
  with s'(1) row show ?thesis by blast
qed

theorem raw_text_limit_gap_witness:
  "\<exists>s'. set_raw_text ''Tables'' (replicate 1048576 CHR ''x'') WireResultSet_empty = (None, s') \<and>
    (\<exists>e. send_statement_result sample_server s' = send_error sample_server e)"
  using raw_text_limit_gap [of "replicate 1048576 CHR ''x''" "''Tables''" WireResultSet_empty sample_server]
  by (auto simp del: replicate.simps)

end
