(* ===== verification/Sql_Client.thy ===== *)
theory Sql_Client
  imports Sql_Parser Server_Response
begin

text \<open>
  The command-line client: \<^verbatim>\<open>src/rucbase_client/main.cpp\<close> and the connection object of \<^verbatim>\<open>src/src/net/client.cpp\<close>. The
  outcome of every system call is an input; what the program prints is part of the result. The lemmas show that the text
  splitter agrees with the server's scanner about strings, comments and semicolons, so that a request never carries two
  statements, and that a connection whose response stream is out of step is never used again.
\<close>

section \<open>Connecting\<close>

datatype ClientError = NoError | InvalidEndpoint | ResolveFailed | ConnectFailed | ConnectTimeout | ConfigureFailed | HandshakeFailed

record ClientStatus =
  status_code :: ClientError
  status_message :: string

definition status_ok :: "ClientStatus \<Rightarrow> bool" where
  "status_ok s \<longleftrightarrow> status_code s = NoError"

definition client_error :: "ClientError \<Rightarrow> string \<Rightarrow> ClientStatus" where
  "client_error code message = \<lparr>status_code = code, status_message = message\<rparr>"

definition ok_status :: ClientStatus where
  "ok_status = client_error NoError []"

definition ErrnoMessage :: "string \<Rightarrow> string \<Rightarrow> string" where
  "ErrnoMessage prefix errno_text = prefix @ '': '' @ errno_text"

text \<open>
  \<^verbatim>\<open>ConnectAddress\<close>: the outcomes of its system calls on one address. \<open>polls\<close> lists the rounds of the waiting loop; a
  round that finds the deadline passed does not poll. The list is finite because the deadline is.
\<close>

datatype connect_outcome = Connected | InProgress | Refused string

datatype poll_round = DeadlinePassed | PollEintr | PollTimeout | PollError string | PollReady

record connect_calls =
  socket_result :: "string + conn"
  getfl_error :: "string option"
  setfl_error :: "string option"
  connect_result :: connect_outcome
  polls :: "poll_round list"
  getsockopt_error :: "string option"
  socket_error :: "string option"
  restore_error :: "string option"

fun poll_loop :: "connect_calls \<Rightarrow> poll_round list \<Rightarrow> ClientStatus" where
  "poll_loop k [] = client_error ConnectTimeout ''connect timed out''"
| "poll_loop k (DeadlinePassed # ps) = client_error ConnectTimeout ''connect timed out''"
| "poll_loop k (PollEintr # ps) = poll_loop k ps"
| "poll_loop k (PollTimeout # ps) = client_error ConnectTimeout ''connect timed out''"
| "poll_loop k (PollError e # ps) = client_error ConnectFailed (ErrnoMessage ''connect poll failed'' e)"
| "poll_loop k (PollReady # ps) =
     (case getsockopt_error k of
        Some e \<Rightarrow> client_error ConnectFailed (ErrnoMessage ''connect status failed'' e)
      | None \<Rightarrow>
          (case socket_error k of
             Some e \<Rightarrow> client_error ConnectFailed (ErrnoMessage ''connect failed'' e)
           | None \<Rightarrow> ok_status))"

definition ConnectAddress :: "connect_calls \<Rightarrow> ClientStatus \<times> conn option" where
  "ConnectAddress k =
     (case socket_result k of
        Inl e \<Rightarrow> (client_error ConnectFailed (ErrnoMessage ''socket creation failed'' e), None)
      | Inr c \<Rightarrow>
          (case getfl_error k of
             Some e \<Rightarrow> (client_error ConnectFailed (ErrnoMessage ''failed to read socket flags'' e), None)
           | None \<Rightarrow>
          (case setfl_error k of
             Some e \<Rightarrow> (client_error ConnectFailed (ErrnoMessage ''failed to configure nonblocking connect'' e), None)
           | None \<Rightarrow>
          (let waited = (case connect_result k of
                           Connected \<Rightarrow> ok_status
                         | Refused e \<Rightarrow> client_error ConnectFailed (ErrnoMessage ''connect failed'' e)
                         | InProgress \<Rightarrow> poll_loop k (polls k)) in
           if \<not> status_ok waited then (waited, None)
           else (case restore_error k of
                   Some e \<Rightarrow> (client_error ConnectFailed (ErrnoMessage ''failed to restore socket flags'' e), None)
                 | None \<Rightarrow> (ok_status, Some c))))))"

fun try_addresses :: "ClientStatus \<times> conn option \<Rightarrow> connect_calls list \<Rightarrow> ClientStatus \<times> conn option" where
  "try_addresses last_error [] = last_error"
| "try_addresses last_error (k # ks) =
     (let r = ConnectAddress k in
      if status_ok (fst r) \<or> status_code (fst r) = ConnectTimeout then r else try_addresses r ks)"

definition ConnectTcpSocket :: "string \<Rightarrow> nat \<Rightarrow> (string + connect_calls list) \<Rightarrow> ClientStatus \<times> conn option" where
  "ConnectTcpSocket host port resolved =
     (if host = [] \<or> port = 0 then (client_error InvalidEndpoint ''TCP host and port must be non-empty'', None)
      else case resolved of
        Inl e \<Rightarrow>
          (client_error ResolveFailed (''failed to resolve '' @ host @ '':'' @ string_of_nat port @ '': '' @ e), None)
      | Inr addresses \<Rightarrow> try_addresses (client_error ConnectFailed ''no usable address'', None) addresses)"

definition sun_path_size :: nat where "sun_path_size = 108"

definition ConnectUnixSocket :: "string \<Rightarrow> connect_calls \<Rightarrow> ClientStatus \<times> conn option" where
  "ConnectUnixSocket path k =
     (if path = [] then (client_error InvalidEndpoint ''Unix socket path must be non-empty'', None)
      else if length path \<ge> sun_path_size then (client_error InvalidEndpoint ''Unix socket path is too long'', None)
      else ConnectAddress k)"

datatype Endpoint = Tcp string nat "string + connect_calls list" | Unix string connect_calls

text \<open>A closed client has the descriptor \<open>-1\<close>, as the code.\<close>

definition close_conn :: "conn \<Rightarrow> conn" where
  "close_conn c = (if fd c \<ge> 0 then c\<lparr>fd := -1\<rparr> else c)"

definition is_open :: "conn \<Rightarrow> bool" where
  "is_open c \<longleftrightarrow> fd c \<ge> 0"

definition Connect :: "nat \<Rightarrow> nat \<Rightarrow> Endpoint \<Rightarrow> (bool \<times> string) \<Rightarrow> conn \<Rightarrow> ClientStatus \<times> conn" where
  "Connect connect_timeout_ms io_timeout_ms endpoint configured client =
     (if connect_timeout_ms = 0 \<or> connect_timeout_ms > INT_MAX \<or> io_timeout_ms = 0
      then (client_error InvalidEndpoint ''connect and I/O timeouts are out of range'', client)
      else let client1 = close_conn client;
               (st, connected) = (case endpoint of
                                    Tcp host port resolved \<Rightarrow> ConnectTcpSocket host port resolved
                                  | Unix path k \<Rightarrow> ConnectUnixSocket path k) in
      case connected of
        None \<Rightarrow> (st, client1)
      | Some c \<Rightarrow>
          if \<not> fst configured
          then (client_error ConfigureFailed (ErrnoMessage ''failed to configure connected socket'' (snd configured)), client1)
          else (case ClientHandshake c of (ok, c1) \<Rightarrow>
            if \<not> ok
            then (client_error HandshakeFailed ''wire handshake failed; server must speak RMDB wire protocol v3.1'', client1)
            else (ok_status, c1)))"

definition Execute :: "string \<Rightarrow> string \<Rightarrow> ExecuteOptions \<Rightarrow> conn \<Rightarrow> ExecuteResult \<times> conn" where
  "Execute errno_text sql opts client =
     (case ExecStreamResult errno_text client sql opts of (r, c1) \<Rightarrow>
        (r, if \<not> connection_reusable r \<and> fd c1 \<ge> 0 then close_conn c1 else c1))"

section \<open>Splitting the input\<close>

definition is_trim :: "char \<Rightarrow> bool" where
  "is_trim c \<longleftrightarrow> c = CHR '' '' \<or> c = TAB \<or> c = CR \<or> c = LF"

definition Trim :: "string \<Rightarrow> string" where
  "Trim input = rev (dropWhile is_trim (rev (dropWhile is_trim input)))"

definition is_space :: "char \<Rightarrow> bool" where
  "is_space c \<longleftrightarrow> c = CHR '' '' \<or> 9 \<le> (of_char c :: nat) \<and> (of_char c :: nat) \<le> 13"

record take_state =
  in_string :: bool
  in_line_comment :: bool
  in_block_comment :: bool
  tail_has_sql :: bool

definition take_start :: take_state where
  "take_start = \<lparr>in_string = False, in_line_comment = False, in_block_comment = False, tail_has_sql = False\<rparr>"

definition next_char :: "string \<Rightarrow> char" where
  "next_char s = (case s of [] \<Rightarrow> NUL | c # r \<Rightarrow> c)"

text \<open>
  One round of the loop on the character \<open>ch\<close> with \<open>after\<close> behind it: the new flags, whether the next character is skipped,
  and whether a statement ends here.
\<close>

definition take_step :: "take_state \<Rightarrow> char \<Rightarrow> string \<Rightarrow> take_state \<times> bool \<times> bool" where
  "take_step st ch after =
     (let nx = next_char after in
      if in_line_comment st then (if ch = LF then st\<lparr>in_line_comment := False\<rparr> else st, False, False)
      else if in_block_comment st
      then (if ch = CHR ''*'' \<and> nx = CHR ''/'' then (st\<lparr>in_block_comment := False\<rparr>, True, False) else (st, False, False))
      else if in_string st
      then (if ch = QUOTE then (if nx = QUOTE then (st, True, False) else (st\<lparr>in_string := False\<rparr>, False, False)) else (st, False, False))
      else if ch = CHR ''-'' \<and> nx = CHR ''-'' then (st\<lparr>in_line_comment := True\<rparr>, True, False)
      else if ch = CHR ''/'' \<and> nx = CHR ''*'' then (st\<lparr>in_block_comment := True\<rparr>, True, False)
      else if ch = QUOTE then (st\<lparr>in_string := True, tail_has_sql := True\<rparr>, False, False)
      else if ch = CHR '';'' then (st\<lparr>tail_has_sql := False\<rparr>, False, True)
      else if \<not> is_space ch then (st\<lparr>tail_has_sql := True\<rparr>, False, False)
      else (st, False, False))"

text \<open>The loop; \<open>cur\<close> is the input from \<^verbatim>\<open>statement_start\<close> to the current index.\<close>

function take_loop :: "take_state \<Rightarrow> string \<Rightarrow> string list \<Rightarrow> string \<Rightarrow> string list \<times> string \<times> take_state" where
  "take_loop st cur statements [] = (statements, cur, st)"
| "take_loop st cur statements (ch # after) =
     (case take_step st ch after of (st1, skip, ends) \<Rightarrow>
        if ends then take_loop st1 [] (if tail_has_sql st then statements @ [cur @ [ch]] else statements) after
        else if skip then take_loop st1 (cur @ ch # take 1 after) statements (drop 1 after)
        else take_loop st1 (cur @ [ch]) statements after)"
  by pat_completeness auto
termination
  by (relation "measure (\<lambda>(st, cur, statements, s). length s)") auto

definition TakeCompleteStatements :: "string \<Rightarrow> string list \<times> string" where
  "TakeCompleteStatements input =
     (case take_loop take_start [] [] input of (statements, tail, st) \<Rightarrow>
        (statements, if \<not> tail_has_sql st \<and> \<not> in_block_comment st then [] else tail))"

definition IsExitCommand :: "string \<Rightarrow> bool" where
  "IsExitCommand command = (let trimmed = Trim command in trimmed \<in> {''exit'', ''exit;'', ''bye'', ''bye;''})"

section \<open>Running statements\<close>

definition with_newline :: "string \<Rightarrow> string" where
  "with_newline s = (if last s \<noteq> LF then s @ [LF] else s)"

definition ESC :: char where "ESC = CHR 0x1B"

definition highlight :: "bool \<Rightarrow> string \<Rightarrow> string" where
  "highlight on s = (if on then [ESC] @ ''[1;31m'' @ s @ [ESC] @ ''[0m'' else s)"

definition SendSql :: "string \<Rightarrow> string \<Rightarrow> bool \<Rightarrow> conn \<Rightarrow> ExecuteResult \<times> string \<times> conn" where
  "SendSql errno_text sql highlight_errors client =
     (case Execute errno_text (Trim sql) \<lparr>format_text = True, on_meta = None, on_row = None\<rparr> client of (r, c1) \<Rightarrow>
        if \<not> exec_ok r
        then (r, highlight highlight_errors (if diagnostic r \<noteq> [] then with_newline (diagnostic r) else ''EXEC_STREAM failed'' @ [LF]), c1)
        else if status r = CommandOk then (r, ''Query OK'' @ [LF], c1)
        else if result_text r \<noteq> [] then (r, with_newline (result_text r), c1)
        else (r, [], c1))"

fun run_statements :: "string \<Rightarrow> string list \<Rightarrow> conn \<Rightarrow> bool \<times> string \<times> conn" where
  "run_statements errno_text [] client = (True, [], client)"
| "run_statements errno_text (s # ss) client =
     (if IsExitCommand s then (True, [], client)
      else case SendSql errno_text s False client of (r, out, c1) \<Rightarrow>
        if \<not> exec_ok r then (False, out, c1)
        else case run_statements errno_text ss c1 of (ok, out2, c2) \<Rightarrow> (ok, out @ out2, c2))"

definition RunSqlText :: "string \<Rightarrow> string \<Rightarrow> conn \<Rightarrow> bool \<times> string \<times> conn" where
  "RunSqlText errno_text sql client =
     (case TakeCompleteStatements sql of (statements, tail) \<Rightarrow>
        run_statements errno_text (if Trim tail \<noteq> [] then statements @ [Trim tail] else statements) client)"

definition RunScriptFile :: "string \<Rightarrow> string \<Rightarrow> string option \<Rightarrow> conn \<Rightarrow> bool \<times> string \<times> conn" where
  "RunScriptFile errno_text path content client =
     (case content of
        None \<Rightarrow> (False, ''failed to open SQL file: '' @ path @ [LF], client)
      | Some sql \<Rightarrow> RunSqlText errno_text sql client)"

text \<open>
  The statements of one round of the interactive loop: \<open>Inl code\<close> when the client ends, otherwise the output so far and
  the connection.
\<close>

definition closing :: string where
  "closing = ''The client will be closed.'' @ [LF]"

fun interactive_statements :: "string \<Rightarrow> string list \<Rightarrow> conn \<Rightarrow> int option \<times> string \<times> conn" where
  "interactive_statements errno_text [] client = (None, [], client)"
| "interactive_statements errno_text (s # ss) client =
     (if IsExitCommand s then (Some 0, closing, client)
      else case SendSql errno_text s True client of (r, out, c1) \<Rightarrow>
        if \<not> exec_ok r \<and> \<not> connection_reusable r then (Some 1, out, c1)
        else case interactive_statements errno_text ss c1 of (code, out2, c2) \<Rightarrow> (code, out @ out2, c2))"

fun RunInteractive :: "string \<Rightarrow> string \<Rightarrow> string \<Rightarrow> string list \<Rightarrow> conn \<Rightarrow> int \<times> string \<times> conn" where
  "RunInteractive errno_text primary_prompt pending lines client =
     (let prompt = (if pending = [] then primary_prompt else replicate (length primary_prompt - 3) CHR '' '' @ ''-> '') in
      case lines of
        [] \<Rightarrow> (0, prompt @ [LF] @ (if Trim pending \<noteq> [] then ''incomplete SQL statement discarded'' @ [LF] else []), client)
      | line # rest \<Rightarrow>
          let pending1 = pending @ line @ [LF] in
          if IsExitCommand pending1 then (0, prompt @ closing, client)
          else (case TakeCompleteStatements pending1 of (statements, tail) \<Rightarrow>
            (case interactive_statements errno_text statements client of
               (Some code, out, c1) \<Rightarrow> (code, prompt @ out, c1)
             | (None, out, c1) \<Rightarrow>
                 (case RunInteractive errno_text primary_prompt tail rest c1 of
                    (code, out2, c2) \<Rightarrow> (code, prompt @ out @ out2, c2)))))"

section \<open>The splitter and the scanner\<close>

text \<open>The input behind the first semicolon that ends a statement.\<close>

function first_end :: "take_state \<Rightarrow> string \<Rightarrow> string option" where
  "first_end st [] = None"
| "first_end st (ch # after) =
     (case take_step st ch after of (st1, skip, ends) \<Rightarrow>
        if ends then Some after else if skip then first_end st1 (drop 1 after) else first_end st1 after)"
  by pat_completeness auto
termination
  by (relation "measure (\<lambda>(st, s). length s)") auto

lemma first_end_shorter: "first_end st s = Some r \<Longrightarrow> length r < length s"
  by (induction st s arbitrary: r rule: first_end.induct) (force split: prod.splits if_splits)+

lemma next_char_append: "p \<noteq> [] \<Longrightarrow> next_char (p @ s) = next_char p"
  by (cases p) (auto simp: next_char_def)

lemma take_step_append: "p \<noteq> [] \<Longrightarrow> take_step st ch (p @ s) = take_step st ch p"
  by (simp add: take_step_def next_char_append)

lemma take_step_ends:
  "take_step st ch after = (st1, skip, ends) \<Longrightarrow>
     ends \<longleftrightarrow> ch = CHR '';'' \<and> \<not> in_line_comment st \<and> \<not> in_block_comment st \<and> \<not> in_string st"
  by (auto simp: take_step_def Let_def QUOTE_def split: if_splits)

lemma take_step_restart: "take_step st ch after = (st1, skip, True) \<Longrightarrow> st1 = take_start"
  by (cases st) (auto simp: take_step_def take_start_def Let_def split: if_splits)

lemma first_end_local: "first_end st (p @ rest) = Some rest \<Longrightarrow> first_end st p = Some []"
proof (induction p arbitrary: st rule: length_induct)
  case (1 p)
  have no: "first_end st' rest \<noteq> Some rest" "first_end st' (drop 1 rest) \<noteq> Some rest" for st'
    using first_end_shorter [of st' rest rest] first_end_shorter [of st' "drop 1 rest" rest] by auto
  obtain ch q where p: "p = ch # q" using "1.prems" no(1) [of st] by (cases p) auto
  show ?case
  proof (cases q)
    case Nil
    obtain st1 skip ends where t: "take_step st ch rest = (st1, skip, ends)" by (cases "take_step st ch rest")
    obtain st2 skip2 ends2 where t2: "take_step st ch [] = (st2, skip2, ends2)" by (cases "take_step st ch []")
    have "ends" using "1.prems" p Nil no t by (auto split: if_splits)
    then show ?thesis using p Nil t2 take_step_ends [OF t] take_step_ends [OF t2] by simp
  next
    case (Cons d q')
    then have step: "take_step st ch (q @ rest) = take_step st ch q" using take_step_append [of q st ch rest] by simp
    obtain st1 skip ends where t: "take_step st ch q = (st1, skip, ends)" by (cases "take_step st ch q")
    consider "ends" | "\<not> ends" "skip" | "\<not> ends" "\<not> skip" by blast
    then show ?thesis
    proof cases
      case 1
      then show ?thesis using "1.prems" p t step Cons by simp
    next
      case 2
      then have "first_end st1 (q' @ rest) = Some rest" using "1.prems" p t step Cons by simp
      then show ?thesis using "1.IH" [rule_format, of q' st1] 2 p t Cons by simp
    next
      case 3
      then have "first_end st1 (q @ rest) = Some rest" using "1.prems" p t step by simp
      then show ?thesis using "1.IH" [rule_format, of q st1] 3 p t by simp
    qed
  qed
qed

lemma take_loop_ends:
  "take_loop st cur statements s = (statements', tail, st') \<Longrightarrow> first_end take_start (cur @ s) = first_end st s \<Longrightarrow>
     x \<in> set statements' \<Longrightarrow> x \<in> set statements \<or> first_end take_start x = Some []"
proof (induction st cur statements s rule: take_loop.induct)
  case (1 st cur statements)
  then show ?case by simp
next
  case (2 st cur statements ch after)
  obtain st1 skip ends where t: "take_step st ch after = (st1, skip, ends)" by (cases "take_step st ch after")
  consider "ends" | "\<not> ends" "skip" | "\<not> ends" "\<not> skip" by blast
  then show ?case
  proof cases
    case 1
    have "first_end take_start ((cur @ [ch]) @ after) = Some after" using "2.prems"(2) t 1 by simp
    then have "first_end take_start (cur @ [ch]) = Some []" by (rule first_end_local)
    moreover have "x \<in> set (if tail_has_sql st then statements @ [cur @ [ch]] else statements) \<or> first_end take_start x = Some []"
      using "2.IH"(1) [OF t [symmetric] refl] 1 "2.prems"(1,3) t take_step_restart [of st ch after st1 skip] by simp
    ultimately show ?thesis by (auto split: if_splits)
  next
    case 2
    have "cur @ ch # take 1 after @ drop 1 after = cur @ ch # after" by simp
    then show ?thesis using "2.IH"(2) [OF t [symmetric] refl] "2.prems" t 2 by simp
  next
    case 3
    then show ?thesis using "2.IH"(3) [OF t [symmetric] refl] "2.prems" t by simp
  qed
qed

lemma statement_ends:
  "x \<in> set (fst (TakeCompleteStatements input)) \<Longrightarrow> first_end take_start x = Some []"
  using take_loop_ends [of take_start "[]" "[]" input] by (auto simp: TakeCompleteStatements_def split: prod.splits)

lemma take_step_flag:
  "st\<lparr>tail_has_sql := True\<rparr> = st'\<lparr>tail_has_sql := True\<rparr> \<Longrightarrow>
     (fst (take_step st ch after))\<lparr>tail_has_sql := True\<rparr> = (fst (take_step st' ch after))\<lparr>tail_has_sql := True\<rparr> \<and>
     snd (take_step st ch after) = snd (take_step st' ch after)"
  by (cases st; cases st') (simp add: take_step_def Let_def)

lemma first_end_flags: "st\<lparr>tail_has_sql := True\<rparr> = st'\<lparr>tail_has_sql := True\<rparr> \<Longrightarrow> first_end st s = first_end st' s"
proof (induction st s arbitrary: st' rule: first_end.induct)
  case (2 st ch after)
  obtain st1 skip ends where t: "take_step st ch after = (st1, skip, ends)" by (cases "take_step st ch after")
  obtain st1' where t': "take_step st' ch after = (st1', skip, ends)" "st1\<lparr>tail_has_sql := True\<rparr> = st1'\<lparr>tail_has_sql := True\<rparr>"
    using take_step_flag [OF "2.prems", of ch after] t by (cases "take_step st' ch after") auto
  show ?case using "2.IH" [OF t [symmetric] refl _ _ t'(2)] t t' by simp
qed simp

lemma first_end_flag: "first_end (st\<lparr>tail_has_sql := b\<rparr>) s = first_end st s"
  by (rule first_end_flags) simp

definition line_state :: take_state where "line_state = take_start\<lparr>in_line_comment := True\<rparr>"
definition block_state :: take_state where "block_state = take_start\<lparr>in_block_comment := True\<rparr>"
definition string_state :: take_state where "string_state = take_start\<lparr>in_string := True\<rparr>"

lemmas mode_defs = line_state_def block_state_def string_state_def take_start_def

definition plain :: "char \<Rightarrow> bool" where
  "plain c \<longleftrightarrow> c \<noteq> CHR ''-'' \<and> c \<noteq> CHR ''/'' \<and> c \<noteq> QUOTE \<and> c \<noteq> CHR '';''"

lemma first_end_sql: "first_end (take_start\<lparr>tail_has_sql := True\<rparr>) s = first_end take_start s"
  "first_end (string_state\<lparr>tail_has_sql := True\<rparr>) s = first_end string_state s"
  by (rule first_end_flag)+

lemma first_end_char:
  assumes "plain ch \<or> ch = CHR ''-'' \<and> next_char after \<noteq> CHR ''-'' \<or> ch = CHR ''/'' \<and> next_char after \<noteq> CHR ''*''"
  shows "first_end take_start (ch # after) = first_end take_start after"
proof -
  have "take_step take_start ch after = (if is_space ch then take_start else take_start\<lparr>tail_has_sql := True\<rparr>, False, False)"
    using assms by (auto simp: take_step_def plain_def take_start_def QUOTE_def)
  then show ?thesis using first_end_sql(1) [of after] by simp
qed

lemma first_end_plain: "list_all plain w \<Longrightarrow> first_end take_start (w @ s) = first_end take_start s"
  by (induction w) (simp_all add: first_end_char del: first_end.simps(2))

lemma first_end_openers:
  "first_end take_start (CHR ''-'' # CHR ''-'' # s) = first_end line_state s"
  "first_end take_start (CHR ''/'' # CHR ''*'' # s) = first_end block_state s"
  "first_end take_start (QUOTE # s) = first_end string_state s"
  "first_end take_start (CHR '';'' # s) = Some s"
proof -
  show "first_end take_start (QUOTE # s) = first_end string_state s"
    using first_end_sql(2) [of s] by (simp add: take_step_def mode_defs QUOTE_def)
qed (simp_all add: take_step_def mode_defs next_char_def QUOTE_def)

lemma first_end_line: "LF \<notin> set u \<Longrightarrow> first_end line_state (u @ s) = first_end line_state s"
  by (induction u) (auto simp: take_step_def mode_defs)

lemma first_end_line_close: "first_end line_state (LF # s) = first_end take_start (LF # s)"
  using first_end_char [of LF s] by (simp add: take_step_def mode_defs plain_def LF_def QUOTE_def)

lemma first_end_block:
  "first_end block_state (CHR ''*'' # CHR ''/'' # s) = first_end take_start s"
  "c \<noteq> CHR ''*'' \<or> next_char s \<noteq> CHR ''/'' \<Longrightarrow> first_end block_state (c # s) = first_end block_state s"
  by (auto simp: take_step_def mode_defs next_char_def)

lemma first_end_string:
  "match_body u < length u \<Longrightarrow> first_end string_state u = first_end take_start (drop (Suc (match_body u)) u)"
proof (induction u rule: match_body.induct)
  case (2 c)
  then show ?case by (auto simp: take_step_def mode_defs next_char_def NUL_def QUOTE_def split: if_splits)
next
  case (3 c d s)
  then show ?case by (auto simp: take_step_def mode_defs next_char_def split: if_splits)
qed simp

lemma match_closed_body:
  "match_body u < length u \<and> match_closed u = Some (Suc (match_body u)) \<or>
   match_body u = length u \<and> (\<forall>n. match_closed u = Some n \<longrightarrow> n < match_body u)"
proof (induction u rule: match_body.induct)
  case (3 c d s)
  then show ?case by (auto split: option.splits)
qed auto

lemma alpha_plain: "is_ident_char c \<Longrightarrow> plain c" "is_digit c \<Longrightarrow> plain c" "is_blank c \<Longrightarrow> plain c" "is_alpha c \<Longrightarrow> plain c"
  by (auto simp: plain_def char_class_defs)

lemma takeWhile_plain: "(\<And>c. P c \<Longrightarrow> plain c) \<Longrightarrow> list_all plain (takeWhile P s)"
  by (auto simp: list_all_iff dest: set_takeWhileD)

lemma first_end_takeWhile:
  "(\<And>c. P c \<Longrightarrow> plain c) \<Longrightarrow> first_end take_start (drop (length (takeWhile P s)) s) = first_end take_start s"
  using first_end_plain [OF takeWhile_plain [of P s], of "drop (length (takeWhile P s)) s"]
  by (metis dropWhile_eq_drop takeWhile_dropWhile_id)

lemma first_end_int:
  assumes "match_int s = n" and "0 < n"
  shows "first_end take_start (drop n s) = first_end take_start s"
proof -
  have dig: "first_end take_start (drop (length (takeWhile is_digit u)) u) = first_end take_start u" for u
    by (rule first_end_takeWhile) (rule alpha_plain)
  show ?thesis
  proof (cases "s \<noteq> [] \<and> is_sign (hd s)")
    case True
    then obtain c u where s: "s = c # u" "is_sign c" by (cases s) auto
    have n: "n = 1 + length (takeWhile is_digit u)" "takeWhile is_digit u \<noteq> []"
      using assms s by (auto simp: match_int_def Let_def split: if_splits)
    then have "u \<noteq> [] \<and> is_digit (hd u)" by (cases u) (auto split: if_splits)
    then have "next_char u \<noteq> CHR ''-''" by (cases u) (auto simp: next_char_def char_class_defs)
    then have "first_end take_start s = first_end take_start u"
      using s first_end_char [of c u] by (auto simp: is_sign_def plain_def QUOTE_def simp del: first_end.simps)
    then show ?thesis using n(1) s(1) dig [of u] by simp
  next
    case False
    then have "n = length (takeWhile is_digit s)" using assms by (auto simp: match_int_def Let_def split: if_splits)
    then show ?thesis using dig [of s] by simp
  qed
qed

lemma first_end_float:
  assumes "match_float s = n" and "0 < n"
  shows "first_end take_start (drop n s) = first_end take_start s"
proof -
  let ?m = "match_int s"
  have m: "0 < ?m" "take 1 (drop ?m s) = ''.''" and n: "n = ?m + 1 + length (takeWhile is_digit (drop (?m + 1) s))"
    using assms by (auto simp: match_float_def Let_def split: if_splits)
  have "tl (drop ?m s) = drop (?m + 1) s" by (simp add: drop_Suc tl_drop)
  then have "drop ?m s = CHR ''.'' # drop (?m + 1) s" using m(2) by (cases "drop ?m s") auto
  then have "first_end take_start (drop (?m + 1) s) = first_end take_start (drop ?m s)"
    using first_end_char [of "CHR ''.''" "drop (?m + 1) s"] by (simp add: plain_def QUOTE_def del: first_end.simps)
  moreover have "first_end take_start (drop n s) = first_end take_start (drop (?m + 1) s)"
    using first_end_takeWhile [of is_digit "drop (?m + 1) s"] alpha_plain(2) n by (simp add: add.commute)
  ultimately show ?thesis using first_end_int [OF refl m(1)] by simp
qed

lemma first_end_literal:
  assumes "R_literal k t \<in> set main_rules" and "0 < rule_match (R_literal k t) s"
  shows "first_end take_start (drop (length k) s) = first_end take_start s"
proof -
  have "list_all plain (take (length k) s)"
    using assms(1)
  proof (cases rule: main_rules_cases)
    case (2 k' t')
    then show ?thesis using keyword_match_pos [OF 2(2), of s] assms(2) alpha_plain(4) by (auto simp: list_all_iff)
  next
    case (3 k' t')
    then have k: "(k, t) \<in> set operator_table" by simp
    have "\<And>c. to_upper c \<in> {CHR ''>'', CHR ''<'', CHR ''!'', CHR ''=''} \<Longrightarrow> plain c"
      by (auto simp: to_upper_def plain_def QUOTE_def split: if_splits)
    then show ?thesis using operator_match_pos [OF k assms(2)]
      by (cases s; cases "tl s") (auto simp: numeral_2_eq_2)
  qed simp
  then show ?thesis using first_end_plain [of "take (length k) s" "drop (length k) s"] by simp
qed

text \<open>A lexeme that is neither an error nor a comment nor a semicolon leaves the splitter outside of strings and comments.\<close>

lemma first_end_quoted:
  assumes "best_rule initial_rules s = Some (R_string, n)"
  shows "first_end take_start s = first_end take_start (drop n s)"
proof -
  have n: "rule_match R_string s = n" "0 < n" using best_rule_Some [OF assms] by auto
  then obtain u m where s: "s = QUOTE # u" "match_closed u = Some m" "n = Suc m"
    by (cases s) (auto split: if_splits option.splits)
  have "R_unterminated \<in> set initial_rules" by (simp add: initial_rules_def)
  then have "rule_match R_unterminated s \<le> n" using best_rule_max [OF assms] by blast
  then have "match_body u \<le> m" using s by simp
  then have body: "match_body u < length u" "m = Suc (match_body u)" using match_closed_body [of u] s(2) by auto
  show ?thesis using first_end_openers(3) [of u] first_end_string [OF body(1)] s body(2) by (simp del: first_end.simps)
qed

lemma first_end_comment:
  assumes "take 2 s = ''--''" and "n = 2 + length (takeWhile (\<lambda>c. c \<noteq> LF) (drop 2 s))"
  shows "first_end take_start s = (if drop n s = [] then None else first_end take_start (drop n s))"
proof -
  obtain u where s: "s = CHR ''-'' # CHR ''-'' # u" using assms(1) by (cases s; cases "tl s") auto
  let ?w = "takeWhile (\<lambda>c. c \<noteq> LF) u" and ?v = "dropWhile (\<lambda>c. c \<noteq> LF) u"
  have v: "drop n s = ?v" using s assms(2) by (simp add: dropWhile_eq_drop numeral_2_eq_2)
  have "LF \<notin> set ?w" by (auto dest: set_takeWhileD)
  then have "first_end take_start s = first_end line_state ?v"
    using first_end_openers(1) [of u] first_end_line [of ?w ?v] s by (simp del: first_end.simps)
  moreover have "?v = [] \<or> (\<exists>v'. ?v = LF # v')" by (metis (mono_tags, lifting) hd_dropWhile list.collapse)
  ultimately show ?thesis unfolding v using first_end_line_close by fastforce
qed

lemma first_end_lexeme:
  assumes "best_rule initial_rules s = Some (r, n)" and "r \<notin> {R_block_comment, R_line_comment, R_unterminated, R_any}"
    and "\<not> (r = R_single_op \<and> hd s = CHR '';'')"
  shows "first_end take_start s = first_end take_start (drop n s)"
proof -
  have r: "r \<in> set main_rules" "rule_match r s = n" "0 < n"
    using best_rule_Some [OF assms(1)] assms(2) by (auto simp: initial_rules_main)
  show ?thesis using r(1)
  proof (cases rule: main_rules_cases)
    case 1
    then consider "r = R_white_space" | "r = R_new_line" | "r = R_single_op" | "r = R_identifier" | "r = R_int" | "r = R_float" | "r = R_string"
      using assms(2) by auto
    then show ?thesis
    proof cases
      case 1
      then show ?thesis using first_end_takeWhile [of is_blank s] alpha_plain(3) r(2) by simp
    next
      case 2
      then have "list_all plain (take n s)" using r(2,3) by (cases s) (auto simp: plain_def char_class_defs split: if_splits)
      then show ?thesis using first_end_plain [of "take n s" "drop n s"] by simp
    next
      case 3
      then have "list_all plain (take n s)" using r(2,3) assms(3) by (cases s) (auto simp: plain_def QUOTE_def split: if_splits)
      then show ?thesis using first_end_plain [of "take n s" "drop n s"] by simp
    next
      case 4
      then obtain c u where s: "s = c # u" "is_alpha c" "n = 1 + length (takeWhile is_ident_char u)"
        using r(2,3) by (cases s) (auto split: if_splits)
      then show ?thesis using first_end_char [of c u] alpha_plain first_end_takeWhile [of is_ident_char u] by (simp del: first_end.simps)
    next
      case 5
      then show ?thesis using first_end_int r by auto
    next
      case 6
      then show ?thesis using first_end_float r by auto
    next
      case 7
      then show ?thesis using first_end_quoted assms(1) by simp
    qed
  next
    case (2 k t)
    then show ?thesis using first_end_literal [of k t s] r by (auto split: if_splits simp del: first_end.simps)
  next
    case (3 k t)
    then show ?thesis using first_end_literal [of k t s] r by (auto split: if_splits simp del: first_end.simps)
  qed
qed

text \<open>The tokens of a text the splitter cuts off: the only semicolon is the last token.\<close>

definition one_statement :: "token list \<times> bool \<Rightarrow> bool" where
  "one_statement q \<longleftrightarrow> (if snd q then fst q \<noteq> [] \<and> last (fst q) = Op CHR '';'' \<and> Op CHR '';'' \<notin> set (butlast (fst q))
                       else Op CHR '';'' \<notin> set (fst q))"

lemma one_statement_Cons:
  "one_statement (ts, ok) \<Longrightarrow> t \<noteq> Op CHR '';'' \<Longrightarrow> one_statement (t # ts, ok)"
  by (auto simp: one_statement_def)

lemma literal_token: "R_literal k t \<in> set main_rules \<Longrightarrow> t \<noteq> Op c"
  by (auto simp: main_rules_def literal_rules_def keyword_table_def operator_table_def)

lemma no_semicolon_action:
  assumes "r \<in> set main_rules" and "\<not> (r = R_single_op \<and> hd s = CHR '';'')" and "0 < n" and "s \<noteq> []" and "rule_action r (take n s) = Return t"
  shows "t \<noteq> Op CHR '';''"
  by (cases r) (use assms literal_token [of _ t "CHR '';''"] in \<open>auto split: option.splits\<close>)

lemma scan_one_statement_comment:
  assumes "best_rule comment_rules s = Some (r, n)" and "first_end block_state s = Some []"
    and "\<And>cond. (cond = INITIAL \<and> first_end take_start (drop n s) = Some [] \<or> cond = STATE_COMMENT \<and> first_end block_state (drop n s) = Some []) \<Longrightarrow>
      one_statement (scan cond (drop n s))"
  shows "one_statement (scan STATE_COMMENT s)"
proof -
  have pos: "0 < n" "rule_match r s = n" "r \<in> set comment_rules" using best_rule_Some [OF assms(1)] by auto
  obtain c u where s: "s = c # u" using assms(2) by (cases s) auto
  have step: "best_rule (rules_of STATE_COMMENT) s = Some (r, n)" using assms(1) by simp
  consider "r = R_comment_end" | "r = R_comment_text" | "r = R_comment_star" using pos(3) by (auto simp: comment_rules_def)
  then show ?thesis
  proof cases
    case 1
    then obtain v where "s = CHR ''*'' # CHR ''/'' # v" "n = 2" using pos by (cases s; cases "tl s") (auto split: if_splits)
    then show ?thesis using scan_step [OF step] assms(2) assms(3) [of INITIAL] 1 first_end_block(1) [of v] by (simp del: first_end.simps)
  next
    case 2
    then have "n = 1" "c \<noteq> CHR ''*''" using pos s by (auto split: if_splits)
    then show ?thesis using scan_step [OF step] assms(2) assms(3) [of STATE_COMMENT] 2 s first_end_block(2) [of c u] by (simp del: first_end.simps)
  next
    case 3
    then have n: "n = 1" using pos by (auto split: if_splits)
    have "R_comment_end \<in> set comment_rules" by (simp add: comment_rules_def)
    then have "rule_match R_comment_end s \<le> 1" using best_rule_max [OF assms(1)] n by blast
    then have "c \<noteq> CHR ''*'' \<or> next_char u \<noteq> CHR ''/''" using s by (cases u) (auto simp: next_char_def NUL_def split: if_splits)
    then show ?thesis using scan_step [OF step] assms(2) assms(3) [of STATE_COMMENT] 3 n s first_end_block(2) [of c u] by (simp del: first_end.simps)
  qed
qed

lemma scan_one_statement_initial:
  assumes "best_rule initial_rules s = Some (r, n)" and "first_end take_start s = Some []"
    and "\<And>cond. (cond = INITIAL \<and> first_end take_start (drop n s) = Some [] \<or> cond = STATE_COMMENT \<and> first_end block_state (drop n s) = Some []) \<Longrightarrow>
      one_statement (scan cond (drop n s))"
  shows "one_statement (scan INITIAL s)"
proof -
  have pos: "0 < n" "rule_match r s = n" "r \<in> set initial_rules" and ne: "s \<noteq> []"
    using best_rule_Some [OF assms(1)] assms(2) by auto
  have step: "best_rule (rules_of INITIAL) s = Some (r, n)" using assms(1) by simp
  consider msg where "rule_action r (take n s) = Report msg" | "r = R_block_comment" | "r = R_line_comment"
    | "r = R_single_op" "hd s = CHR '';''"
    | "r \<notin> {R_block_comment, R_line_comment, R_unterminated, R_any}" "\<not> (r = R_single_op \<and> hd s = CHR '';'')"
      "\<And>msg. rule_action r (take n s) \<noteq> Report msg"
    by (cases r) auto
  then show ?thesis
  proof cases
    case 1
    then show ?thesis using scan_step [OF step ne] by (simp add: one_statement_def)
  next
    case 2
    then obtain v where "s = CHR ''/'' # CHR ''*'' # v" "n = 2" using pos by (cases s; cases "tl s") (auto split: if_splits)
    then show ?thesis using scan_step [OF step ne] assms(2) assms(3) [of STATE_COMMENT] 2 first_end_openers(2) [of v] by (simp del: first_end.simps)
  next
    case 3
    then have "first_end take_start (drop n s) = Some []"
      using first_end_comment [of s n] pos assms(2) by (auto split: if_splits simp del: first_end.simps)
    then show ?thesis using scan_step [OF step ne] assms(3) [of INITIAL] 3 by simp
  next
    case 4
    then have "s = CHR '';'' # tl s" "n = 1" using ne pos by (cases s; auto split: if_splits)+
    then have "s = '';''" using first_end_openers(4) [of "tl s"] assms(2) by (metis option.inject)
    then show ?thesis using scan_step [OF step ne] 4 \<open>n = 1\<close> by (simp add: scan_Nil one_statement_def)
  next
    case 5
    have rest: "one_statement (scan INITIAL (drop n s))" using first_end_lexeme [OF assms(1) 5(1,2)] assms(2) assms(3) [of INITIAL] by simp
    have main: "r \<in> set main_rules" using pos(3) 5(1) by (auto simp: initial_rules_main)
    have act: "rule_action r (take n s) \<noteq> Begin c" for c using main 5(1) by (cases r) (auto split: option.splits simp: main_rules_def literal_rules_def)
    show ?thesis
    proof (cases "rule_action r (take n s)")
      case (Return t)
      then have "t \<noteq> Op CHR '';''" using no_semicolon_action [OF main 5(2) pos(1) ne] by blast
      then show ?thesis using scan_step [OF step ne] Return rest one_statement_Cons by simp
    qed (use scan_step [OF step ne] rest 5(3) act in simp_all)
  qed
qed

lemma scan_one_statement:
  "(cond = INITIAL \<and> first_end take_start s = Some [] \<or> cond = STATE_COMMENT \<and> first_end block_state s = Some []) \<Longrightarrow>
     one_statement (scan cond s)"
proof (induction s arbitrary: cond rule: length_induct)
  case (1 s)
  have ne: "s \<noteq> []" using "1.prems" by auto
  obtain r n where rn: "best_rule (rules_of cond) s = Some (r, n)" using best_rule_total [OF ne, of cond] by auto
  have "length (drop n s) < length s" using best_rule_Some [OF rn] ne by simp
  then have IH: "one_statement (scan cond' (drop n s))"
    if "cond' = INITIAL \<and> first_end take_start (drop n s) = Some [] \<or> cond' = STATE_COMMENT \<and> first_end block_state (drop n s) = Some []" for cond'
    using "1.IH" that by blast
  show ?case
  proof (cases cond)
    case INITIAL
    then show ?thesis using scan_one_statement_initial [OF _ _ IH] rn "1.prems" by simp
  next
    case STATE_COMMENT
    then show ?thesis using scan_one_statement_comment [OF _ _ IH] rn "1.prems" by simp
  qed
qed

lemma first_end_last: "first_end st s = Some [] \<Longrightarrow> s \<noteq> [] \<and> last s = CHR '';''"
proof (induction st s rule: first_end.induct)
  case (2 st ch after)
  obtain st1 skip ends where t: "take_step st ch after = (st1, skip, ends)" by (cases "take_step st ch after")
  consider "ends" | "\<not> ends" "skip" | "\<not> ends" "\<not> skip" by blast
  then show ?case
  proof cases
    case 1
    then show ?thesis using "2.prems" t take_step_ends [OF t] by simp
  next
    case 2
    then show ?thesis using "2.IH"(1) [OF t [symmetric] refl] "2.prems" t by (cases after) auto
  next
    case 3
    then show ?thesis using "2.IH"(2) [OF t [symmetric] refl] "2.prems" t by auto
  qed
qed simp

lemma first_end_Trim:
  assumes "first_end take_start s = Some []"
  shows "first_end take_start (Trim s) = Some []"
proof -
  have tr: "is_trim c \<Longrightarrow> plain c" for c by (auto simp: is_trim_def plain_def char_class_defs)
  let ?u = "dropWhile is_trim s"
  have u: "first_end take_start ?u = Some []"
    using first_end_takeWhile [of is_trim s] tr assms by (simp add: dropWhile_eq_drop)
  then have "?u \<noteq> []" "last ?u = CHR '';''" using first_end_last by blast+
  then have "dropWhile is_trim (rev ?u) = rev ?u" by (cases ?u rule: rev_cases) (auto simp: is_trim_def char_class_defs)
  then show ?thesis using u by (simp add: Trim_def)
qed

section \<open>Connections\<close>

lemma fd_read: "fd (snd (ReadExactInternal c n)) = fd c"
  by (simp add: ReadExactInternal_def split: prod.splits)

lemma fd_frame: "fd (snd (ReadFrameInternal c)) = fd c"
  by (simp add: ReadFrameInternal_def Let_def case_prod_beta fd_read)

lemma fd_loop: "fd (snd (exec_loop opts st c)) = fd c"
proof (induction opts st c rule: exec_loop.induct)
  case (1 opts st c)
  then show ?case using fd_frame [of c]
    by (auto simp: exec_loop.simps [of opts st c] split: prod.splits frame_read.splits sum.splits)
qed

lemma fd_write: "fd (snd (WriteFrame c tag flags payload)) = fd c"
  by (simp add: WriteFrame_flat WriteAll_def split: prod.splits)

lemma fd_stream: "fd (snd (ExecStreamResult errno_text c sql opts)) = fd c"
  by (simp add: ExecStreamResult_def case_prod_beta fd_loop fd_write)

lemma closed_stream: "fd c < 0 \<Longrightarrow> \<not> connection_reusable (fst (ExecStreamResult errno_text c sql opts))"
  by (simp add: ExecStreamResult_def connection_reusable_def)

text \<open>After a call the client is open exactly if it was open and the response lets the connection be reused.\<close>

lemma Execute_open:
  "is_open (snd (Execute errno_text sql opts c)) \<longleftrightarrow>
     is_open c \<and> connection_reusable (fst (Execute errno_text sql opts c))"
  using fd_stream [of errno_text c sql opts] closed_stream [of c errno_text sql opts]
  by (cases "fd c < 0") (simp_all add: Execute_def is_open_def close_conn_def case_prod_beta)

section \<open>Properties\<close>

text \<open>
  C40 (a request carries one statement). Every text the command-line client cuts off its input and sends, after trimming, is
  scanned by the server to a token sequence whose only semicolon is its last token; when the scanner reports an error in
  it, the tokens before the error contain no semicolon. So client and server agree where strings, comments and statements
  end, whatever the input is.
\<close>

theorem client_sends_one_statement:
  "list_all (\<lambda>s. one_statement (scan INITIAL (Trim s))) (fst (TakeCompleteStatements input))"
  unfolding list_all_iff using scan_one_statement first_end_Trim statement_ends by blast

end
