(* ===== verification/Analyzer.thy ===== *)
theory Analyzer
  imports Catalog Sql_Ast
begin

text \<open>
  The semantic analysis of \<^verbatim>\<open>src/src/analyze/analyzer.cpp\<close>: tables and columns of a statement are bound to the catalog,
  types are checked and literals are encoded at the column's length. Every function takes the catalog \<open>db\<close> that the
  code reads through \<^verbatim>\<open>sm_manager_->db_\<close>; an exception is an \<open>Inl\<close>. The lemmas show that an analysed query refers only to
  existing columns of the right types and that flattening keeps the meaning of a predicate.
\<close>

section \<open>The analysed query\<close>

record AnalyzedQuery =
  bound_statement :: stmt
  bound_target_table :: string
  bound_conds :: "Condition list"
  bound_cols :: "TabCol list"
  bound_tables :: "string list"
  bound_order_col :: "TabCol option"
  bound_order_desc :: bool
  bound_set_clauses :: "SetClause list"
  bound_values :: "Value list"
  bound_knob_name :: string
  bound_knob_value :: bool

definition AnalyzedQuery_make :: "stmt \<Rightarrow> AnalyzedQuery" where
  "AnalyzedQuery_make statement =
     \<lparr>bound_statement = statement, bound_target_table = [], bound_conds = [], bound_cols = [], bound_tables = [],
      bound_order_col = None, bound_order_desc = False, bound_set_clauses = [], bound_values = [],
      bound_knob_name = [], bound_knob_value = False\<rparr>"

definition tab_col :: "string \<Rightarrow> string \<Rightarrow> TabCol" where
  "tab_col t c = \<lparr>tab_name = t, col_name = c\<rparr>"

lemma tab_col_simps [simp]: "tab_name (tab_col t c) = t" "col_name (tab_col t c) = c"
  by (simp_all add: tab_col_def)

section \<open>Conversions\<close>

fun convert_ast_comp_op :: "ast_CompOp \<Rightarrow> CompOp" where
  "convert_ast_comp_op Eq = OP_EQ"
| "convert_ast_comp_op Ne = OP_NE"
| "convert_ast_comp_op Lt = OP_LT"
| "convert_ast_comp_op Gt = OP_GT"
| "convert_ast_comp_op Le = OP_LE"
| "convert_ast_comp_op Ge = OP_GE"

fun convert_ast_value :: "expr \<Rightarrow> Value result" where
  "convert_ast_value (IntLit v) = Inr (set_int v Value_empty)"
| "convert_ast_value (FloatLit v) = Inr (set_float v Value_empty)"
| "convert_ast_value (StringLit s) = Inr (set_str s Value_empty)"
| "convert_ast_value _ = Inl (InternalError ''Non-literal expression stored as an AST value'')"

section \<open>Column binding\<close>

text \<open>The loop over the visible columns for an unqualified name; \<open>tab\<close> is the table found so far.\<close>

fun resolve_tab :: "ColMeta list \<Rightarrow> string \<Rightarrow> string \<Rightarrow> string result" where
  "resolve_tab [] name tab = Inr tab"
| "resolve_tab (col # cols) name tab =
     (if cm_name col = name
      then if tab \<noteq> [] then Inl (AmbiguousColumnError name) else resolve_tab cols name (cm_tab col)
      else resolve_tab cols name tab)"

definition check_column :: "ColMeta list \<Rightarrow> TabCol \<Rightarrow> TabCol result" where
  "check_column all_cols target =
     (if tab_name target = [] then
        bindE (resolve_tab all_cols (col_name target) []) (\<lambda>tab.
          if tab = [] then Inl (ColumnNotFoundError (col_name target)) else Inr (target\<lparr>tab_name := tab\<rparr>))
      else (case find (\<lambda>c. cm_tab c = tab_name target \<and> cm_name c = col_name target) all_cols of
          None \<Rightarrow> Inl (ColumnNotFoundError (tab_name target @ ''.'' @ col_name target))
        | Some c \<Rightarrow> Inr target))"

definition get_all_cols :: "DbMeta \<Rightarrow> string list \<Rightarrow> ColMeta list result" where
  "get_all_cols db tab_names = bindE (mapE (get_table db) tab_names) (\<lambda>ts. Inr (concat (map tm_cols ts)))"

text \<open>The recursion goes through the null-able children, so the measure is the size of the optional node.\<close>

function get_table_names :: "from_node option \<Rightarrow> string list result" where
  "get_table_names None = Inl (InternalError ''FROM tree contains a null node'')"
| "get_table_names (Some (TableRef source alias)) =
     (if alias \<noteq> [] then Inl (NotImplementedError ''Table aliases are not supported yet'')
      else (case source of
          Inl name \<Rightarrow> Inr [name]
        | Inr q \<Rightarrow> Inl (NotImplementedError ''Derived-table subqueries are not supported yet'')))"
| "get_table_names (Some (JoinNode type left right condition)) =
     (if type \<noteq> Cross \<and> type \<noteq> Inner then Inl (NotImplementedError ''Outer joins are not supported yet'')
      else if condition \<noteq> None then Inl (NotImplementedError ''JOIN ON predicates are not supported yet'')
      else bindE (get_table_names left) (\<lambda>ls. bindE (get_table_names right) (\<lambda>rs. Inr (ls @ rs))))"
  by pat_completeness auto
termination
  by (relation "measure (size_option size)") auto

section \<open>Predicates\<close>

definition comparison :: "ast_Col \<Rightarrow> ast_CompOp \<Rightarrow> bool \<Rightarrow> TabCol \<Rightarrow> Value \<Rightarrow> Condition" where
  "comparison lhs op is_val rcol rval =
     \<lparr>lhs_col = tab_col (ast_tab_name lhs) (ast_col_name lhs), cond_op = convert_ast_comp_op op, is_rhs_val = is_val,
      rhs_col = rcol, rhs_val = rval\<rparr>"

definition bind_comparison :: "ast_Col option \<Rightarrow> ast_CompOp \<Rightarrow> expr option \<Rightarrow> Condition result" where
  "bind_comparison lhs op rhs =
     (case (lhs, rhs) of
        (Some l, Some r) \<Rightarrow>
          if is_literal r then bindE (convert_ast_value r) (\<lambda>v. Inr (comparison l op True (tab_col [] []) v))
          else (case r of
              ColExpr c \<Rightarrow> Inr (comparison l op False (tab_col (ast_tab_name c) (ast_col_name c)) Value_empty)
            | _ \<Rightarrow> Inl (NotImplementedError ''This comparison right-hand side is not supported yet''))
      | _ \<Rightarrow> Inl (InternalError ''Comparison contains a null operand''))"

function append_clause :: "expr option \<Rightarrow> Condition list \<Rightarrow> Condition list result" where
  "append_clause None conds = Inl (InternalError ''Predicate tree contains a null expression'')"
| "append_clause (Some (LogicalExpr op lhs rhs)) conds =
     (if op \<noteq> And then Inl (NotImplementedError ''OR predicates are not supported yet'')
      else bindE (append_clause lhs conds) (append_clause rhs))"
| "append_clause (Some (UnaryExpr op e)) conds = Inl (NotImplementedError ''NOT predicates are not supported yet'')"
| "append_clause (Some (BinaryExpr lhs op rhs)) conds = bindE (bind_comparison lhs op rhs) (\<lambda>c. Inr (conds @ [c]))"
| "append_clause (Some (IntLit v)) conds = Inl (NotImplementedError ''This predicate expression is not supported yet'')"
| "append_clause (Some (FloatLit v)) conds = Inl (NotImplementedError ''This predicate expression is not supported yet'')"
| "append_clause (Some (StringLit s)) conds = Inl (NotImplementedError ''This predicate expression is not supported yet'')"
| "append_clause (Some (ColExpr c)) conds = Inl (NotImplementedError ''This predicate expression is not supported yet'')"
| "append_clause (Some (StarExpr s)) conds = Inl (NotImplementedError ''This predicate expression is not supported yet'')"
| "append_clause (Some (FunctionCallExpr f args d)) conds =
     Inl (NotImplementedError ''This predicate expression is not supported yet'')"
| "append_clause (Some (SubqueryExpr q)) conds = Inl (NotImplementedError ''This predicate expression is not supported yet'')"
  by pat_completeness auto
termination
  by (relation "measure (\<lambda>(e, _). size_option size e)") auto

definition get_clause :: "expr option \<Rightarrow> Condition list result" where
  "get_clause ast_predicate =
     (case ast_predicate of None \<Rightarrow> Inr [] | Some e \<Rightarrow> append_clause ast_predicate [])"

definition check_condition :: "DbMeta \<Rightarrow> ColMeta list \<Rightarrow> Condition \<Rightarrow> Condition result" where
  "check_condition db all_cols cond =
     bindE (check_column all_cols (lhs_col cond)) (\<lambda>lhs.
     bindE (if is_rhs_val cond then Inr (rhs_col cond) else check_column all_cols (rhs_col cond)) (\<lambda>rhs.
     bindE (get_table db (tab_name lhs)) (\<lambda>ltab.
     bindE (get_col ltab (col_name lhs)) (\<lambda>lcol.
     bindE (if is_rhs_val cond then Inr (val_type (rhs_val cond))
            else bindE (get_table db (tab_name rhs)) (\<lambda>rtab.
              bindE (get_col rtab (col_name rhs)) (\<lambda>rcol. Inr (cm_type rcol)))) (\<lambda>rtype.
     if cm_type lcol \<noteq> rtype then Inl (IncompatibleTypeError (coltype2str (cm_type lcol)) (coltype2str rtype))
     else bindE (if is_rhs_val cond then init_raw (cm_len lcol) (rhs_val cond) else Inr (rhs_val cond)) (\<lambda>v.
       Inr (cond\<lparr>lhs_col := lhs, rhs_col := rhs, rhs_val := v\<rparr>)))))))"

definition check_clause :: "DbMeta \<Rightarrow> ColMeta list \<Rightarrow> Condition list \<Rightarrow> Condition list result" where
  "check_clause db all_cols conds = mapE (check_condition db all_cols) conds"

section \<open>Statements\<close>

definition bind_item :: "string list \<Rightarrow> ColMeta list \<Rightarrow> expr option \<Rightarrow> TabCol list result" where
  "bind_item tables all_cols item =
     (case item of
        None \<Rightarrow> Inl (InternalError ''SELECT projection contains a null expression'')
      | Some (ColExpr c) \<Rightarrow> Inr [tab_col (ast_tab_name c) (ast_col_name c)]
      | Some (StarExpr t) \<Rightarrow>
          if t \<noteq> [] \<and> t \<notin> set tables then Inl (TableNotFoundError t)
          else Inr (map (\<lambda>c. tab_col (cm_tab c) (cm_name c)) (filter (\<lambda>c. t = [] \<or> cm_tab c = t) all_cols))
      | Some _ \<Rightarrow> Inl (NotImplementedError ''This SELECT item expression is not supported yet''))"

definition bind_order_by :: "ColMeta list \<Rightarrow> order_by option list \<Rightarrow> (TabCol \<times> bool) option result" where
  "bind_order_by all_cols items =
     (if length items > 1 then Inl (NotImplementedError ''Multiple ORDER BY items are not supported yet'')
      else (case items of
          [] \<Rightarrow> Inr None
        | Some (OrderBy (Some e) dir) # _ \<Rightarrow>
            (case e of
               ColExpr c \<Rightarrow> bindE (check_column all_cols (tab_col (ast_tab_name c) (ast_col_name c))) (\<lambda>col.
                 Inr (Some (col, dir = Desc)))
             | _ \<Rightarrow> Inl (NotImplementedError ''ORDER BY expressions are not supported yet''))
        | _ \<Rightarrow> Inl (InternalError ''ORDER BY contains a null expression'')))"

definition analyze_select :: "DbMeta \<Rightarrow> select_stmt \<Rightarrow> AnalyzedQuery \<Rightarrow> AnalyzedQuery result" where
  "analyze_select db statement query =
     (if from_clause statement = None then Inl (InternalError ''SELECT statement has no FROM source'')
      else bindE (get_table_names (from_clause statement)) (\<lambda>tables.
        bindE (get_all_cols db tables) (\<lambda>all_cols.
        if select_items statement = [] then Inl (InternalError ''SELECT statement has an empty projection list'')
        else bindE (mapE (bind_item tables all_cols) (select_items statement)) (\<lambda>items.
          bindE (mapE (check_column all_cols) (concat items)) (\<lambda>cols.
          if group_by statement \<noteq> [] \<or> having statement \<noteq> None \<or> limit statement \<noteq> None
          then Inl (NotImplementedError ''GROUP BY, HAVING, and LIMIT are not supported yet'')
          else bindE (bind_order_by all_cols (order_items statement)) (\<lambda>order.
            bindE (get_clause (where_clause statement)) (\<lambda>conds0.
            bindE (check_clause db all_cols conds0) (\<lambda>conds.
            Inr (query\<lparr>bound_tables := tables, bound_cols := cols, bound_order_col := map_option fst order,
              bound_order_desc := (case order of None \<Rightarrow> bound_order_desc query | Some (c, d) \<Rightarrow> d),
              bound_conds := conds\<rparr>)))))))))"

definition bind_set_clause :: "TabMeta \<Rightarrow> ast_SetClause option \<Rightarrow> SetClause result" where
  "bind_set_clause table sc =
     (case sc of
        Some (AstSetClause (Some target) (Some e)) \<Rightarrow>
          bindE (check_column (tm_cols table) (tab_col (ast_tab_name target) (ast_col_name target))) (\<lambda>lhs.
          if \<not> is_literal e then Inl (NotImplementedError ''UPDATE SET expressions are not supported yet'')
          else bindE (convert_ast_value e) (\<lambda>rhs.
            bindE (get_col table (col_name lhs)) (\<lambda>column.
            if cm_type column \<noteq> val_type rhs
            then Inl (IncompatibleTypeError (coltype2str (cm_type column)) (coltype2str (val_type rhs)))
            else bindE (init_raw (cm_len column) rhs) (\<lambda>rhs'. Inr \<lparr>set_lhs = lhs, set_rhs = rhs'\<rparr>))))
      | _ \<Rightarrow> Inl (InternalError ''UPDATE SET contains a null AST node''))"

definition analyze_update ::
  "DbMeta \<Rightarrow> string \<Rightarrow> ast_SetClause option list \<Rightarrow> expr option \<Rightarrow> AnalyzedQuery \<Rightarrow> AnalyzedQuery result" where
  "analyze_update db tab sets wh query =
     bindE (get_table db tab) (\<lambda>table.
     bindE (mapE (bind_set_clause table) sets) (\<lambda>clauses.
     bindE (get_clause wh) (\<lambda>conds0.
     bindE (check_clause db (tm_cols table) conds0) (\<lambda>conds.
     Inr (query\<lparr>bound_target_table := tm_name table, bound_set_clauses := clauses, bound_conds := conds\<rparr>)))))"

definition analyze_delete :: "DbMeta \<Rightarrow> string \<Rightarrow> expr option \<Rightarrow> AnalyzedQuery \<Rightarrow> AnalyzedQuery result" where
  "analyze_delete db tab wh query =
     bindE (get_table db tab) (\<lambda>table.
     bindE (get_clause wh) (\<lambda>conds0.
     bindE (check_clause db (tm_cols table) conds0) (\<lambda>conds.
     Inr (query\<lparr>bound_target_table := tm_name table, bound_conds := conds\<rparr>))))"

text \<open>\<^verbatim>\<open>std::tolower\<close> in the C locale.\<close>

definition tolower :: "char \<Rightarrow> char" where
  "tolower c = (let n = of_char c :: nat in if 65 \<le> n \<and> n \<le> 90 then char_of (n + 32) else c)"

definition analyze_set_knob :: "string \<Rightarrow> string \<Rightarrow> AnalyzedQuery \<Rightarrow> AnalyzedQuery result" where
  "analyze_set_knob knob setting query =
     (let name = map tolower knob; val = map tolower setting in
      if name \<notin> set [''enable_sortmerge''] \<or> (val \<noteq> ''true'' \<and> val \<noteq> ''false'') then Inl (InvalidKnobError knob setting)
      else Inr (query\<lparr>bound_knob_name := name, bound_knob_value := (val = ''true'')\<rparr>))"

definition bind_insert_value :: "expr option \<times> ColMeta \<Rightarrow> Value result" where
  "bind_insert_value p =
     (case p of
        (None, column) \<Rightarrow> Inl (InternalError ''INSERT contains a null value node'')
      | (Some e, column) \<Rightarrow> bindE (convert_ast_value e) (\<lambda>v.
          if val_type v \<noteq> cm_type column
          then Inl (IncompatibleTypeError (coltype2str (cm_type column)) (coltype2str (val_type v)))
          else init_raw (cm_len column) v))"

definition analyze_insert :: "DbMeta \<Rightarrow> string \<Rightarrow> expr option list \<Rightarrow> AnalyzedQuery \<Rightarrow> AnalyzedQuery result" where
  "analyze_insert db tab vals query =
     bindE (get_table db tab) (\<lambda>table.
     if length vals \<noteq> length (tm_cols table) then Inl InvalidValueCountError
     else bindE (mapE bind_insert_value (zip vals (tm_cols table))) (\<lambda>vs.
       Inr (query\<lparr>bound_target_table := tm_name table, bound_values := vs\<rparr>)))"

definition analyze :: "DbMeta \<Rightarrow> stmt option \<Rightarrow> AnalyzedQuery result" where
  "analyze db statement =
     (case statement of
        None \<Rightarrow> Inl (InternalError ''Analyzer received a null AST statement'')
      | Some s \<Rightarrow>
          (let query = AnalyzedQuery_make s in
           case s of
             Select sel \<Rightarrow> analyze_select db sel query
           | UpdateStmt tab sets wh \<Rightarrow> analyze_update db tab sets wh query
           | DeleteStmt tab wh \<Rightarrow> analyze_delete db tab wh query
           | InsertStmt tab vals \<Rightarrow> analyze_insert db tab vals query
           | SetKnobStmt name val \<Rightarrow> analyze_set_knob name val query
           | _ \<Rightarrow> Inr query))"

section \<open>Lemmas on binding\<close>

definition visible :: "ColMeta list \<Rightarrow> TabCol \<Rightarrow> bool" where
  "visible cols tc \<longleftrightarrow> (\<exists>c\<in>set cols. cm_tab c = tab_name tc \<and> cm_name c = col_name tc)"

lemma resolve_tab_found:
  "tab \<noteq> [] \<Longrightarrow> resolve_tab cols name tab =
     (if filter (\<lambda>c. cm_name c = name) cols = [] then Inr tab else Inl (AmbiguousColumnError name))"
  by (induction cols) auto

lemma resolve_tab_filter:
  "\<forall>c\<in>set cols. cm_tab c \<noteq> [] \<Longrightarrow> resolve_tab cols name [] =
     (case filter (\<lambda>c. cm_name c = name) cols of [] \<Rightarrow> Inr [] | [c] \<Rightarrow> Inr (cm_tab c) | _ \<Rightarrow> Inl (AmbiguousColumnError name))"
  by (induction cols) (auto simp: resolve_tab_found split: list.splits)

lemma check_column_Inr:
  assumes "check_column cols t = Inr t'" "\<forall>c\<in>set cols. cm_tab c \<noteq> []"
  shows "visible cols t' \<and> col_name t' = col_name t"
proof (cases "tab_name t = []")
  case True
  with assms obtain tab where r: "resolve_tab cols (col_name t) [] = Inr tab" "tab \<noteq> []" "t' = t\<lparr>tab_name := tab\<rparr>"
    by (auto simp: check_column_def split: if_splits)
  then obtain c where f: "filter (\<lambda>c. cm_name c = col_name t) cols = [c]" and "tab = cm_tab c"
    using resolve_tab_filter [OF assms(2), of "col_name t"] by (auto split: list.splits)
  have "c \<in> set (filter (\<lambda>c. cm_name c = col_name t) cols)" by (simp add: f)
  then have "c \<in> set cols" "cm_name c = col_name t" by auto
  then show ?thesis using r \<open>tab = cm_tab c\<close> by (auto simp: visible_def)
next
  case False
  with assms(1) show ?thesis
    by (auto simp: check_column_def visible_def dest: find_first split: option.splits)
qed

definition tables_cols :: "DbMeta \<Rightarrow> string list \<Rightarrow> ColMeta list \<Rightarrow> bool" where
  "tables_cols db tables cols \<longleftrightarrow>
     (\<forall>c\<in>set cols. cm_tab c \<in> set tables \<and> (\<exists>t. get_table db (cm_tab c) = Inr t \<and> c \<in> set (tm_cols t)))"

lemma db_ok_table: "db_ok db \<Longrightarrow> get_table db tab = Inr t \<Longrightarrow> tm_name t = tab \<and> tab_ok t"
  by (auto simp: db_ok_def dest: get_table_Inr)

lemma db_ok_col_tab: "db_ok db \<Longrightarrow> get_table db tab = Inr t \<Longrightarrow> c \<in> set (tm_cols t) \<Longrightarrow> cm_tab c = tab \<and> tab \<noteq> []"
  using db_ok_table [of db tab t] by (auto simp: tab_ok_def cols_ok_def col_ok_def)

lemma tables_cols_one: "db_ok db \<Longrightarrow> get_table db tab = Inr t \<Longrightarrow> tables_cols db [tab] (tm_cols t)"
  using db_ok_col_tab by (auto simp: tables_cols_def)

lemma get_all_cols_ok:
  assumes "db_ok db" "get_all_cols db tables = Inr cols"
  shows "tables_cols db tables cols" "t \<in> set tables \<Longrightarrow> \<exists>table. get_table db t = Inr table"
proof -
  from assms(2) obtain ts where ts: "mapE (get_table db) tables = Inr ts" "cols = concat (map tm_cols ts)"
    by (auto simp: get_all_cols_def)
  show "tables_cols db tables cols"
    unfolding tables_cols_def ts(2)
  proof
    fix c assume "c \<in> set (concat (map tm_cols ts))"
    then obtain t where t: "t \<in> set ts" "c \<in> set (tm_cols t)" by auto
    then obtain tab where tab: "tab \<in> set tables" "get_table db tab = Inr t" using mapE_Inr_elem [OF ts(1)] by blast
    with t db_ok_col_tab [OF assms(1) tab(2) t(2)]
    show "cm_tab c \<in> set tables \<and> (\<exists>t. get_table db (cm_tab c) = Inr t \<and> c \<in> set (tm_cols t))" by auto
  qed
  show "t \<in> set tables \<Longrightarrow> \<exists>table. get_table db t = Inr table" using mapE_Inr_pre [OF ts(1)] by blast
qed

lemma tables_cols_nonempty: "db_ok db \<Longrightarrow> tables_cols db tables cols \<Longrightarrow> \<forall>c\<in>set cols. cm_tab c \<noteq> []"
  using db_ok_col_tab unfolding tables_cols_def by blast

text \<open>A bound condition: its columns exist in the visible tables, the types agree, and a literal has the column's length.\<close>

definition col_of :: "DbMeta \<Rightarrow> string list \<Rightarrow> TabCol \<Rightarrow> ColMeta \<Rightarrow> bool" where
  "col_of db tables tc c \<longleftrightarrow>
     tab_name tc \<in> set tables \<and> (\<exists>t. get_table db (tab_name tc) = Inr t \<and> get_col t (col_name tc) = Inr c)"

definition cond_ok :: "DbMeta \<Rightarrow> string list \<Rightarrow> Condition \<Rightarrow> bool" where
  "cond_ok db tables c \<longleftrightarrow>
     (\<exists>lc. col_of db tables (lhs_col c) lc \<and>
       (if is_rhs_val c
        then val_type (rhs_val c) = cm_type lc \<and> (\<exists>bs. raw (rhs_val c) = Some bs \<and> int (length bs) = cm_len lc)
        else \<exists>rc. col_of db tables (rhs_col c) rc \<and> cm_type rc = cm_type lc))"

lemma visible_col_of:
  assumes "db_ok db" "tables_cols db tables cols" "visible cols tc"
  shows "\<exists>c. col_of db tables tc c"
proof -
  from assms(3) obtain c where c: "c \<in> set cols" "cm_tab c = tab_name tc" "cm_name c = col_name tc"
    by (auto simp: visible_def)
  with assms(2) obtain t where t: "tab_name tc \<in> set tables" "get_table db (tab_name tc) = Inr t" "c \<in> set (tm_cols t)"
    by (auto simp: tables_cols_def)
  then have "distinct (map cm_name (tm_cols t))" using db_ok_table [OF assms(1)] by (auto simp: tab_ok_def cols_ok_def)
  then have "get_col t (col_name tc) = Inr c" using get_col_distinct [OF _ t(3)] c(3) by auto
  with t show ?thesis by (auto simp: col_of_def)
qed

lemma check_condition_ok:
  assumes "db_ok db" "tables_cols db tables cols" "check_condition db cols c = Inr c'"
  shows "cond_ok db tables c'" "cond_op c' = cond_op c" "is_rhs_val c' = is_rhs_val c"
proof -
  note ne = tables_cols_nonempty [OF assms(1,2)]
  from assms(3) obtain lhs rhs lt lc v rtype where
    l: "check_column cols (lhs_col c) = Inr lhs" "get_table db (tab_name lhs) = Inr lt" "get_col lt (col_name lhs) = Inr lc" and
    r: "(if is_rhs_val c then Inr (rhs_col c) else check_column cols (rhs_col c)) = Inr rhs" and
    ty: "(if is_rhs_val c then Inr (val_type (rhs_val c))
        else bindE (get_table db (tab_name rhs)) (\<lambda>rtab. bindE (get_col rtab (col_name rhs)) (\<lambda>rcol. Inr (cm_type rcol)))) = Inr rtype"
      "cm_type lc = rtype" and
    v: "(if is_rhs_val c then init_raw (cm_len lc) (rhs_val c) else Inr (rhs_val c)) = Inr v" and
    c': "c' = c\<lparr>lhs_col := lhs, rhs_col := rhs, rhs_val := v\<rparr>"
    unfolding check_condition_def bindE_Inr_iff by (auto split: if_splits)
  obtain lc' where "col_of db tables lhs lc'"
    using visible_col_of [OF assms(1,2)] check_column_Inr [OF l(1) ne] by blast
  then have lcol: "col_of db tables lhs lc" using l by (auto simp: col_of_def)
  show "cond_ok db tables c'"
  proof (cases "is_rhs_val c")
    case True
    then show ?thesis
      using lcol ty v init_raw_length [of "cm_len lc" "rhs_val c" v] init_raw_keeps [of "cm_len lc" "rhs_val c" v]
      by (auto simp: cond_ok_def c')
  next
    case False
    then obtain rc' where "col_of db tables rhs rc'"
      using visible_col_of [OF assms(1,2)] check_column_Inr [OF _ ne, of "rhs_col c" rhs] r by auto
    then show ?thesis using False lcol ty by (auto simp: cond_ok_def c' col_of_def)
  qed
qed (use assms(3) in \<open>auto simp: check_condition_def split: if_splits\<close>)

lemma check_clause_ok:
  assumes "db_ok db" "tables_cols db tables cols" "check_clause db cols cs = Inr cs'" "c \<in> set cs'"
  shows "cond_ok db tables c"
  using assms(3,4) check_condition_ok(1) [OF assms(1,2)] mapE_Inr_elem unfolding check_clause_def by metis

section \<open>Whole statements\<close>

lemma analyze_select_Inr:
  assumes "db_ok db" "analyze_select db sel q0 = Inr q"
  shows "get_table_names (from_clause sel) = Inr (bound_tables q)"
    "t \<in> set (bound_tables q) \<Longrightarrow> \<exists>table. get_table db t = Inr table"
    "c \<in> set (bound_conds q) \<Longrightarrow> cond_ok db (bound_tables q) c"
    "tc \<in> set (bound_cols q) \<Longrightarrow> \<exists>c. col_of db (bound_tables q) tc c"
    "bound_order_col q = Some tc \<Longrightarrow> \<exists>c. col_of db (bound_tables q) tc c"
    "bound_statement q = bound_statement q0"
proof -
  from assms(2) obtain tables all_cols items cols order conds0 conds where
    t: "get_table_names (from_clause sel) = Inr tables" "get_all_cols db tables = Inr all_cols" and
    cols: "mapE (check_column all_cols) (concat items) = Inr cols" and
    order: "bind_order_by all_cols (order_items sel) = Inr order" and
    conds: "check_clause db all_cols conds0 = Inr conds" and
    q: "q = q0\<lparr>bound_tables := tables, bound_cols := cols, bound_order_col := map_option fst order,
        bound_order_desc := (case order of None \<Rightarrow> bound_order_desc q0 | Some (c, d) \<Rightarrow> d), bound_conds := conds\<rparr>"
    unfolding analyze_select_def bindE_Inr_iff by (auto split: if_splits)
  note tc = get_all_cols_ok [OF assms(1) t(2)]
  note ne = tables_cols_nonempty [OF assms(1) tc(1)]
  show "get_table_names (from_clause sel) = Inr (bound_tables q)" by (simp add: t q)
  show "t \<in> set (bound_tables q) \<Longrightarrow> \<exists>table. get_table db t = Inr table" using tc(2) by (simp add: q)
  show "c \<in> set (bound_conds q) \<Longrightarrow> cond_ok db (bound_tables q) c"
    using check_clause_ok [OF assms(1) tc(1) conds] by (simp add: q)
  have vis: "check_column all_cols x = Inr y \<Longrightarrow> \<exists>c. col_of db tables y c" for x y
    using check_column_Inr [OF _ ne] visible_col_of [OF assms(1) tc(1)] by blast
  show "tc \<in> set (bound_cols q) \<Longrightarrow> \<exists>c. col_of db (bound_tables q) tc c"
  proof -
    assume "tc \<in> set (bound_cols q)"
    then have "tc \<in> set cols" by (simp add: q)
    then obtain x where "check_column all_cols x = Inr tc" using mapE_Inr_elem [OF cols] by blast
    then show ?thesis using vis by (simp add: q)
  qed
  show "bound_order_col q = Some tc \<Longrightarrow> \<exists>c. col_of db (bound_tables q) tc c"
    using order vis by (auto simp: q bind_order_by_def split: if_splits list.splits option.splits order_by.splits expr.splits)
  show "bound_statement q = bound_statement q0" by (simp add: q)
qed

text \<open>
  The meaning of a predicate tree over any meaning \<open>ev\<close> of the single comparisons, and the trees the analyzer accepts.
  A missing subtree has no meaning; the analyzer refuses it.
\<close>

function pred_sem :: "(ast_Col \<Rightarrow> ast_CompOp \<Rightarrow> expr \<Rightarrow> bool) \<Rightarrow> expr option \<Rightarrow> bool" where
  "pred_sem ev None = False"
| "pred_sem ev (Some (LogicalExpr And l r)) = (pred_sem ev l \<and> pred_sem ev r)"
| "pred_sem ev (Some (LogicalExpr Or l r)) = (pred_sem ev l \<or> pred_sem ev r)"
| "pred_sem ev (Some (UnaryExpr NotOp e)) = (\<not> pred_sem ev e)"
| "pred_sem ev (Some (BinaryExpr l op r)) = (case (l, r) of (Some l', Some r') \<Rightarrow> ev l' op r' | _ \<Rightarrow> False)"
| "pred_sem ev (Some (IntLit v)) = False"
| "pred_sem ev (Some (FloatLit v)) = False"
| "pred_sem ev (Some (StringLit s)) = False"
| "pred_sem ev (Some (ColExpr c)) = False"
| "pred_sem ev (Some (StarExpr s)) = False"
| "pred_sem ev (Some (FunctionCallExpr f args d)) = False"
| "pred_sem ev (Some (SubqueryExpr q)) = False"
  by pat_completeness auto
termination
  by (relation "measure (\<lambda>(_, e). size_option size e)") auto

text \<open>The comparisons of a conjunction from left to right; \<open>None\<close> for a tree that is not a conjunction of comparisons.\<close>

function conjuncts :: "expr option \<Rightarrow> (ast_Col \<times> ast_CompOp \<times> expr) list option" where
  "conjuncts (Some (LogicalExpr op l r)) =
     (if op = And then (case (conjuncts l, conjuncts r) of (Some ls, Some rs) \<Rightarrow> Some (ls @ rs) | _ \<Rightarrow> None) else None)"
| "conjuncts (Some (BinaryExpr l op r)) =
     (case (l, r) of (Some l', Some r') \<Rightarrow> if is_literal r' \<or> (\<exists>c. r' = ColExpr c) then Some [(l', op, r')] else None | _ \<Rightarrow> None)"
| "conjuncts None = None"
| "conjuncts (Some (UnaryExpr op e)) = None"
| "conjuncts (Some (IntLit v)) = None"
| "conjuncts (Some (FloatLit v)) = None"
| "conjuncts (Some (StringLit s)) = None"
| "conjuncts (Some (ColExpr c)) = None"
| "conjuncts (Some (StarExpr s)) = None"
| "conjuncts (Some (FunctionCallExpr f args d)) = None"
| "conjuncts (Some (SubqueryExpr q)) = None"
  by pat_completeness auto
termination
  by (relation "measure (size_option size)") auto

lemma convert_literal: "is_literal e \<Longrightarrow> \<exists>v. convert_ast_value e = Inr v"
  by (cases e) simp_all

lemma bind_comparison_Inr:
  "(\<exists>c. bind_comparison (Some l) op (Some r) = Inr c) \<longleftrightarrow> is_literal r \<or> (\<exists>c. r = ColExpr c)"
  by (cases r) (simp_all add: bind_comparison_def)

lemma append_clause_conjuncts:
  "(case conjuncts e of
      None \<Rightarrow> \<exists>err. append_clause e cs = Inl err
    | Some ps \<Rightarrow> \<exists>ds. append_clause e cs = Inr (cs @ ds) \<and>
        list_all2 (\<lambda>(l, op, r) c. bind_comparison (Some l) op (Some r) = Inr c) ps ds)"
proof (induction e arbitrary: cs rule: conjuncts.induct)
  case (1 op l r)
  show ?case
  proof (cases "op = And")
    case True
    note IH = 1(1) [OF True] 1(2) [OF True]
    show ?thesis
    proof (cases "conjuncts l")
      case None
      with IH(1) [of cs] True show ?thesis by auto
    next
      case (Some ls)
      with IH(1) [of cs] obtain ds where ds: "append_clause l cs = Inr (cs @ ds)"
        "list_all2 (\<lambda>(l, op, r) c. bind_comparison (Some l) op (Some r) = Inr c) ls ds" by auto
      show ?thesis
      proof (cases "conjuncts r")
        case None
        with IH(2) [of "cs @ ds"] True Some ds show ?thesis by auto
      next
        case (Some rs)
        with IH(2) [of "cs @ ds"] obtain ds' where ds': "append_clause r (cs @ ds) = Inr (cs @ ds @ ds')"
          "list_all2 (\<lambda>(l, op, r) c. bind_comparison (Some l) op (Some r) = Inr c) rs ds'" by auto
        with True Some \<open>conjuncts l = Some ls\<close> ds list_all2_appendI [OF ds(2) ds'(2)] show ?thesis by simp
      qed
    qed
  qed auto
next
  case (2 l op r)
  then show ?case
  proof (cases "l = None \<or> r = None")
    case True
    then show ?thesis by (auto simp: bind_comparison_def split: option.splits)
  next
    case False
    then obtain l' r' where "l = Some l'" "r = Some r'" by auto
    then show ?thesis using bind_comparison_Inr [of l' op r'] by (cases "bind_comparison l op r") auto
  qed
qed auto

lemma conjuncts_sem: "conjuncts e = Some ps \<Longrightarrow> pred_sem ev e \<longleftrightarrow> (\<forall>(l, op, r)\<in>set ps. ev l op r)"
proof (induction e arbitrary: ps rule: conjuncts.induct)
  case (1 op l r)
  then obtain ls rs where "op = And" "conjuncts l = Some ls" "conjuncts r = Some rs" "ps = ls @ rs"
    by (auto split: if_splits option.splits)
  with 1 show ?case by (simp add: ball_Un)
qed (auto split: option.splits if_splits)

section \<open>The record an INSERT builds\<close>

definition image_of :: "Value list \<Rightarrow> byte list" where
  "image_of vs = concat (map (\<lambda>v. case raw v of None \<Rightarrow> [] | Some bs \<Rightarrow> bs) vs)"

definition fits_col :: "Value \<Rightarrow> ColMeta \<Rightarrow> bool" where
  "fits_col v c \<longleftrightarrow> val_type v = cm_type c \<and> (\<exists>bs. raw v = Some bs \<and> int (length bs) = cm_len c)"

lemma image_slices:
  assumes "list_all2 fits_col vs cs" "layout_ok off cs" "length pre = nat off" "0 \<le> off" "i < length cs"
  shows "raw (vs ! i) = Some (take (nat (cm_len (cs ! i))) (drop (nat (cm_offset (cs ! i))) (pre @ image_of vs @ post)))"
  using assms
proof (induction vs cs arbitrary: off pre i rule: list_all2_induct)
  case Nil
  then show ?case by simp
next
  case (Cons v vs c cs)
  from Cons.hyps(1) obtain bs where bs: "raw v = Some bs" "int (length bs) = cm_len c" by (auto simp: fits_col_def)
  from Cons.prems have lay: "cm_offset c = off" "layout_ok (off + cm_len c) cs" by auto
  show ?case
  proof (cases i)
    case 0
    with bs lay Cons.prems show ?thesis by (simp add: image_of_def flip: bs(2))
  next
    case (Suc j)
    have "raw (vs ! j) = Some (take (nat (cm_len (cs ! j))) (drop (nat (cm_offset (cs ! j))) ((pre @ bs) @ image_of vs @ post)))"
      by (rule Cons.IH [OF lay(2)]) (use Cons.prems bs Suc in auto)
    then show ?thesis by (simp add: Suc image_of_def bs(1))
  qed
qed

lemma analyze_insert_fits:
  assumes "analyze_insert db tab vals q0 = Inr q"
  shows "\<exists>t. get_table db tab = Inr t \<and> list_all2 fits_col (bound_values q) (tm_cols t)"
proof -
  from assms obtain t vs where t: "get_table db tab = Inr t" "length vals = length (tm_cols t)"
    "mapE bind_insert_value (zip vals (tm_cols t)) = Inr vs" "bound_values q = vs"
    by (auto simp: analyze_insert_def split: if_splits)
  have one: "fits_col v c" if b: "bind_insert_value (e, c) = Inr v" for e c v
  proof -
    from b obtain e' v0 where "convert_ast_value e' = Inr v0" "val_type v0 = cm_type c" "init_raw (cm_len c) v0 = Inr v"
      by (auto simp: bind_insert_value_def split: option.splits if_splits)
    then show ?thesis using init_raw_length [of "cm_len c" v0 v] init_raw_keeps [of "cm_len c" v0 v] by (auto simp: fits_col_def)
  qed
  from t have l2: "list_all2 (\<lambda>p v. bind_insert_value p = Inr v) (zip vals (tm_cols t)) vs" by (simp add: mapE_Inr_iff)
  have "list_all2 fits_col vs (tm_cols t)"
    using l2 t(2) one by (auto simp: list_all2_conv_all_nth)
  with t show ?thesis by auto
qed

section \<open>Properties\<close>

text \<open>
  C4 (analysed queries are well typed). For a well formed catalog, a SELECT that passes the analyzer refers only to
  existing tables; every projected column, the sort column and every column of a condition exists in one of them,
  both sides of a condition have the same type, and a literal is encoded at exactly the length of its column.
\<close>

theorem analyze_select_typed:
  assumes "db_ok db" "analyze db (Some (Select sel)) = Inr q"
  shows "(\<forall>t\<in>set (bound_tables q). is_table db t) \<and>
    (\<forall>tc\<in>set (bound_cols q). \<exists>c. col_of db (bound_tables q) tc c) \<and>
    (\<forall>tc. bound_order_col q = Some tc \<longrightarrow> (\<exists>c. col_of db (bound_tables q) tc c)) \<and>
    (\<forall>c\<in>set (bound_conds q). cond_ok db (bound_tables q) c)"
proof -
  from assms(2) have a: "analyze_select db sel (AnalyzedQuery_make (Select sel)) = Inr q" by (simp add: analyze_def)
  note l = analyze_select_Inr [OF assms(1) a]
  have "is_table db t" if "t \<in> set (bound_tables q)" for t
    using l(2) [OF that] by (auto simp: is_table_def get_table_def split: option.splits)
  with l(3-5) show ?thesis by blast
qed

definition sample_select :: select_stmt where
  "sample_select =
     SelectStmt [Some (StarExpr [])] (Some (TableRef (Inl ''t'') []))
       (Some (BinaryExpr (Some (Col [] ''name'')) Eq (Some (StringLit ''ab'')))) [] None [] None"

definition sample_query :: AnalyzedQuery where
  "sample_query =
     (AnalyzedQuery_make (Select sample_select))
       \<lparr>bound_tables := [''t''], bound_cols := [tab_col ''t'' ''id'', tab_col ''t'' ''name''],
        bound_conds := [\<lparr>lhs_col = tab_col ''t'' ''name'', cond_op = OP_EQ, is_rhs_val = True, rhs_col = tab_col [] [],
          rhs_val = (set_str ''ab'' Value_empty)\<lparr>raw := Some [97, 98, 0, 0, 0, 0, 0, 0]\<rparr>\<rparr>]\<rparr>"

lemmas sample_simps = analyze_def analyze_select_def sample_select_def sample_query_def get_all_cols_def get_table_def sample_db_def
  sample_table_def bind_item_def check_column_def bind_order_by_def get_clause_def bind_comparison_def comparison_def
  check_clause_def check_condition_def get_col_def Let_def tab_col_def

lemma sample_analyze: "analyze sample_db (Some (Select sample_select)) = Inr sample_query"
  by code_simp

theorem analyze_select_typed_witness: "is_table sample_db ''t''"
  using analyze_select_typed [OF sample_db_ok sample_analyze] by (simp add: sample_query_def)



text \<open>
  C27 (unqualified columns). Over visible columns that carry their table's name, an unqualified column is bound when
  exactly one visible column has its name, and to that column's table; with none the column is unknown and with
  several it is ambiguous.
\<close>

theorem check_column_unqualified:
  assumes "\<forall>c\<in>set cols. cm_tab c \<noteq> []"
  shows "check_column cols (tab_col [] name) =
    (case filter (\<lambda>c. cm_name c = name) cols of
       [] \<Rightarrow> Inl (ColumnNotFoundError name)
     | [c] \<Rightarrow> Inr (tab_col (cm_tab c) name)
     | _ \<Rightarrow> Inl (AmbiguousColumnError name))"
proof -
  have "cm_tab c \<noteq> []" if "filter (\<lambda>c. cm_name c = name) cols = c # cs" for c cs
    using assms filter_eq_ConsD [OF that] by auto
  then show ?thesis
    using resolve_tab_filter [OF assms, of name]
    by (auto simp: check_column_def tab_col_def split: list.splits)
qed

theorem check_column_unqualified_witness:
  "check_column (tm_cols sample_table) (tab_col [] ''id'') = Inr (tab_col ''t'' ''id'')"
  using check_column_unqualified [of "tm_cols sample_table" "''id''"] by (simp add: sample_table_def Let_def)



end
