(* ===== verification/Planner.thy ===== *)
theory Planner
  imports Analyzer
begin

text \<open>
  Query planning: the plan nodes of \<^verbatim>\<open>src/src/optimizer/plan.h\<close>, the planner of \<^verbatim>\<open>planner.cpp\<close> and the dispatch of
  \<^verbatim>\<open>optimizer.h\<close>. The planner's mutable vectors (\<^verbatim>\<open>joined\<close>, \<^verbatim>\<open>scan_plans\<close>) are passed along explicitly; a plan pointer that was
  moved out of the vector is \<open>None\<close>.
\<close>

section \<open>Plans\<close>

datatype PlanTag =
    T_Invalid | T_Help | T_ShowDatabase | T_ShowTable | T_DescTable | T_SetKnob | T_CreateTable | T_DropTable
  | T_CreateIndex | T_DropIndex | T_Insert | T_Update | T_Delete | T_select | T_Transaction_begin
  | T_Transaction_commit | T_Transaction_abort | T_Transaction_rollback | T_SeqScan | T_IndexScan | T_NestLoop
  | T_SortMerge | T_Sort | T_Projection

record ColDef =
  def_name :: string
  def_type :: ColType
  def_len :: int

datatype plan =
    ScanPlan PlanTag string "ColMeta list" "Condition list" int "Condition list" "string list"
  | JoinPlan PlanTag plan plan "Condition list" JoinType
  | ProjectionPlan PlanTag plan "TabCol list"
  | SortPlan PlanTag plan TabCol bool
  | SelectPlan plan
  | InsertPlan string "Value list"
  | DeletePlan plan string "Condition list"
  | UpdatePlan plan string "Condition list" "SetClause list"
  | DDLPlan PlanTag string "string list" "ColDef list" bool
  | OtherPlan PlanTag string
  | SetKnobPlan string bool

text \<open>The scan node's constructor reads the table's columns and derives the record length from the last one.\<close>

definition ScanPlan_make :: "DbMeta \<Rightarrow> PlanTag \<Rightarrow> string \<Rightarrow> Condition list \<Rightarrow> string list \<Rightarrow> plan result" where
  "ScanPlan_make db tag tab conds index_col_names =
     bindE (get_table db tab) (\<lambda>t.
       let cols = tm_cols t in
       Inr (ScanPlan tag tab cols conds (cm_offset (last cols) + cm_len (last cols)) conds index_col_names))"

definition JoinPlan_make :: "PlanTag \<Rightarrow> plan \<Rightarrow> plan \<Rightarrow> Condition list \<Rightarrow> plan" where
  "JoinPlan_make tag left right conds = JoinPlan tag left right conds Inner"

section \<open>Scans\<close>

fun reverse_comparison :: "CompOp \<Rightarrow> CompOp" where
  "reverse_comparison OP_EQ = OP_EQ"
| "reverse_comparison OP_NE = OP_NE"
| "reverse_comparison OP_LT = OP_GT"
| "reverse_comparison OP_GT = OP_LT"
| "reverse_comparison OP_LE = OP_GE"
| "reverse_comparison OP_GE = OP_LE"

definition has_equality_condition :: "string \<Rightarrow> Condition list \<Rightarrow> ColMeta \<Rightarrow> bool" where
  "has_equality_condition table conds column \<longleftrightarrow>
     list_ex (\<lambda>c. is_rhs_val c \<and> cond_op c = OP_EQ \<and> tab_name (lhs_col c) = table \<and> col_name (lhs_col c) = cm_name column) conds"

fun choose_index_loop :: "string \<Rightarrow> Condition list \<Rightarrow> IndexMeta list \<Rightarrow> string list \<Rightarrow> string list" where
  "choose_index_loop table conds [] index_columns = index_columns"
| "choose_index_loop table conds (index # rest) index_columns =
     (let matched = list_all (has_equality_condition table conds) (ix_cols index) in
      if \<not> matched \<or> length (ix_cols index) \<le> length index_columns
      then choose_index_loop table conds rest index_columns
      else choose_index_loop table conds rest (map cm_name (ix_cols index)))"

definition choose_index :: "DbMeta \<Rightarrow> string \<Rightarrow> Condition list \<Rightarrow> (bool \<times> string list) result" where
  "choose_index db table conds =
     bindE (get_table db table) (\<lambda>tab.
       let index_columns = choose_index_loop table conds (tm_indexes tab) [] in
       Inr (index_columns \<noteq> [], index_columns))"

definition make_scan_plan :: "DbMeta \<Rightarrow> string \<Rightarrow> Condition list \<Rightarrow> plan result" where
  "make_scan_plan db table conds =
     bindE (choose_index db table conds) (\<lambda>(use_index, index_columns).
       ScanPlan_make db (if use_index then T_IndexScan else T_SeqScan) table conds index_columns)"

definition table_condition :: "string \<Rightarrow> Condition \<Rightarrow> bool" where
  "table_condition table c \<longleftrightarrow>
     (is_rhs_val c \<and> tab_name (lhs_col c) = table) \<or>
     (\<not> is_rhs_val c \<and> tab_name (lhs_col c) = table \<and> tab_name (rhs_col c) = table)"

text \<open>The conditions of one table, in order, and what is left of the list.\<close>

fun take_table_conditions :: "Condition list \<Rightarrow> string \<Rightarrow> Condition list \<times> Condition list" where
  "take_table_conditions [] table = ([], [])"
| "take_table_conditions (c # cs) table =
     (let (taken, left) = take_table_conditions cs table in
      if table_condition table c then (c # taken, left) else (taken, c # left))"

fun table_index :: "string list \<Rightarrow> string \<Rightarrow> nat result" where
  "table_index [] table = Inl (InternalError ''Join condition references an unknown table'')"
| "table_index (t # ts) table = (if t = table then Inr 0 else bindE (table_index ts table) (\<lambda>i. Inr (Suc i)))"

section \<open>Joins\<close>

type_synonym scan_state = "bool list \<times> plan option list"

definition take_scan_plan :: "nat \<Rightarrow> scan_state \<Rightarrow> (plan \<times> scan_state) result" where
  "take_scan_plan index st =
     (case st of (joined, scan_plans) \<Rightarrow>
        if index \<ge> length scan_plans \<or> joined ! index \<or> scan_plans ! index = None
        then Inl (InternalError ''Invalid scan plan state while building a join'')
        else Inr (the (scan_plans ! index), joined[index := True], scan_plans[index := None]))"

datatype ConditionCoverage = CNone | CLhs | CRhs | CBoth

definition swap_condition :: "Condition \<Rightarrow> Condition" where
  "swap_condition c = c\<lparr>lhs_col := rhs_col c, rhs_col := lhs_col c, cond_op := reverse_comparison (cond_op c)\<rparr>"

text \<open>The plan is changed in place where the condition is attached; the changed tree is returned beside the coverage.\<close>

fun attach_join_condition :: "Condition \<Rightarrow> plan \<Rightarrow> ConditionCoverage \<times> plan" where
  "attach_join_condition condition (ScanPlan tag tab cols conds len fed index_cols) =
     ((if tab = tab_name (lhs_col condition) then CLhs
       else if tab = tab_name (rhs_col condition) then CRhs else CNone),
      ScanPlan tag tab cols conds len fed index_cols)"
| "attach_join_condition condition (JoinPlan tag left right conds type) =
     (let (lcov, left') = attach_join_condition condition left in
      if lcov = CBoth then (CBoth, JoinPlan tag left' right conds type)
      else let (rcov, right') = attach_join_condition condition right in
        if rcov = CBoth then (CBoth, JoinPlan tag left' right' conds type)
        else if lcov = CNone then (rcov, JoinPlan tag left' right' conds type)
        else if rcov = CNone then (lcov, JoinPlan tag left' right' conds type)
        else let condition' = (if lcov = CRhs then swap_condition condition else condition) in
          (CBoth, JoinPlan tag left' right' (conds @ [condition']) type))"
| "attach_join_condition condition p = (CNone, p)"

text \<open>One round of the loop over the join conditions.\<close>

definition join_step :: "string list \<Rightarrow> Condition \<Rightarrow> plan \<times> scan_state \<Rightarrow> (plan \<times> scan_state) result" where
  "join_step tables condition rs =
     (case rs of (join_root, joined, scan_plans) \<Rightarrow>
        bindE (table_index tables (tab_name (lhs_col condition))) (\<lambda>lhs.
        bindE (table_index tables (tab_name (rhs_col condition))) (\<lambda>rhs.
        let lhs_joined = joined ! lhs; rhs_joined = joined ! rhs in
        if \<not> lhs_joined \<and> \<not> rhs_joined then
          bindE (take_scan_plan lhs (joined, scan_plans)) (\<lambda>(l, st1).
          bindE (take_scan_plan rhs st1) (\<lambda>(r, st2).
          Inr (JoinPlan_make T_NestLoop (JoinPlan_make T_NestLoop l r [condition]) join_root [], st2)))
        else if lhs_joined \<noteq> rhs_joined then
          (let condition' = (if lhs_joined then swap_condition condition else condition);
               new_table = (if lhs_joined then rhs else lhs) in
           bindE (take_scan_plan new_table (joined, scan_plans)) (\<lambda>(s, st1).
           Inr (JoinPlan_make T_NestLoop s join_root [condition'], st1)))
        else (let (cov, join_root') = attach_join_condition condition join_root in
          if cov \<noteq> CBoth then Inl (InternalError ''Failed to attach join condition to plan tree'')
          else Inr (join_root', joined, scan_plans)))))"

text \<open>The last loop: tables without a join condition become cross products.\<close>

definition cross_step :: "nat \<Rightarrow> plan \<times> scan_state \<Rightarrow> (plan \<times> scan_state) result" where
  "cross_step i rs =
     (case rs of (join_root, joined, scan_plans) \<Rightarrow>
        if \<not> joined ! i then
          bindE (take_scan_plan i (joined, scan_plans)) (\<lambda>(s, st1).
          Inr (JoinPlan_make T_NestLoop s join_root [], st1))
        else Inr rs)"

definition first_join :: "string list \<Rightarrow> Condition list \<Rightarrow> scan_state \<Rightarrow> (plan \<times> scan_state) result" where
  "first_join tables join_conditions st =
     (case join_conditions of
        [] \<Rightarrow> take_scan_plan 0 st
      | first # _ \<Rightarrow>
          bindE (table_index tables (tab_name (lhs_col first))) (\<lambda>lhs.
          bindE (table_index tables (tab_name (rhs_col first))) (\<lambda>rhs.
          bindE (take_scan_plan lhs st) (\<lambda>(l, st1).
          bindE (take_scan_plan rhs st1) (\<lambda>(r, st2).
          Inr (JoinPlan_make T_NestLoop l r [first], st2))))))"

definition build_join_tree :: "string list \<Rightarrow> plan option list \<Rightarrow> Condition list \<Rightarrow> plan result" where
  "build_join_tree tables scan_plans join_conditions =
     bindE (first_join tables join_conditions (replicate (length tables) False, scan_plans)) (\<lambda>rs.
     bindE (foldE (join_step tables) (tl join_conditions) rs) (\<lambda>rs1.
     bindE (foldE cross_step [0..<length tables] rs1) (\<lambda>(root, st). Inr root)))"

text \<open>The scan plans of all tables; the conditions are shared out in the order of the tables.\<close>

fun make_scans :: "DbMeta \<Rightarrow> string list \<Rightarrow> Condition list \<Rightarrow> (plan list \<times> Condition list) result" where
  "make_scans db [] remaining = Inr ([], remaining)"
| "make_scans db (table # tables) remaining =
     (let (mine, rest) = take_table_conditions remaining table in
      bindE (make_scan_plan db table mine) (\<lambda>p.
      bindE (make_scans db tables rest) (\<lambda>(ps, left). Inr (p # ps, left))))"

definition build_from_plan :: "DbMeta \<Rightarrow> AnalyzedQuery \<Rightarrow> plan result" where
  "build_from_plan db query =
     (let tables = bound_tables query in
      if tables = [] then Inl (InternalError ''SELECT query has no bound tables'')
      else bindE (make_scans db tables (bound_conds query)) (\<lambda>(scan_plans, remaining).
        if length tables = 1 then Inr (hd scan_plans)
        else build_join_tree tables (map Some scan_plans) remaining))"

section \<open>Algorithms, sorting and dispatch\<close>

definition is_merge_key :: "Condition \<Rightarrow> bool" where
  "is_merge_key c \<longleftrightarrow> \<not> is_rhs_val c \<and> cond_op c = OP_EQ"

text \<open>\<^verbatim>\<open>std::rotate\<close> of the prefix that ends with the found condition: it moves to the front, the others keep their order.\<close>

definition rotate_key :: "Condition list \<Rightarrow> Condition \<Rightarrow> Condition list" where
  "rotate_key cs key =
     (let pre = takeWhile (\<lambda>c. \<not> is_merge_key c) cs; post = drop (Suc (length pre)) cs in key # pre @ post)"

fun choose_join_algorithm :: "bool \<Rightarrow> plan \<Rightarrow> plan" where
  "choose_join_algorithm sortmerge (JoinPlan tag left right conds type) =
     (let left' = choose_join_algorithm sortmerge left; right' = choose_join_algorithm sortmerge right in
      if \<not> sortmerge then JoinPlan tag left' right' conds type
      else (case find is_merge_key conds of
          None \<Rightarrow> JoinPlan tag left' right' conds type
        | Some key \<Rightarrow>
            JoinPlan T_SortMerge (SortPlan T_Sort left' (lhs_col key) False) (SortPlan T_Sort right' (rhs_col key) False)
              (rotate_key conds key) type))"
| "choose_join_algorithm sortmerge p = p"

definition logical_optimization :: "AnalyzedQuery \<Rightarrow> AnalyzedQuery" where
  "logical_optimization query = query"

definition physical_optimization :: "DbMeta \<Rightarrow> bool \<Rightarrow> AnalyzedQuery \<Rightarrow> plan result" where
  "physical_optimization db sortmerge query =
     bindE (build_from_plan db query) (\<lambda>p.
       let root = choose_join_algorithm sortmerge p in
       Inr (case bound_order_col query of None \<Rightarrow> root | Some col \<Rightarrow> SortPlan T_Sort root col (bound_order_desc query)))"

definition plan_select :: "DbMeta \<Rightarrow> bool \<Rightarrow> AnalyzedQuery \<Rightarrow> plan result" where
  "plan_select db sortmerge query =
     (let q = logical_optimization query in
      bindE (physical_optimization db sortmerge q) (\<lambda>root.
        Inr (SelectPlan (ProjectionPlan T_Projection root (bound_cols q)))))"

fun interpret_type :: "DataType \<Rightarrow> ColType" where
  "interpret_type DInt = TYPE_INT"
| "interpret_type DFloat = TYPE_FLOAT"
| "interpret_type DString = TYPE_STRING"

definition do_planner :: "DbMeta \<Rightarrow> bool \<Rightarrow> AnalyzedQuery \<Rightarrow> plan result" where
  "do_planner db sortmerge query =
     (let target = bound_target_table query in
      case bound_statement query of
        CreateTableStmt tab flds \<Rightarrow>
          Inr (DDLPlan T_CreateTable tab []
            (map (\<lambda>f. \<lparr>def_name = cd_name f, def_type = interpret_type (tl_type (type_len f)),
              def_len = declared_len (type_len f)\<rparr>) flds) False)
      | DropTableStmt tab \<Rightarrow> Inr (DDLPlan T_DropTable tab [] [] False)
      | CreateIndexStmt tab cols unique \<Rightarrow> Inr (DDLPlan T_CreateIndex tab cols [] unique)
      | DropIndexStmt tab cols \<Rightarrow> Inr (DDLPlan T_DropIndex tab cols [] False)
      | InsertStmt tab vals \<Rightarrow>
          if target = [] then Inl (InternalError ''INSERT query has no bound target table'')
          else Inr (InsertPlan target (bound_values query))
      | DeleteStmt tab wh \<Rightarrow>
          if target = [] then Inl (InternalError ''DELETE query has no bound target table'')
          else bindE (make_scan_plan db target (bound_conds query)) (\<lambda>scan. Inr (DeletePlan scan target (bound_conds query)))
      | UpdateStmt tab sets wh \<Rightarrow>
          if target = [] then Inl (InternalError ''UPDATE query has no bound target table'')
          else bindE (make_scan_plan db target (bound_conds query)) (\<lambda>scan.
            Inr (UpdatePlan scan target (bound_conds query) (bound_set_clauses query)))
      | Select sel \<Rightarrow> plan_select db sortmerge query
      | _ \<Rightarrow> Inl (InternalError ''Planner received a non-plannable statement kind''))"

definition plan_query :: "DbMeta \<Rightarrow> bool \<Rightarrow> AnalyzedQuery \<Rightarrow> plan result" where
  "plan_query db sortmerge query =
     (case bound_statement query of
        HelpStmt \<Rightarrow> Inr (OtherPlan T_Help [])
      | ShowDatabaseStmt \<Rightarrow> Inr (OtherPlan T_ShowDatabase [])
      | ShowTablesStmt \<Rightarrow> Inr (OtherPlan T_ShowTable [])
      | SetKnobStmt name val \<Rightarrow> Inr (SetKnobPlan (bound_knob_name query) (bound_knob_value query))
      | DescTableStmt tab \<Rightarrow> Inr (OtherPlan T_DescTable tab)
      | TxnBeginStmt \<Rightarrow> Inr (OtherPlan T_Transaction_begin [])
      | TxnAbortStmt \<Rightarrow> Inr (OtherPlan T_Transaction_abort [])
      | TxnCommitStmt \<Rightarrow> Inr (OtherPlan T_Transaction_commit [])
      | TxnRollbackStmt \<Rightarrow> Inr (OtherPlan T_Transaction_rollback [])
      | _ \<Rightarrow> do_planner db sortmerge query)"

end
