(* ===== verification/Plan_Semantics.thy ===== *)
theory Plan_Semantics
  imports Planner Index_Key
begin

text \<open>
  What a plan computes, and that the planner keeps the meaning of the query. A row combination of a query assigns a
  record to each of its tables; how one condition is evaluated on a row combination is left open in the locale
  \<open>condition_semantics\<close>, which states what the planner relies on: a condition depends only on the tables it names, and
  turning a comparison of two columns around keeps its meaning. The interpretation gives the evaluation by the
  comparison of index keys.
\<close>

section \<open>Conditions\<close>

definition cond_tabs :: "Condition \<Rightarrow> string set" where
  "cond_tabs c = insert (tab_name (lhs_col c)) (if is_rhs_val c then {} else {tab_name (rhs_col c)})"

lemma swap_condition_simps [simp]:
  "lhs_col (swap_condition c) = rhs_col c" "rhs_col (swap_condition c) = lhs_col c"
  "cond_op (swap_condition c) = reverse_comparison (cond_op c)" "is_rhs_val (swap_condition c) = is_rhs_val c"
  "rhs_val (swap_condition c) = rhs_val c"
  by (simp_all add: swap_condition_def)

lemma reverse_comparison_involution [simp]: "reverse_comparison (reverse_comparison op) = op"
  by (cases op) simp_all

locale condition_semantics =
  fixes holds :: "Condition \<Rightarrow> (string \<Rightarrow> 'r option) \<Rightarrow> bool"
  assumes holds_local: "(\<And>t. t \<in> cond_tabs c \<Longrightarrow> m t = m' t) \<Longrightarrow> holds c m \<longleftrightarrow> holds c m'"
    and holds_swap: "\<not> is_rhs_val c \<Longrightarrow> holds (swap_condition c) m \<longleftrightarrow> holds c m"

section \<open>Plans as sets of row combinations\<close>

fun ptabs :: "plan \<Rightarrow> string list" where
  "ptabs (ScanPlan tag tab cols conds len fed ix) = [tab]"
| "ptabs (JoinPlan tag l r conds type) = ptabs l @ ptabs r"
| "ptabs (SortPlan tag p col desc) = ptabs p"
| "ptabs (ProjectionPlan tag p cols) = ptabs p"
| "ptabs (SelectPlan p) = ptabs p"
| "ptabs _ = []"

fun pconds :: "plan \<Rightarrow> Condition list" where
  "pconds (ScanPlan tag tab cols conds len fed ix) = conds"
| "pconds (JoinPlan tag l r conds type) = pconds l @ pconds r @ conds"
| "pconds (SortPlan tag p col desc) = pconds p"
| "pconds (ProjectionPlan tag p cols) = pconds p"
| "pconds (SelectPlan p) = pconds p"
| "pconds _ = []"

fun rows :: "(Condition \<Rightarrow> (string \<Rightarrow> 'r option) \<Rightarrow> bool) \<Rightarrow> (string \<Rightarrow> 'r set) \<Rightarrow> plan \<Rightarrow> (string \<Rightarrow> 'r option) set" where
  "rows holds inst (ScanPlan tag tab cols conds len fed ix) = {m. \<exists>r\<in>inst tab. m = [tab \<mapsto> r] \<and> (\<forall>c\<in>set conds. holds c m)}"
| "rows holds inst (JoinPlan tag l r conds type) =
     {m. \<exists>m1\<in>rows holds inst l. \<exists>m2\<in>rows holds inst r. m = m1 ++ m2 \<and> (\<forall>c\<in>set conds. holds c m)}"
| "rows holds inst (SortPlan tag p col desc) = rows holds inst p"
| "rows holds inst (ProjectionPlan tag p cols) = rows holds inst p"
| "rows holds inst (SelectPlan p) = rows holds inst p"
| "rows holds inst _ = {}"

text \<open>The meaning of the query itself: the tables' cross product restricted by all conditions.\<close>

definition query_rows ::
  "(Condition \<Rightarrow> (string \<Rightarrow> 'r option) \<Rightarrow> bool) \<Rightarrow> (string \<Rightarrow> 'r set) \<Rightarrow> string list \<Rightarrow> Condition list \<Rightarrow> (string \<Rightarrow> 'r option) set" where
  "query_rows holds inst tables conds =
     {m. dom m = set tables \<and> (\<forall>t\<in>set tables. \<exists>r\<in>inst t. m t = Some r) \<and> (\<forall>c\<in>set conds. holds c m)}"

text \<open>
  What \<^verbatim>\<open>plan.h\<close> documents of join nodes: a column of the left side stands left in every condition and one of the right
  side right, and a sort-merge join has an equality as its first condition and both inputs sorted in ascending order
  by that condition's columns.
\<close>

fun plan_wf :: "plan \<Rightarrow> bool" where
  "plan_wf (ScanPlan tag tab cols conds len fed ix) \<longleftrightarrow> (\<forall>c\<in>set conds. table_condition tab c) \<and> fed = conds"
| "plan_wf (JoinPlan tag l r conds type) \<longleftrightarrow>
     plan_wf l \<and> plan_wf r \<and> set (ptabs l) \<inter> set (ptabs r) = {} \<and>
     (\<forall>c\<in>set conds. \<not> is_rhs_val c \<and> tab_name (lhs_col c) \<in> set (ptabs l) \<and> tab_name (rhs_col c) \<in> set (ptabs r)) \<and>
     (tag = T_SortMerge \<longrightarrow>
       (\<exists>key rest pl pr. conds = key # rest \<and> is_merge_key key \<and>
         l = SortPlan T_Sort pl (lhs_col key) False \<and> r = SortPlan T_Sort pr (rhs_col key) False))"
| "plan_wf (SortPlan tag p col desc) \<longleftrightarrow> plan_wf p \<and> tab_name col \<in> set (ptabs p)"
| "plan_wf _ \<longleftrightarrow> False"

fun join_tree :: "plan \<Rightarrow> bool" where
  "join_tree (ScanPlan tag tab cols conds len fed ix) \<longleftrightarrow> True"
| "join_tree (JoinPlan tag l r conds type) \<longleftrightarrow> tag = T_NestLoop \<and> join_tree l \<and> join_tree r"
| "join_tree _ \<longleftrightarrow> False"

lemma table_condition_tabs: "table_condition tab c \<Longrightarrow> cond_tabs c = {tab}"
  by (auto simp: table_condition_def cond_tabs_def)

lemma plan_wf_local: "plan_wf p \<Longrightarrow> c \<in> set (pconds p) \<Longrightarrow> cond_tabs c \<subseteq> set (ptabs p)"
  by (induction p rule: plan_wf.induct) (auto simp: table_condition_def cond_tabs_def)

context condition_semantics
begin

abbreviation sat :: "plan \<Rightarrow> (string \<Rightarrow> 'r option) \<Rightarrow> bool" where
  "sat p m \<equiv> \<forall>c\<in>set (pconds p). holds c m"

lemma sat_local:
  assumes "plan_wf p" "\<And>t. t \<in> set (ptabs p) \<Longrightarrow> m t = m' t"
  shows "sat p m \<longleftrightarrow> sat p m'"
  using holds_local [of _ m m'] plan_wf_local [OF assms(1)] assms(2) by blast

lemma rows_scan: "plan_wf (ScanPlan tag tab cols conds len fed ix) \<Longrightarrow>
  rows holds inst (ScanPlan tag tab cols conds len fed ix) = query_rows holds inst [tab] conds"
  by (auto simp: query_rows_def dom_eq_singleton_conv)

lemma query_rows_join:
  assumes "plan_wf l" "plan_wf r" "set (ptabs l) \<inter> set (ptabs r) = {}"
    "m1 \<in> query_rows holds inst (ptabs l) (pconds l)" "m2 \<in> query_rows holds inst (ptabs r) (pconds r)"
  shows "m1 ++ m2 \<in> query_rows holds inst (ptabs l @ ptabs r) (pconds l @ pconds r)"
proof -
  have d: "dom m1 = set (ptabs l)" "dom m2 = set (ptabs r)" using assms(4,5) by (auto simp: query_rows_def)
  have eql: "(m1 ++ m2) t = m1 t" if "t \<in> set (ptabs l)" for t
    using that d assms(3) map_add_dom_app_simps(3) [of t m2 m1] by blast
  have eqr: "(m1 ++ m2) t = m2 t" if "t \<in> set (ptabs r)" for t
    using that d map_add_dom_app_simps(1) [of t m2 m1] by blast
  have "sat l (m1 ++ m2)" using assms(4) sat_local [OF assms(1) eql] by (simp add: query_rows_def)
  moreover have "sat r (m1 ++ m2)" using assms(5) sat_local [OF assms(2) eqr] by (simp add: query_rows_def)
  ultimately show ?thesis using assms(4,5) d eql eqr by (auto simp: query_rows_def)
qed

lemma query_rows_split:
  assumes "plan_wf p" "set (ptabs p) \<subseteq> set ts" "set (pconds p) \<subseteq> set conds" "m \<in> query_rows holds inst ts conds"
  shows "m |` set (ptabs p) \<in> query_rows holds inst (ptabs p) (pconds p)"
proof -
  have "sat p m" using assms(3,4) by (auto simp: query_rows_def)
  then have "sat p (m |` set (ptabs p))" using sat_local [OF assms(1), of m "m |` set (ptabs p)"] by simp
  then show ?thesis using assms(2,4) by (auto simp: query_rows_def)
qed

lemma rows_wf: "plan_wf p \<Longrightarrow> rows holds inst p = query_rows holds inst (ptabs p) (pconds p)"
proof (induction p rule: plan_wf.induct)
  case (1 tag tab cols conds len fed ix)
  then show ?case using rows_scan by simp
next
  case (2 tag l r conds type)
  then have wf: "plan_wf l" "plan_wf r" "set (ptabs l) \<inter> set (ptabs r) = {}"
    and IH: "rows holds inst l = query_rows holds inst (ptabs l) (pconds l)"
      "rows holds inst r = query_rows holds inst (ptabs r) (pconds r)" by auto
  let ?p = "JoinPlan tag l r conds type"
  show ?case
  proof (intro set_eqI iffI)
    fix m assume "m \<in> rows holds inst ?p"
    then obtain m1 m2 where "m1 \<in> rows holds inst l" "m2 \<in> rows holds inst r" "m = m1 ++ m2" "\<forall>c\<in>set conds. holds c m"
      by auto
    then show "m \<in> query_rows holds inst (ptabs ?p) (pconds ?p)"
      using query_rows_join [OF wf, of m1 inst m2] IH by (auto simp: query_rows_def)
  next
    fix m assume m: "m \<in> query_rows holds inst (ptabs ?p) (pconds ?p)"
    have "m |` set (ptabs l) \<in> rows holds inst l" "m |` set (ptabs r) \<in> rows holds inst r"
      unfolding IH by (rule query_rows_split [OF _ _ _ m]; use wf in auto)+
    moreover have "m = m |` set (ptabs l) ++ m |` set (ptabs r)"
    proof
      fix t
      have "m t = None" if "t \<notin> set (ptabs l)" "t \<notin> set (ptabs r)"
        using m that by (auto simp: query_rows_def)
      then show "m t = (m |` set (ptabs l) ++ m |` set (ptabs r)) t"
        by (cases "m t") (auto simp: map_add_def restrict_map_def split: option.splits)
    qed
    moreover have "\<forall>c\<in>set conds. holds c m" using m by (auto simp: query_rows_def)
    ultimately show "m \<in> rows holds inst ?p" by auto
  qed
qed auto

end

section \<open>Attaching a condition to a join tree\<close>

definition coverage :: "Condition \<Rightarrow> string set \<Rightarrow> ConditionCoverage" where
  "coverage c P =
     (if tab_name (lhs_col c) \<in> P then CLhs else if tab_name (rhs_col c) \<in> P then CRhs else CNone)"

lemma join_tree_induct [consumes 1, case_names Scan Join]:
  assumes "join_tree p"
    and "\<And>tag tab cols conds len fed ix. P (ScanPlan tag tab cols conds len fed ix)"
    and "\<And>l r conds type. join_tree l \<Longrightarrow> join_tree r \<Longrightarrow> P l \<Longrightarrow> P r \<Longrightarrow> P (JoinPlan T_NestLoop l r conds type)"
  shows "P p"
  using assms(1) by (induction p) (auto intro: assms(2,3))

lemma attach_outside:
  "plan_wf p \<Longrightarrow> join_tree p \<Longrightarrow> \<not> (tab_name (lhs_col c) \<in> set (ptabs p) \<and> tab_name (rhs_col c) \<in> set (ptabs p)) \<Longrightarrow>
   attach_join_condition c p = (coverage c (set (ptabs p)), p)"
proof (induction p)
  case (JoinPlan tag l r conds type)
  then have "attach_join_condition c l = (coverage c (set (ptabs l)), l)"
    "attach_join_condition c r = (coverage c (set (ptabs r)), r)" by auto
  with JoinPlan.prems show ?case by (auto simp: coverage_def)
qed (auto simp: coverage_def)

context condition_semantics
begin

text \<open>A condition on two tables of the tree is attached exactly once, the right way round.\<close>

lemma attach_inside:
  assumes "plan_wf p" "join_tree p" "\<not> is_rhs_val c" "tab_name (lhs_col c) \<noteq> tab_name (rhs_col c)"
    "tab_name (lhs_col c) \<in> set (ptabs p)" "tab_name (rhs_col c) \<in> set (ptabs p)"
  shows "\<exists>p'. attach_join_condition c p = (CBoth, p') \<and> plan_wf p' \<and> join_tree p' \<and> ptabs p' = ptabs p \<and>
    (\<forall>m. sat p' m \<longleftrightarrow> sat p m \<and> holds c m)"
  using assms(2,1,5,6)
proof (induction p rule: join_tree_induct)
  case (Scan tag tab cols conds len fed ix)
  then show ?case using assms(4) by simp
next
  case (Join l r conds type)
  let ?a = "tab_name (lhs_col c)" and ?b = "tab_name (rhs_col c)"
  from Join.prems Join.hyps have wf: "plan_wf l" "plan_wf r" "join_tree l" "join_tree r" "set (ptabs l) \<inter> set (ptabs r) = {}"
    by auto
  consider (left) "?a \<in> set (ptabs l)" "?b \<in> set (ptabs l)" | (right) "?a \<in> set (ptabs r)" "?b \<in> set (ptabs r)"
    | (lr) "?a \<in> set (ptabs l)" "?b \<in> set (ptabs r)" | (rl) "?b \<in> set (ptabs l)" "?a \<in> set (ptabs r)"
    using Join.prems Join.hyps by auto
  then show ?case
  proof cases
    case left
    with Join.IH(1) [OF wf(1)] obtain l' where
      "attach_join_condition c l = (CBoth, l')" "plan_wf l'" "join_tree l'" "ptabs l' = ptabs l"
      "\<forall>m. sat l' m \<longleftrightarrow> sat l m \<and> holds c m" by blast
    with Join.prems Join.hyps show ?thesis
      by (intro exI [of _ "JoinPlan T_NestLoop l' r conds type"]) (use assms(3) in \<open>simp add: ball_Un conj_ac\<close>)
  next
    case right
    with Join.IH(2) [OF wf(2)] obtain r' where
      "attach_join_condition c r = (CBoth, r')" "plan_wf r'" "join_tree r'" "ptabs r' = ptabs r"
      "\<forall>m. sat r' m \<longleftrightarrow> sat r m \<and> holds c m" by blast
    moreover have "?a \<notin> set (ptabs l)" "?b \<notin> set (ptabs l)" using right wf(5) by auto
    then have "attach_join_condition c l = (CNone, l)"
      using attach_outside [OF wf(1,3), of c] by (simp add: coverage_def)
    ultimately show ?thesis using Join.prems Join.hyps
      by (intro exI [of _ "JoinPlan T_NestLoop l r' conds type"]) (use assms(3) in \<open>simp add: ball_Un conj_ac\<close>)
  next
    case lr
    then have "?b \<notin> set (ptabs l)" "?a \<notin> set (ptabs r)" using wf(5) by auto
    then have "attach_join_condition c l = (CLhs, l)" "attach_join_condition c r = (CRhs, r)"
      using attach_outside [OF wf(1,3), of c] attach_outside [OF wf(2,4), of c] lr by (simp_all add: coverage_def)
    with Join.prems Join.hyps lr show ?thesis
      by (intro exI [of _ "JoinPlan T_NestLoop l r (conds @ [c]) type"]) (use assms(3) in \<open>simp add: ball_Un conj_ac\<close>)
  next
    case rl
    then have "?a \<notin> set (ptabs l)" "?b \<notin> set (ptabs r)" using wf(5) by auto
    then have "attach_join_condition c l = (CRhs, l)" "attach_join_condition c r = (CLhs, r)"
      using attach_outside [OF wf(1,3), of c] attach_outside [OF wf(2,4), of c] rl by (simp_all add: coverage_def)
    with Join.prems Join.hyps rl holds_swap [OF assms(3)] show ?thesis
      by (intro exI [of _ "JoinPlan T_NestLoop l r (conds @ [swap_condition c]) type"]) (use assms(3) in \<open>simp add: ball_Un conj_ac\<close>)
  qed
qed

end

section \<open>Sharing out the conditions\<close>

lemma take_table_conditions_sets:
  "take_table_conditions cs t = (mine, rest) \<Longrightarrow>
   set mine = {c\<in>set cs. table_condition t c} \<and> set rest = {c\<in>set cs. \<not> table_condition t c}"
proof (induction cs arbitrary: mine rest)
  case Nil
  then show ?case by simp
next
  case (Cons c cs)
  obtain a b where ab: "take_table_conditions cs t = (a, b)" by fastforce
  show ?case
  proof (cases "table_condition t c")
    case True
    with Cons.prems ab have "mine = c # a" "rest = b" by simp_all
    with Cons.IH [OF ab] True show ?thesis by auto
  next
    case False
    with Cons.prems ab have "mine = a" "rest = c # b" by simp_all
    with Cons.IH [OF ab] False show ?thesis by auto
  qed
qed

lemma make_scan_plan_Inr:
  assumes "\<exists>table. get_table db t = Inr table"
  shows "\<exists>tag cols len ix. make_scan_plan db t conds = Inr (ScanPlan tag t cols conds len conds ix)"
  using assms by (auto simp: make_scan_plan_def choose_index_def ScanPlan_make_def Let_def simp del: bindE_Inr_iff)

definition scan_of :: "string \<Rightarrow> plan \<Rightarrow> bool" where
  "scan_of t p \<longleftrightarrow> plan_wf p \<and> join_tree p \<and> ptabs p = [t]"

lemma make_scans_Inr:
  assumes "\<forall>t\<in>set tables. \<exists>table. get_table db t = Inr table"
  shows "\<exists>ps rest. make_scans db tables conds = Inr (ps, rest) \<and> list_all2 scan_of tables ps \<and>
    set conds = (\<Union>p\<in>set ps. set (pconds p)) \<union> set rest \<and> (\<forall>c\<in>set rest. \<forall>t\<in>set tables. \<not> table_condition t c)"
  using assms
proof (induction tables arbitrary: conds)
  case Nil
  then show ?case by simp
next
  case (Cons t tables)
  obtain mine rest where m: "take_table_conditions conds t = (mine, rest)" by fastforce
  note sets = take_table_conditions_sets [OF m]
  obtain tag cols len ix where p: "make_scan_plan db t mine = Inr (ScanPlan tag t cols mine len mine ix)"
    using make_scan_plan_Inr [of db t mine] Cons.prems by auto
  obtain ps left where ps: "make_scans db tables rest = Inr (ps, left)" "list_all2 scan_of tables ps"
    "set rest = (\<Union>p\<in>set ps. set (pconds p)) \<union> set left" "\<forall>c\<in>set left. \<forall>t\<in>set tables. \<not> table_condition t c"
    using Cons.IH [of rest] Cons.prems by auto
  have "scan_of t (ScanPlan tag t cols mine len mine ix)" using sets by (auto simp: scan_of_def)
  moreover have "set conds = set mine \<union> set rest" using sets by auto
  moreover have "\<forall>c\<in>set left. \<not> table_condition t c" using sets ps(3) by auto
  ultimately show ?case using m p ps by auto
qed

lemma table_index_nth:
  "t \<in> set tables \<Longrightarrow> \<exists>i<length tables. table_index tables t = Inr i \<and> tables ! i = t"
  by (induction tables) (auto split: if_splits)

section \<open>The join loop\<close>

text \<open>
  \<open>covers J D p\<close>: the tree \<open>p\<close> joins exactly the scans with an index in \<open>J\<close> and requires, beside the scans' own conditions,
  exactly the conditions in \<open>D\<close>. \<open>st_rel J st\<close>: the planner's vectors record that exactly these scans are used up.
\<close>

definition covers ::
  "(Condition \<Rightarrow> (string \<Rightarrow> 'r option) \<Rightarrow> bool) \<Rightarrow> string list \<Rightarrow> plan list \<Rightarrow> nat set \<Rightarrow> Condition set \<Rightarrow> plan \<Rightarrow> bool" where
  "covers holds tables scans J D p \<longleftrightarrow>
     plan_wf p \<and> join_tree p \<and> J \<subseteq> {..<length tables} \<and> set (ptabs p) = (!) tables ` J \<and>
     (\<forall>m. (\<forall>c\<in>set (pconds p). holds c m) \<longleftrightarrow> (\<forall>i\<in>J. \<forall>c\<in>set (pconds (scans ! i)). holds c m) \<and> (\<forall>c\<in>D. holds c m))"

definition st_rel :: "plan list \<Rightarrow> nat set \<Rightarrow> scan_state \<Rightarrow> bool" where
  "st_rel scans J st \<longleftrightarrow>
     (case st of (joined, sp) \<Rightarrow> length joined = length scans \<and> length sp = length scans \<and>
        (\<forall>i<length scans. (joined ! i \<longleftrightarrow> i \<in> J) \<and> sp ! i = (if i \<in> J then None else Some (scans ! i))))"

lemma st_rel_joined: "st_rel scans J (joined, sp) \<Longrightarrow> i < length scans \<Longrightarrow> joined ! i \<longleftrightarrow> i \<in> J"
  by (simp add: st_rel_def)

lemma take_scan_plan_rel:
  assumes "st_rel scans J st" "i < length scans" "i \<notin> J"
  shows "\<exists>st'. take_scan_plan i st = Inr (scans ! i, st') \<and> st_rel scans (insert i J) st'"
proof -
  obtain joined sp where st: "st = (joined, sp)" by fastforce
  have "take_scan_plan i st = Inr (scans ! i, joined[i := True], sp[i := None])"
    using assms by (simp add: st st_rel_def take_scan_plan_def)
  moreover have "st_rel scans (insert i J) (joined[i := True], sp[i := None])"
    using assms by (auto simp: st st_rel_def nth_list_update)
  ultimately show ?thesis by blast
qed

definition join_cond :: "string list \<Rightarrow> Condition \<Rightarrow> bool" where
  "join_cond tables c \<longleftrightarrow>
     \<not> is_rhs_val c \<and> tab_name (lhs_col c) \<in> set tables \<and> tab_name (rhs_col c) \<in> set tables \<and>
     tab_name (lhs_col c) \<noteq> tab_name (rhs_col c)"

context condition_semantics
begin

lemma covers_scan: "list_all2 scan_of tables scans \<Longrightarrow> i < length tables \<Longrightarrow> covers holds tables scans {i} {} (scans ! i)"
  by (auto simp: covers_def list_all2_conv_all_nth scan_of_def)

lemma covers_equiv:
  "covers holds tables scans J D p \<Longrightarrow> (\<And>m. (\<forall>c\<in>D. holds c m) \<longleftrightarrow> (\<forall>c\<in>D'. holds c m)) \<Longrightarrow> covers holds tables scans J D' p"
  by (simp add: covers_def)

lemma covers_join:
  assumes "covers holds tables scans J D p" "covers holds tables scans K E q" "J \<inter> K = {}" "distinct tables"
    "\<forall>c\<in>set conds. \<not> is_rhs_val c \<and> tab_name (lhs_col c) \<in> set (ptabs p) \<and> tab_name (rhs_col c) \<in> set (ptabs q)"
  shows "covers holds tables scans (J \<union> K) (D \<union> E \<union> set conds) (JoinPlan_make T_NestLoop p q conds)"
proof -
  have "set (ptabs p) \<inter> set (ptabs q) = {}"
  proof (rule ccontr)
    assume "set (ptabs p) \<inter> set (ptabs q) \<noteq> {}"
    then obtain i j where ij: "i \<in> J" "j \<in> K" "tables ! i = tables ! j" using assms(1,2) by (auto simp: covers_def)
    then have "i < length tables" "j < length tables" using assms(1,2) by (auto simp: covers_def)
    with ij assms(4) have "i = j" by (simp add: nth_eq_iff_index_eq)
    with ij assms(3) show False by auto
  qed
  then have "plan_wf (JoinPlan_make T_NestLoop p q conds)" using assms(1,2,5) by (simp add: covers_def JoinPlan_make_def)
  moreover have "sat p m \<longleftrightarrow> (\<forall>i\<in>J. sat (scans ! i) m) \<and> (\<forall>c\<in>D. holds c m)" for m using assms(1) by (simp add: covers_def)
  moreover have "sat q m \<longleftrightarrow> (\<forall>i\<in>K. sat (scans ! i) m) \<and> (\<forall>c\<in>E. holds c m)" for m using assms(2) by (simp add: covers_def)
  ultimately have "sat (JoinPlan_make T_NestLoop p q conds) m \<longleftrightarrow>
      (\<forall>i\<in>J \<union> K. sat (scans ! i) m) \<and> (\<forall>c\<in>D \<union> E \<union> set conds. holds c m)" for m
    by (simp add: JoinPlan_make_def ball_Un conj_ac)
  moreover have "join_tree (JoinPlan_make T_NestLoop p q conds)" "J \<union> K \<subseteq> {..<length tables}"
    "set (ptabs (JoinPlan_make T_NestLoop p q conds)) = (!) tables ` (J \<union> K)"
    using assms(1,2) by (auto simp: covers_def JoinPlan_make_def)
  ultimately show ?thesis using \<open>plan_wf (JoinPlan_make T_NestLoop p q conds)\<close> unfolding covers_def by blast
qed

lemma covers_swap:
  "\<not> is_rhs_val c \<Longrightarrow> covers holds tables scans J (D \<union> {swap_condition c}) p \<Longrightarrow> covers holds tables scans J (insert c D) p"
  by (erule covers_equiv) (auto simp: holds_swap)

lemma join_step_inv:
  assumes d: "distinct tables" and l2: "list_all2 scan_of tables scans" and c: "join_cond tables c"
    and cov: "covers holds tables scans J D root" and rel: "st_rel scans J st"
  shows "\<exists>root' J' st'. join_step tables c (root, st) = Inr (root', st') \<and>
    covers holds tables scans J' (insert c D) root' \<and> st_rel scans J' st' \<and> J \<subseteq> J'"
proof -
  obtain joined sp where st: "st = (joined, sp)" by fastforce
  have n: "length scans = length tables" using l2 by (simp add: list_all2_lengthD)
  obtain a b where a: "a < length tables" "table_index tables (tab_name (lhs_col c)) = Inr a" "tables ! a = tab_name (lhs_col c)"
    and b: "b < length tables" "table_index tables (tab_name (rhs_col c)) = Inr b" "tables ! b = tab_name (rhs_col c)"
    using c table_index_nth [of _ tables] unfolding join_cond_def by meson
  have ab: "a \<noteq> b" using c a b by (auto simp: join_cond_def)
  have val: "\<not> is_rhs_val c" using c by (simp add: join_cond_def)
  have ja: "joined ! a \<longleftrightarrow> a \<in> J" and jb: "joined ! b \<longleftrightarrow> b \<in> J"
    using rel a b n st_rel_joined [of scans J joined sp] by (auto simp: st)
  have tab: "tables ! i \<in> set (ptabs root) \<longleftrightarrow> i \<in> J" if "i < length tables" for i
  proof -
    have J: "J \<subseteq> {..<length tables}" "set (ptabs root) = (!) tables ` J" using cov by (simp_all add: covers_def)
    then show ?thesis using that d nth_eq_iff_index_eq [OF d that] by auto
  qed
  have sc: "ptabs (scans ! i) = [tables ! i]" if "i < length tables" for i
    using l2 that by (simp add: list_all2_conv_all_nth scan_of_def)
  note cs = covers_scan [OF l2]
  consider (none) "a \<notin> J" "b \<notin> J" | (newa) "a \<notin> J" "b \<in> J" | (newb) "a \<in> J" "b \<notin> J" | (both) "a \<in> J" "b \<in> J" by blast
  then show ?thesis
  proof cases
    case none
    obtain st1 where s1: "take_scan_plan a st = Inr (scans ! a, st1)" "st_rel scans (insert a J) st1"
      using take_scan_plan_rel [OF rel, of a] a n none by metis
    obtain st2 where s2: "take_scan_plan b st1 = Inr (scans ! b, st2)" "st_rel scans (insert b (insert a J)) st2"
      using take_scan_plan_rel [OF s1(2), of b] b n none ab by (metis insert_iff)
    have "covers holds tables scans ({a} \<union> {b}) ({} \<union> {} \<union> set [c]) (JoinPlan_make T_NestLoop (scans ! a) (scans ! b) [c])"
      by (rule covers_join [OF cs cs _ d]) (use a b ab val sc in auto)
    from covers_join [OF this cov _ d, of "[]"] none
    have "covers holds tables scans (insert b (insert a J)) (insert c D)
        (JoinPlan_make T_NestLoop (JoinPlan_make T_NestLoop (scans ! a) (scans ! b) [c]) root [])"
      by (simp add: insert_commute)
    with none s1 s2 a b ja jb show ?thesis by (auto simp: join_step_def st Let_def simp del: bindE_Inr_iff)
  next
    case newa
    obtain st1 where s1: "take_scan_plan a st = Inr (scans ! a, st1)" "st_rel scans (insert a J) st1"
      using take_scan_plan_rel [OF rel, of a] a n newa by metis
    have "covers holds tables scans ({a} \<union> J) ({} \<union> D \<union> set [c]) (JoinPlan_make T_NestLoop (scans ! a) root [c])"
      by (rule covers_join [OF cs cov _ d]) (use a b newa val sc tab [of b] in auto)
    with newa s1 a b ja jb show ?thesis by (auto simp: join_step_def st Let_def simp del: bindE_Inr_iff)
  next
    case newb
    obtain st1 where s1: "take_scan_plan b st = Inr (scans ! b, st1)" "st_rel scans (insert b J) st1"
      using take_scan_plan_rel [OF rel, of b] b n newb by metis
    have "covers holds tables scans ({b} \<union> J) ({} \<union> D \<union> set [swap_condition c])
        (JoinPlan_make T_NestLoop (scans ! b) root [swap_condition c])"
      by (rule covers_join [OF cs cov _ d]) (use a b newb val sc tab [of a] in auto)
    then have "covers holds tables scans (insert b J) (insert c D) (JoinPlan_make T_NestLoop (scans ! b) root [swap_condition c])"
      using covers_swap [OF val, of tables scans "insert b J" D] by simp
    with newb s1 a b ja jb show ?thesis by (auto simp: join_step_def st Let_def simp del: bindE_Inr_iff)
  next
    case both
    have p: "plan_wf root" "join_tree root" using cov by (simp_all add: covers_def)
    have ne: "tab_name (lhs_col c) \<noteq> tab_name (rhs_col c)" using c by (simp add: join_cond_def)
    have ins: "tab_name (lhs_col c) \<in> set (ptabs root)" "tab_name (rhs_col c) \<in> set (ptabs root)"
      using both tab [of a] tab [of b] a b by simp_all
    obtain root' where r: "attach_join_condition c root = (CBoth, root')" "plan_wf root'" "join_tree root'"
      "ptabs root' = ptabs root" "\<And>m. sat root' m \<longleftrightarrow> sat root m \<and> holds c m"
      using attach_inside [OF p val ne ins] by blast
    have "covers holds tables scans J (insert c D) root'" using cov r(2-5) by (simp add: covers_def conj_ac)
    with both r rel a b ja jb show ?thesis by (auto simp: join_step_def st Let_def simp del: bindE_Inr_iff)
  qed
qed

end

section \<open>The whole tree\<close>

context condition_semantics
begin

lemma join_loop_inv:
  assumes "distinct tables" "list_all2 scan_of tables scans" "\<forall>c\<in>set cs. join_cond tables c"
    "covers holds tables scans J D root" "st_rel scans J st"
  shows "\<exists>root' J' st'. foldE (join_step tables) cs (root, st) = Inr (root', st') \<and>
    covers holds tables scans J' (D \<union> set cs) root' \<and> st_rel scans J' st' \<and> J \<subseteq> J'"
  using assms(3-5)
proof (induction cs arbitrary: J D root st)
  case Nil
  then show ?case by auto
next
  case (Cons c cs)
  obtain root1 J1 st1 where s: "join_step tables c (root, st) = Inr (root1, st1)"
    "covers holds tables scans J1 (insert c D) root1" "st_rel scans J1 st1" "J \<subseteq> J1"
    using join_step_inv [OF assms(1,2) _ Cons.prems(2,3), of c] Cons.prems(1) by auto
  obtain root2 J2 st2 where "foldE (join_step tables) cs (root1, st1) = Inr (root2, st2)"
    "covers holds tables scans J2 (insert c D \<union> set cs) root2" "st_rel scans J2 st2" "J1 \<subseteq> J2"
    using Cons.IH [OF _ s(2,3)] Cons.prems(1) by auto
  with s show ?case by (intro exI [of _ root2] exI [of _ J2] exI [of _ st2]) auto
qed

lemma cross_loop_inv:
  assumes "distinct tables" "list_all2 scan_of tables scans" "\<forall>i\<in>set is. i < length tables"
    "covers holds tables scans J D root" "st_rel scans J st"
  shows "\<exists>root' J' st'. foldE cross_step is (root, st) = Inr (root', st') \<and>
    covers holds tables scans J' D root' \<and> J \<union> set is \<subseteq> J'"
  using assms(3-5)
proof (induction "is" arbitrary: J root st)
  case Nil
  then show ?case by auto
next
  case (Cons i js)
  obtain joined sp where st: "st = (joined, sp)" by fastforce
  have n: "length scans = length tables" using assms(2) by (simp add: list_all2_lengthD)
  have i: "i < length tables" using Cons.prems(1) by simp
  have j: "joined ! i \<longleftrightarrow> i \<in> J" using Cons.prems(3) i n st_rel_joined by (simp add: st)
  obtain root1 J1 st1 where s: "cross_step i (root, st) = Inr (root1, st1)" "covers holds tables scans J1 D root1"
    "st_rel scans J1 st1" "insert i J \<subseteq> J1"
  proof (cases "i \<in> J")
    case True
    with that [of root st J] Cons.prems(2,3) j show thesis by (auto simp: cross_step_def st)
  next
    case False
    obtain st1 where t: "take_scan_plan i st = Inr (scans ! i, st1)" "st_rel scans (insert i J) st1"
      using take_scan_plan_rel [OF Cons.prems(3), of i] i n False by metis
    have "covers holds tables scans ({i} \<union> J) ({} \<union> D \<union> set []) (JoinPlan_make T_NestLoop (scans ! i) root [])"
      by (rule covers_join [OF covers_scan [OF assms(2) i] Cons.prems(2) _ assms(1)]) (use False in auto)
    then show thesis
      by (intro that [of "JoinPlan_make T_NestLoop (scans ! i) root []" st1 "insert i J"])
        (use t False j in \<open>simp_all add: cross_step_def st del: bindE_Inr_iff\<close>)
  qed
  obtain root2 J2 st2 where "foldE cross_step js (root1, st1) = Inr (root2, st2)" "covers holds tables scans J2 D root2"
    "J1 \<union> set js \<subseteq> J2"
    using Cons.IH [OF _ s(2,3)] Cons.prems(1) by auto
  with s show ?case by (intro exI [of _ root2] exI [of _ J2] exI [of _ st2]) auto
qed

lemma first_join_inv:
  assumes "distinct tables" "list_all2 scan_of tables scans" "\<forall>c\<in>set cs. join_cond tables c" "tables \<noteq> []"
    "st_rel scans {} st"
  shows "\<exists>root J st'. first_join tables cs st = Inr (root, st') \<and>
    covers holds tables scans J (set (take 1 cs)) root \<and> st_rel scans J st'"
proof -
  have n: "length scans = length tables" using assms(2) by (simp add: list_all2_lengthD)
  show ?thesis
  proof (cases cs)
    case Nil
    have "0 < length tables" using assms(4) by simp
    then obtain st1 where "take_scan_plan 0 st = Inr (scans ! 0, st1)" "st_rel scans (insert 0 {}) st1"
      using take_scan_plan_rel [OF assms(5), of 0] n by (metis empty_iff)
    with covers_scan [OF assms(2), of 0] \<open>0 < length tables\<close> Nil show ?thesis by (auto simp: first_join_def)
  next
    case (Cons c rest)
    then have c: "join_cond tables c" using assms(3) by simp
    obtain a b where a: "a < length tables" "table_index tables (tab_name (lhs_col c)) = Inr a" "tables ! a = tab_name (lhs_col c)"
      and b: "b < length tables" "table_index tables (tab_name (rhs_col c)) = Inr b" "tables ! b = tab_name (rhs_col c)"
      using c table_index_nth [of _ tables] unfolding join_cond_def by meson
    have ab: "a \<noteq> b" using c a b by (auto simp: join_cond_def)
    obtain st1 where s1: "take_scan_plan a st = Inr (scans ! a, st1)" "st_rel scans (insert a {}) st1"
      using take_scan_plan_rel [OF assms(5), of a] a n by (metis empty_iff)
    obtain st2 where s2: "take_scan_plan b st1 = Inr (scans ! b, st2)" "st_rel scans (insert b (insert a {})) st2"
      using take_scan_plan_rel [OF s1(2), of b] b n ab by (metis insert_iff empty_iff)
    have "ptabs (scans ! i) = [tables ! i]" if "i < length tables" for i
      using assms(2) that by (simp add: list_all2_conv_all_nth scan_of_def)
    then have "covers holds tables scans ({a} \<union> {b}) ({} \<union> {} \<union> set [c]) (JoinPlan_make T_NestLoop (scans ! a) (scans ! b) [c])"
      by (intro covers_join [OF covers_scan [OF assms(2) a(1)] covers_scan [OF assms(2) b(1)] _ assms(1)])
        (use a b ab c in \<open>auto simp: join_cond_def\<close>)
    with s1 s2 a b Cons show ?thesis
      by (intro exI [of _ "JoinPlan_make T_NestLoop (scans ! a) (scans ! b) [c]"] exI [of _ "insert b (insert a {})"] exI [of _ st2])
        (simp add: first_join_def insert_commute del: bindE_Inr_iff)
  qed
qed

lemma build_join_tree_covers:
  assumes "distinct tables" "list_all2 scan_of tables scans" "\<forall>c\<in>set cs. join_cond tables c" "tables \<noteq> []"
  shows "\<exists>root. build_join_tree tables (map Some scans) cs = Inr root \<and>
    covers holds tables scans {..<length tables} (set cs) root"
proof -
  have n: "length scans = length tables" using assms(2) by (simp add: list_all2_lengthD)
  have "st_rel scans {} (replicate (length tables) False, map Some scans)" by (simp add: st_rel_def n)
  then obtain r0 J0 st0 where r0: "first_join tables cs (replicate (length tables) False, map Some scans) = Inr (r0, st0)"
    "covers holds tables scans J0 (set (take 1 cs)) r0" "st_rel scans J0 st0"
    using first_join_inv [OF assms] by blast
  have tl: "\<forall>c\<in>set (tl cs). join_cond tables c" using assms(3) by (cases cs) auto
  obtain r1 J1 st1 where r1: "foldE (join_step tables) (tl cs) (r0, st0) = Inr (r1, st1)"
    "covers holds tables scans J1 (set (take 1 cs) \<union> set (tl cs)) r1" "st_rel scans J1 st1"
    using join_loop_inv [OF assms(1,2) tl r0(2,3)] by blast
  have "\<forall>i\<in>set [0..<length tables]. i < length tables" by simp
  then obtain r2 J2 st2 where r2: "foldE cross_step [0..<length tables] (r1, st1) = Inr (r2, st2)"
    "covers holds tables scans J2 (set (take 1 cs) \<union> set (tl cs)) r2" "J1 \<union> set [0..<length tables] \<subseteq> J2"
    using cross_loop_inv [OF assms(1,2) _ r1(2,3)] by blast
  have "set (take 1 cs) \<union> set (tl cs) = set cs" by (cases cs) auto
  moreover have "J2 = {..<length tables}" using r2(2,3) by (auto simp: covers_def)
  ultimately show ?thesis using r0(1) r1(1) r2 by (auto simp: build_join_tree_def simp del: bindE_Inr_iff)
qed

end

section \<open>From the query to the plan\<close>

lemma rest_join_cond:
  assumes "cond_tabs c \<subseteq> set tables" "\<forall>t\<in>set tables. \<not> table_condition t c"
  shows "join_cond tables c"
  using assms by (auto simp: cond_tabs_def table_condition_def join_cond_def split: if_splits)

lemma find_split: "find P xs = Some x \<Longrightarrow>
  xs = takeWhile (\<lambda>y. \<not> P y) xs @ x # drop (Suc (length (takeWhile (\<lambda>y. \<not> P y) xs))) xs"
  by (induction xs) (auto split: if_splits)

lemma set_rotate_key: "find is_merge_key cs = Some key \<Longrightarrow> set (rotate_key cs key) = set cs"
proof -
  assume "find is_merge_key cs = Some key"
  from arg_cong [OF find_split [OF this], of set] show ?thesis by (auto simp: rotate_key_def Let_def)
qed

lemma choose_join_algorithm_wf:
  "join_tree p \<Longrightarrow> plan_wf p \<Longrightarrow>
   plan_wf (choose_join_algorithm sm p) \<and> ptabs (choose_join_algorithm sm p) = ptabs p \<and>
   set (pconds (choose_join_algorithm sm p)) = set (pconds p)"
proof (induction p rule: join_tree_induct)
  case (Scan tag tab cols conds len fed ix)
  then show ?case by simp
next
  case (Join l r conds type)
  show ?case
  proof (cases "sm \<and> find is_merge_key conds \<noteq> None")
    case False
    then have "choose_join_algorithm sm (JoinPlan T_NestLoop l r conds type) =
        JoinPlan T_NestLoop (choose_join_algorithm sm l) (choose_join_algorithm sm r) conds type"
      by (auto simp: Let_def split: option.splits)
    with Join.IH Join.prems show ?thesis by simp
  next
    case True
    then obtain key where key: "find is_merge_key conds = Some key" by auto
    with True have "choose_join_algorithm sm (JoinPlan T_NestLoop l r conds type) =
        JoinPlan T_SortMerge (SortPlan T_Sort (choose_join_algorithm sm l) (lhs_col key) False)
          (SortPlan T_Sort (choose_join_algorithm sm r) (rhs_col key) False) (rotate_key conds key) type"
      by (simp add: Let_def)
    moreover obtain rest where rest: "rotate_key conds key = key # rest" by (simp add: rotate_key_def Let_def)
    moreover have "set conds = insert key (set rest)" using set_rotate_key [OF key] rest by simp
    ultimately show ?thesis using Join.IH Join.prems find_first [OF key] by simp
  qed
qed

lemma get_table_names_nonempty: "get_table_names f = Inr ts \<Longrightarrow> ts \<noteq> []"
proof (induction f arbitrary: ts rule: get_table_names.induct)
  case (3 type l r c)
  then obtain ls rs where "get_table_names l = Inr ls" "ts = ls @ rs" "ls \<noteq> []" by (auto split: if_splits)
  then show ?case by simp
qed (auto split: if_splits sum.splits)

lemma cond_ok_tabs: "cond_ok db tables c \<Longrightarrow> cond_tabs c \<subseteq> set tables"
  by (auto simp: cond_ok_def cond_tabs_def col_of_def split: if_splits)

lemma query_rows_cong:
  "set ts = set ts' \<Longrightarrow> (\<And>m. (\<forall>c\<in>set cs. holds c m) \<longleftrightarrow> (\<forall>c\<in>set cs'. holds c m)) \<Longrightarrow>
   query_rows holds inst ts cs = query_rows holds inst ts' cs'"
  by (simp add: query_rows_def)

context condition_semantics
begin

lemma build_from_plan_sat:
  assumes "distinct (bound_tables q)" "bound_tables q \<noteq> []" "\<forall>t\<in>set (bound_tables q). \<exists>table. get_table db t = Inr table"
    "\<forall>c\<in>set (bound_conds q). cond_tabs c \<subseteq> set (bound_tables q)"
  shows "\<exists>p. build_from_plan db q = Inr p \<and> plan_wf p \<and> join_tree p \<and> set (ptabs p) = set (bound_tables q) \<and>
    (\<forall>m. sat p m \<longleftrightarrow> (\<forall>c\<in>set (bound_conds q). holds c m))"
proof -
  let ?ts = "bound_tables q"
  obtain ps rest where ps: "make_scans db ?ts (bound_conds q) = Inr (ps, rest)" "list_all2 scan_of ?ts ps"
    "set (bound_conds q) = (\<Union>p\<in>set ps. set (pconds p)) \<union> set rest" "\<forall>c\<in>set rest. \<forall>t\<in>set ?ts. \<not> table_condition t c"
    using make_scans_Inr [OF assms(3), of "bound_conds q"] by blast
  have jc: "\<forall>c\<in>set rest. join_cond ?ts c" using rest_join_cond ps(3,4) assms(4) by blast
  have n: "length ps = length ?ts" using ps(2) by (simp add: list_all2_lengthD)
  show ?thesis
  proof (cases "length ?ts = 1")
    case True
    then obtain t where t: "?ts = [t]" by (auto simp: length_Suc_conv)
    then obtain p where p: "ps = [p]" "scan_of t p" using ps(2) by (auto simp: list_all2_Cons1)
    have "\<not> join_cond [t] c" for c by (auto simp: join_cond_def)
    with jc t have "rest = []" by (metis hd_in_set)
    then have "build_from_plan db q = Inr p" "\<forall>m. sat p m \<longleftrightarrow> (\<forall>c\<in>set (bound_conds q). holds c m)"
      using ps(1,3) t p by (simp_all add: build_from_plan_def Let_def del: bindE_Inr_iff)
    with p t show ?thesis by (simp add: scan_of_def)
  next
    case False
    obtain root where r: "build_join_tree ?ts (map Some ps) rest = Inr root"
      "covers holds ?ts ps {..<length ?ts} (set rest) root"
      using build_join_tree_covers [OF assms(1) ps(2) jc assms(2)] by blast
    have "build_from_plan db q = Inr root"
      using ps(1) r(1) False assms(2) by (simp add: build_from_plan_def Let_def del: bindE_Inr_iff)
    moreover have "set (ptabs root) = set ?ts" using r(2) unfolding covers_def by (metis atLeast_upt map_nth set_map)
    moreover have "(\<forall>i\<in>{..<length ?ts}. sat (ps ! i) m) \<longleftrightarrow> (\<forall>p\<in>set ps. sat p m)" for m
      by (auto simp: all_set_conv_all_nth n)
    then have "sat root m \<longleftrightarrow> (\<forall>p\<in>set ps. sat p m) \<and> (\<forall>c\<in>set rest. holds c m)" for m
      using r(2) unfolding covers_def by presburger
    then have "sat root m \<longleftrightarrow> (\<forall>c\<in>set (bound_conds q). holds c m)" for m unfolding ps(3) by blast
    ultimately show ?thesis using r(2) by (simp add: covers_def)
  qed
qed

lemma physical_optimization_rows:
  assumes "distinct (bound_tables q)" "bound_tables q \<noteq> []" "\<forall>t\<in>set (bound_tables q). \<exists>table. get_table db t = Inr table"
    "\<forall>c\<in>set (bound_conds q). cond_tabs c \<subseteq> set (bound_tables q)"
    "\<forall>tc. bound_order_col q = Some tc \<longrightarrow> tab_name tc \<in> set (bound_tables q)"
  shows "\<exists>root. physical_optimization db sm q = Inr root \<and> plan_wf root \<and>
    rows holds inst root = query_rows holds inst (bound_tables q) (bound_conds q)"
proof -
  obtain p where p: "build_from_plan db q = Inr p" "plan_wf p" "join_tree p" "set (ptabs p) = set (bound_tables q)"
    "\<forall>m. sat p m \<longleftrightarrow> (\<forall>c\<in>set (bound_conds q). holds c m)"
    using build_from_plan_sat [OF assms(1-4)] by blast
  let ?r = "choose_join_algorithm sm p"
  note wf = choose_join_algorithm_wf [OF p(3,2), of sm]
  have "rows holds inst ?r = query_rows holds inst (ptabs ?r) (pconds ?r)" using rows_wf wf by blast
  also have "\<dots> = query_rows holds inst (bound_tables q) (bound_conds q)"
    by (rule query_rows_cong) (use wf p in auto)
  finally have rows: "rows holds inst ?r = query_rows holds inst (bound_tables q) (bound_conds q)" .
  show ?thesis
  proof (cases "bound_order_col q")
    case None
    then show ?thesis using p(1) wf rows by (simp add: physical_optimization_def Let_def del: bindE_Inr_iff)
  next
    case (Some tc)
    then show ?thesis using p(1,4) wf rows assms(5)
      by (simp add: physical_optimization_def Let_def del: bindE_Inr_iff)
  qed
qed

end

section \<open>Evaluation by key comparison\<close>

fun op_holds :: "CompOp \<Rightarrow> int \<Rightarrow> bool" where
  "op_holds OP_EQ r \<longleftrightarrow> r = 0"
| "op_holds OP_NE r \<longleftrightarrow> r \<noteq> 0"
| "op_holds OP_LT r \<longleftrightarrow> r < 0"
| "op_holds OP_GT r \<longleftrightarrow> r > 0"
| "op_holds OP_LE r \<longleftrightarrow> r \<le> 0"
| "op_holds OP_GE r \<longleftrightarrow> r \<ge> 0"

text \<open>Strings of different lengths are compared as if padded with zero bytes, which is how \<^verbatim>\<open>init_raw\<close> stores them.\<close>

definition value_cmp :: "ColType \<Rightarrow> byte list \<Rightarrow> byte list \<Rightarrow> int" where
  "value_cmp t l r =
     (let n = max (length l) (length r) in
      col_cmp t (int n) (l @ replicate (n - length l) 0) (r @ replicate (n - length r) 0))"

definition cell :: "DbMeta \<Rightarrow> (string \<Rightarrow> (Rid \<times> byte list) option) \<Rightarrow> TabCol \<Rightarrow> (ColType \<times> byte list) option" where
  "cell db m tc =
     (case m (tab_name tc) of
        None \<Rightarrow> None
      | Some (rid, bs) \<Rightarrow>
          (case bindE (get_table db (tab_name tc)) (\<lambda>t. get_col t (col_name tc)) of
             Inl e \<Rightarrow> None
           | Inr c \<Rightarrow> Some (cm_type c, take (nat (cm_len c)) (drop (nat (cm_offset c)) bs))))"

definition eval_condition :: "DbMeta \<Rightarrow> Condition \<Rightarrow> (string \<Rightarrow> (Rid \<times> byte list) option) \<Rightarrow> bool" where
  "eval_condition db c m \<longleftrightarrow>
     (case (cell db m (lhs_col c),
            if is_rhs_val c then map_option (Pair (val_type (rhs_val c))) (raw (rhs_val c)) else cell db m (rhs_col c)) of
        (Some (t, l), Some (t', r)) \<Rightarrow> t = t' \<and> op_holds (cond_op c) (value_cmp t l r)
      | _ \<Rightarrow> False)"

lemma value_cmp_swap: "sgn (value_cmp t r l) = - sgn (value_cmp t l r)"
  unfolding value_cmp_def Let_def max.commute [of "length r"] by (rule col_cmp_swap)

lemma op_holds_reverse: "op_holds (reverse_comparison op) (value_cmp t r l) \<longleftrightarrow> op_holds op (value_cmp t l r)"
  using value_cmp_swap [of t r l] by (cases op) (auto simp: sgn_if split: if_splits)

interpretation evc: condition_semantics "eval_condition db" for db
proof unfold_locales
  fix c :: Condition and m m' :: "string \<Rightarrow> (Rid \<times> byte list) option"
  assume eq: "\<And>t. t \<in> cond_tabs c \<Longrightarrow> m t = m' t"
  have "cell db m (lhs_col c) = cell db m' (lhs_col c)" using eq [of "tab_name (lhs_col c)"] by (simp add: cell_def cond_tabs_def)
  moreover have "\<not> is_rhs_val c \<Longrightarrow> cell db m (rhs_col c) = cell db m' (rhs_col c)"
    using eq [of "tab_name (rhs_col c)"] by (simp add: cell_def cond_tabs_def)
  ultimately show "eval_condition db c m \<longleftrightarrow> eval_condition db c m'" unfolding eval_condition_def by presburger
next
  fix c :: Condition and m :: "string \<Rightarrow> (Rid \<times> byte list) option"
  assume "\<not> is_rhs_val c"
  then show "eval_condition db (swap_condition c) m \<longleftrightarrow> eval_condition db c m"
    using op_holds_reverse by (auto simp: eval_condition_def split: option.splits prod.splits)
qed

section \<open>Index choice\<close>

abbreviation usable :: "string \<Rightarrow> Condition list \<Rightarrow> IndexMeta \<Rightarrow> bool" where
  "usable table conds ix \<equiv> list_all (has_equality_condition table conds) (ix_cols ix)"

lemma choose_index_loop_spec:
  "(choose_index_loop table conds ixs acc = acc \<and>
      (\<forall>ix\<in>set ixs. usable table conds ix \<longrightarrow> length (ix_cols ix) \<le> length acc)) \<or>
   (\<exists>pre ix post. ixs = pre @ ix # post \<and> usable table conds ix \<and> length acc < length (ix_cols ix) \<and>
      choose_index_loop table conds ixs acc = map cm_name (ix_cols ix) \<and>
      (\<forall>i\<in>set pre. usable table conds i \<longrightarrow> length (ix_cols i) < length (ix_cols ix)) \<and>
      (\<forall>i\<in>set post. usable table conds i \<longrightarrow> length (ix_cols i) \<le> length (ix_cols ix)))"
proof (induction ixs arbitrary: acc)
  case Nil
  then show ?case by simp
next
  case (Cons x ixs)
  define acc' where "acc' = (if usable table conds x \<and> length acc < length (ix_cols x) then map cm_name (ix_cols x) else acc)"
  have step: "choose_index_loop table conds (x # ixs) acc = choose_index_loop table conds ixs acc'"
    by (simp add: acc'_def Let_def not_le)
  have le: "usable table conds x \<Longrightarrow> length (ix_cols x) \<le> length acc'" "length acc \<le> length acc'" by (auto simp: acc'_def)
  from Cons.IH [of acc'] show ?case
  proof
    assume "choose_index_loop table conds ixs acc' = acc' \<and>
      (\<forall>ix\<in>set ixs. usable table conds ix \<longrightarrow> length (ix_cols ix) \<le> length acc')"
    then show ?thesis
    proof (cases "acc' = acc")
      case False
      then have "usable table conds x" "length acc < length (ix_cols x)" "acc' = map cm_name (ix_cols x)"
        by (auto simp: acc'_def split: if_splits)
      with step \<open>_ \<and> _\<close> show ?thesis by (intro disjI2 exI [of _ "[]"] exI [of _ x] exI [of _ ixs]) simp
    qed (use step le in simp)
  next
    assume "\<exists>pre ix post. ixs = pre @ ix # post \<and> usable table conds ix \<and> length acc' < length (ix_cols ix) \<and>
      choose_index_loop table conds ixs acc' = map cm_name (ix_cols ix) \<and>
      (\<forall>i\<in>set pre. usable table conds i \<longrightarrow> length (ix_cols i) < length (ix_cols ix)) \<and>
      (\<forall>i\<in>set post. usable table conds i \<longrightarrow> length (ix_cols i) \<le> length (ix_cols ix))"
    then obtain pre ix post where "ixs = pre @ ix # post" "usable table conds ix" "length acc' < length (ix_cols ix)"
      "choose_index_loop table conds ixs acc' = map cm_name (ix_cols ix)"
      "\<forall>i\<in>set pre. usable table conds i \<longrightarrow> length (ix_cols i) < length (ix_cols ix)"
      "\<forall>i\<in>set post. usable table conds i \<longrightarrow> length (ix_cols i) \<le> length (ix_cols ix)" by blast
    with step le show ?thesis by (intro disjI2 exI [of _ "x # pre"] exI [of _ ix] exI [of _ post]) auto
  qed
qed

section \<open>Properties\<close>

text \<open>
  C3 (the planner keeps the meaning of a SELECT). For a well formed catalog and a SELECT over different tables that
  passed the analyzer, planning never fails, with and without sort-merge joins. Whatever the evaluation of single
  conditions is, as long as it depends only on the tables a condition names and is invariant under turning a
  comparison around, the plan below the projection returns exactly the row combinations of the FROM tables that
  satisfy all WHERE conditions, and its nodes satisfy the contract \<^verbatim>\<open>plan.h\<close> documents.
\<close>

theorem select_plan_correct:
  assumes "condition_semantics holds" "db_ok db" "analyze db (Some (Select sel)) = Inr q" "distinct (bound_tables q)"
  shows "\<exists>root. plan_query db sortmerge q = Inr (SelectPlan (ProjectionPlan T_Projection root (bound_cols q))) \<and>
    rows holds inst root = query_rows holds inst (bound_tables q) (bound_conds q) \<and> plan_wf root"
proof -
  from assms(3) have a: "analyze_select db sel (AnalyzedQuery_make (Select sel)) = Inr q" by (simp add: analyze_def)
  note l = analyze_select_Inr [OF assms(2) a]
  have st: "bound_statement q = Select sel" using l(6) by (simp add: AnalyzedQuery_make_def)
  have "bound_tables q \<noteq> []" using get_table_names_nonempty [OF l(1)] .
  moreover have "\<forall>tc. bound_order_col q = Some tc \<longrightarrow> tab_name tc \<in> set (bound_tables q)"
    using l(5) by (auto simp: col_of_def)
  ultimately obtain root where "physical_optimization db sortmerge q = Inr root" "plan_wf root"
    "rows holds inst root = query_rows holds inst (bound_tables q) (bound_conds q)"
    using condition_semantics.physical_optimization_rows [OF assms(1,4), where db = db and inst = inst and sm = sortmerge] l(2) cond_ok_tabs [OF l(3)] by blast
  then show ?thesis
    by (simp add: plan_query_def do_planner_def plan_select_def logical_optimization_def st Let_def del: bindE_Inr_iff)
qed

theorem select_plan_correct_witness:
  "\<exists>root. plan_query sample_db True sample_query = Inr (SelectPlan (ProjectionPlan T_Projection root (bound_cols sample_query))) \<and>
     rows (eval_condition sample_db) (\<lambda>t. {(Rid_default, [7, 0, 0, 0, 97, 98, 0, 0, 0, 0, 0, 0])}) root =
       query_rows (eval_condition sample_db) (\<lambda>t. {(Rid_default, [7, 0, 0, 0, 97, 98, 0, 0, 0, 0, 0, 0])})
         (bound_tables sample_query) (bound_conds sample_query)"
  using select_plan_correct [OF evc.condition_semantics_axioms sample_db_ok sample_analyze, where db1 = sample_db and sortmerge = True and inst =
      "\<lambda>t. {(Rid_default, [7, 0, 0, 0, 97, 98, 0, 0, 0, 0, 0, 0])}"]
  by (auto simp: sample_query_def)


definition sample_delete :: stmt where
  "sample_delete = DeleteStmt ''t'' (Some (BinaryExpr (Some (Col [] ''id'')) Gt (Some (IntLit 3))))"


text \<open>
  C28 (index choice). A scan of a table uses an index exactly when some index with at least one column has an
  equality with a literal for all its columns, and then it uses the first of the longest such indexes.
\<close>

theorem choose_index_best:
  assumes "get_table db table = Inr tab"
  shows "\<exists>use cols. choose_index db table conds = Inr (use, cols) \<and>
    (use \<longleftrightarrow> (\<exists>ix\<in>set (tm_indexes tab). ix_cols ix \<noteq> [] \<and> list_all (has_equality_condition table conds) (ix_cols ix))) \<and>
    (use \<longrightarrow> (\<exists>pre ix post. tm_indexes tab = pre @ ix # post \<and> cols = map cm_name (ix_cols ix) \<and>
      list_all (has_equality_condition table conds) (ix_cols ix) \<and>
      (\<forall>i\<in>set pre. list_all (has_equality_condition table conds) (ix_cols i) \<longrightarrow> length (ix_cols i) < length (ix_cols ix)) \<and>
      (\<forall>i\<in>set post. list_all (has_equality_condition table conds) (ix_cols i) \<longrightarrow> length (ix_cols i) \<le> length (ix_cols ix))))"
proof -
  let ?r = "choose_index_loop table conds (tm_indexes tab) []"
  have c: "choose_index db table conds = Inr (?r \<noteq> [], ?r)" by (simp add: choose_index_def assms Let_def)
  from choose_index_loop_spec [of table conds "tm_indexes tab" "[]"] show ?thesis
  proof
    assume "?r = [] \<and> (\<forall>ix\<in>set (tm_indexes tab). usable table conds ix \<longrightarrow> length (ix_cols ix) \<le> length ([] :: string list))"
    with c show ?thesis by auto
  next
    assume "\<exists>pre ix post. tm_indexes tab = pre @ ix # post \<and> usable table conds ix \<and> length ([] :: string list) < length (ix_cols ix) \<and>
      ?r = map cm_name (ix_cols ix) \<and> (\<forall>i\<in>set pre. usable table conds i \<longrightarrow> length (ix_cols i) < length (ix_cols ix)) \<and>
      (\<forall>i\<in>set post. usable table conds i \<longrightarrow> length (ix_cols i) \<le> length (ix_cols ix))"
    then obtain pre ix post where ix: "tm_indexes tab = pre @ ix # post" "usable table conds ix" "ix_cols ix \<noteq> []"
      "?r = map cm_name (ix_cols ix)" "\<forall>i\<in>set pre. usable table conds i \<longrightarrow> length (ix_cols i) < length (ix_cols ix)"
      "\<forall>i\<in>set post. usable table conds i \<longrightarrow> length (ix_cols i) \<le> length (ix_cols ix)" by auto
    then have "?r \<noteq> []" "\<exists>ix\<in>set (tm_indexes tab). ix_cols ix \<noteq> [] \<and> usable table conds ix" by auto
    with c ix show ?thesis by (intro exI [of _ True] exI [of _ "map cm_name (ix_cols ix)"]) auto
  qed
qed

theorem choose_index_best_witness:
  "\<exists>use cols. choose_index sample_db ''t'' (bound_conds sample_query) = Inr (use, cols) \<and> \<not> use"
  using choose_index_best [of sample_db "''t''" sample_table "bound_conds sample_query"]
  by (auto simp: get_table_def sample_db_def sample_query_def sample_table_def IndexMeta_make_def rebuild_derived_def
      has_equality_condition_def Let_def)

text \<open>
  The hypothesis that the FROM tables are different is needed: the analyzer accepts a table that is listed twice, and
  the planner then gives the conditions of the table to its first scan only.
\<close>

definition twice_select :: select_stmt where
  "twice_select =
     SelectStmt [Some (StarExpr [])]
       (Some (JoinNode Cross (Some (TableRef (Inl ''t'') [])) (Some (TableRef (Inl ''t'') [])) None))
       (Some (BinaryExpr (Some (Col ''t'' ''name'')) Eq (Some (StringLit ''ab'')))) [] None [] None"

lemma duplicate_from_unfiltered:
  "\<exists>q c cols tc. analyze sample_db (Some (Select twice_select)) = Inr q \<and> bound_conds q = [c] \<and>
     plan_query sample_db False q = Inr (SelectPlan (ProjectionPlan T_Projection
       (JoinPlan T_NestLoop (ScanPlan T_SeqScan ''t'' cols [] 12 [] []) (ScanPlan T_SeqScan ''t'' cols [c] 12 [c] []) [] Inner) tc))"
proof -
  let ?q = "(AnalyzedQuery_make (Select twice_select))
    \<lparr>bound_tables := [''t'', ''t''],
     bound_cols := [tab_col ''t'' ''id'', tab_col ''t'' ''name'', tab_col ''t'' ''id'', tab_col ''t'' ''name''],
     bound_conds := bound_conds sample_query\<rparr>"
  have a: "analyze sample_db (Some (Select twice_select)) = Inr ?q" by code_simp
  have p: "plan_query sample_db False ?q = Inr (SelectPlan (ProjectionPlan T_Projection
      (JoinPlan T_NestLoop (ScanPlan T_SeqScan ''t'' (tm_cols sample_table) [] 12 [] [])
        (ScanPlan T_SeqScan ''t'' (tm_cols sample_table) (bound_conds sample_query) 12 (bound_conds sample_query) []) [] Inner)
      (bound_cols ?q)))" by code_simp
  have "\<exists>c. bound_conds sample_query = [c]" by (simp add: sample_query_def)
  then obtain c where c: "bound_conds sample_query = [c]" ..
  have "bound_conds ?q = [c]" by (simp add: c)
  with a p [unfolded c] c show ?thesis by auto
qed

end
