(* ===== verification/System_Manager.thy ===== *)
theory System_Manager
  imports Catalog Server_Response Planner Record_Manager Disk_Contract
begin

text \<open>
  \<^verbatim>\<open>SmManager\<close> of \<^verbatim>\<open>src/src/system/sm_manager.cpp\<close>: creating and dropping databases, the catalog file, the SHOW and DESC
  results, and CREATE TABLE with its clean-up. Opening and closing a database, DROP TABLE and the index statements are
  exercises that throw \<^verbatim>\<open>NotImplementedError\<close>. The lemmas show what a failed CREATE TABLE or CREATE DATABASE leaves
  behind and that a successful CREATE TABLE keeps the catalog well formed and readable after a restart.
\<close>

section \<open>The file system\<close>

text \<open>
  What the code uses of \<^verbatim>\<open>std::filesystem\<close>: a path is the list of its components, a file is a directory or has bytes.
  \<open>file_env\<close> is how the operating system treats one statement: whether the directory can be made, whether the metadata
  file can be opened, and how many of the bytes written to it arrive.
\<close>

datatype fsnode = Directory | Regular string

type_synonym fsys = "string list \<Rightarrow> fsnode option"

record file_env =
  can_mkdir :: bool
  can_open :: bool
  can_write :: nat

definition fs_exists :: "fsys \<Rightarrow> string list \<Rightarrow> bool" where
  "fs_exists fs p \<longleftrightarrow> fs p \<noteq> None"

definition is_directory :: "fsys \<Rightarrow> string list \<Rightarrow> bool" where
  "is_directory fs p \<longleftrightarrow> fs p = Some Directory"

definition is_regular_file :: "fsys \<Rightarrow> string list \<Rightarrow> bool" where
  "is_regular_file fs p \<longleftrightarrow> (case fs p of Some (Regular t) \<Rightarrow> True | _ \<Rightarrow> False)"

definition fs_remove_all :: "string list \<Rightarrow> fsys \<Rightarrow> fsys" where
  "fs_remove_all p fs = (\<lambda>q. if take (length p) q = p then None else fs q)"

definition DB_META_NAME :: string where "DB_META_NAME = ''db.meta''"
definition LOG_FILE_NAME :: string where "LOG_FILE_NAME = ''db.log''"

text \<open>\<^verbatim>\<open>path.filename()\<close>: what follows the last separator.\<close>

definition path_filename :: "string \<Rightarrow> string" where
  "path_filename p = rev (takeWhile (\<lambda>c. c \<noteq> CHR ''/'') (rev p))"

definition database_path :: "string \<Rightarrow> string list result" where
  "database_path db =
     (if db = [] \<or> path_filename db \<noteq> db \<or> db = ''.'' \<or> db = ''..'' then Inl (RMDBError (''Invalid database name: '' @ db))
      else Inr [db])"

text \<open>
  The catalog is printed before the file is opened, so a printer that throws leaves the file alone; \<open>dump\<close> is the JSON
  library's printer. The file is truncated when it is opened.
\<close>

definition meta_text :: "(json \<Rightarrow> string option) \<Rightarrow> DbMeta \<Rightarrow> string result" where
  "meta_text dump db = (case dump (db_json db) of None \<Rightarrow> Inl json_exn | Some t \<Rightarrow> Inr (write_db (\<lambda>_. t) db))"

definition write_meta_file :: "(json \<Rightarrow> string option) \<Rightarrow> file_env \<Rightarrow> string \<Rightarrow> DbMeta \<Rightarrow> (string option, unit) eff" where
  "write_meta_file dump env path db =
     bindS (liftE (meta_text dump db)) (\<lambda>serialized old.
       if \<not> can_open env then (Inl (InternalError (''cannot open database metadata: '' @ path)), old)
       else if can_write env < length serialized
         then (Inl (InternalError (''cannot write database metadata: '' @ path)), Some (take (can_write env) serialized))
       else (Inr (), Some serialized))"

definition set_file :: "string list \<Rightarrow> string option \<Rightarrow> fsys \<Rightarrow> fsys" where
  "set_file p t fs = fs(p := map_option Regular t)"

definition file_text :: "string list \<Rightarrow> fsys \<Rightarrow> string option" where
  "file_text p fs = (case fs p of Some (Regular t) \<Rightarrow> Some t | _ \<Rightarrow> None)"

section \<open>Databases\<close>

definition sm_is_dir :: "fsys \<Rightarrow> string \<Rightarrow> bool result" where
  "sm_is_dir fs db = bindE (database_path db) (\<lambda>p. Inr (is_directory fs p))"

definition create_db :: "(json \<Rightarrow> string option) \<Rightarrow> file_env \<Rightarrow> fsys disk_ops \<Rightarrow> string \<Rightarrow> (fsys, unit) eff" where
  "create_db dump env D db =
     bindS (liftE (database_path db)) (\<lambda>p fs.
       if fs_exists fs p then (Inl (DatabaseExistsError db), fs)
       else if \<not> can_mkdir env then (Inl (StdException ''filesystem error: cannot create directory''), fs)
       else cleanupS
         (thenS (onS (file_text (p @ [DB_META_NAME])) (set_file (p @ [DB_META_NAME]))
                   (write_meta_file dump env (db @ ''/'' @ DB_META_NAME) \<lparr>db_name = db, tabs = []\<rparr>))
                (create_file_op D (db @ ''/'' @ LOG_FILE_NAME)))
         (\<lambda>fs. (Inr (), fs_remove_all p fs))
         (fs(p \<mapsto> Directory)))"

definition drop_db :: "DbMeta \<Rightarrow> string \<Rightarrow> (fsys, unit) eff" where
  "drop_db cur_db db =
     bindS (liftE (database_path db)) (\<lambda>p fs.
       if \<not> is_directory fs p \<or> \<not> is_regular_file fs (p @ [DB_META_NAME]) then (Inl (DatabaseNotFoundError db), fs)
       else if db_name cur_db = db then (Inl (InternalError (''cannot drop an open database: '' @ db)), fs)
       else (Inr (), fs_remove_all p fs))"

section \<open>System results\<close>

fun add_text_rows :: "string list list \<Rightarrow> WireResultSet \<Rightarrow> rmdb_error option \<times> WireResultSet" where
  "add_text_rows [] s = (None, s)"
| "add_text_rows (vs # rows) s =
     (case add_row (map text_cell vs) s of (Some e, s1) \<Rightarrow> (Some e, s1) | (None, s1) \<Rightarrow> add_text_rows rows s1)"

text \<open>The context is a pointer; its result buffer is the state.\<close>

definition set_string_result :: "string list \<Rightarrow> string list list \<Rightarrow> WireResultSet option \<Rightarrow> rmdb_error option \<times> WireResultSet option" where
  "set_string_result column_names row_values context =
     (case context of
        None \<Rightarrow> (Some (InternalError ''utility result requires a request context''), None)
      | Some s \<Rightarrow>
          (case set_columns (map (\<lambda>n. \<lparr>wcol_name = n, wcol_type = TYPE_STRING\<rparr>) column_names) s of
             (Some e, s1) \<Rightarrow> (Some e, Some s1)
           | (None, s1) \<Rightarrow> (case add_text_rows row_values s1 of (r, s2) \<Rightarrow> (r, Some s2))))"

definition show_database :: "DbMeta \<Rightarrow> WireResultSet option \<Rightarrow> rmdb_error option \<times> WireResultSet option" where
  "show_database cur_db = set_string_result [''Database''] [[db_name cur_db]]"

definition show_tables :: "DbMeta \<Rightarrow> WireResultSet option \<Rightarrow> rmdb_error option \<times> WireResultSet option" where
  "show_tables cur_db = set_string_result [''Tables''] (map (\<lambda>(k, tab). [tm_name tab]) (tabs cur_db))"

definition desc_table :: "DbMeta \<Rightarrow> string \<Rightarrow> WireResultSet option \<Rightarrow> rmdb_error option \<times> WireResultSet option" where
  "desc_table cur_db tab context =
     (case get_table cur_db tab of
        Inl e \<Rightarrow> (Some e, context)
      | Inr t \<Rightarrow>
          set_string_result [''Field'', ''Type'', ''Index'']
            (map (\<lambda>col. [cm_name col, coltype2str (cm_type col), if cm_index col then ''YES'' else ''NO'']) (tm_cols t)) context)"

section \<open>CREATE TABLE\<close>

record 'd SmManager =
  sm_db :: DbMeta
  sm_fhs :: "string \<Rightarrow> RmFileHandle option"
  sm_meta :: "string option"
  sm_disk :: 'd

text \<open>The first loop over the column definitions: the record's size, or why the definitions are refused.\<close>

fun check_cols :: "ColDef list \<Rightarrow> string list \<Rightarrow> int \<Rightarrow> int result" where
  "check_cols [] col_names rec_len = Inr rec_len"
| "check_cols (c # cs) col_names rec_len =
     (if def_name c \<in> set col_names then Inl (ColumnExistsError (def_name c))
      else let fixed_length_mismatch = (def_type c = TYPE_INT \<and> def_len c \<noteq> 4) \<or> (def_type c = TYPE_FLOAT \<and> def_len c \<noteq> 4) in
        if def_len c \<le> 0 \<or> fixed_length_mismatch then Inl (InvalidColLengthError (def_len c))
        else if def_len c > RM_MAX_RECORD_SIZE then Inl (InvalidRecordSizeError (def_len c))
        else if rec_len + def_len c > RM_MAX_RECORD_SIZE then Inl (InvalidRecordSizeError (rec_len + def_len c))
        else check_cols cs (col_names @ [def_name c]) (rec_len + def_len c))"

text \<open>The second loop: columns one behind the other.\<close>

fun make_cols :: "string \<Rightarrow> ColDef list \<Rightarrow> int \<Rightarrow> ColMeta list" where
  "make_cols tab [] curr_offset = []"
| "make_cols tab (c # cs) curr_offset =
     \<lparr>cm_tab = tab, cm_name = def_name c, cm_type = def_type c, cm_len = def_len c, cm_offset = curr_offset, cm_index = False\<rparr>
     # make_cols tab cs (curr_offset + def_len c)"

definition with_table :: "string \<Rightarrow> ColDef list \<Rightarrow> DbMeta \<Rightarrow> DbMeta" where
  "with_table tab defs db =
     db\<lparr>tabs := smap_set tab \<lparr>tm_name = tab, tm_cols = make_cols tab defs 0, tm_indexes = []\<rparr> (tabs db)\<rparr>"

definition on_disk :: "('d, 'a) eff \<Rightarrow> ('d SmManager, 'a) eff" where
  "on_disk = onS sm_disk (\<lambda>d s. s\<lparr>sm_disk := d\<rparr>)"

definition on_meta :: "(string option, 'a) eff \<Rightarrow> ('d SmManager, 'a) eff" where
  "on_meta = onS sm_meta (\<lambda>m s. s\<lparr>sm_meta := m\<rparr>)"

definition flush_meta :: "(json \<Rightarrow> string option) \<Rightarrow> file_env \<Rightarrow> ('d SmManager, unit) eff" where
  "flush_meta dump env s = on_meta (write_meta_file dump env DB_META_NAME (sm_db s)) s"

definition set_handle :: "string \<Rightarrow> RmFileHandle option \<Rightarrow> ('d SmManager, unit) eff" where
  "set_handle tab h s = (Inr (), s\<lparr>sm_fhs := (sm_fhs s)(tab := h)\<rparr>)"

text \<open>The body of the try block and the catch block.\<close>

definition install_table ::
  "(json \<Rightarrow> string option) \<Rightarrow> file_env \<Rightarrow> 'd disk_ops \<Rightarrow> string \<Rightarrow> DbMeta \<Rightarrow> ('d SmManager, unit) eff" where
  "install_table dump env D tab next_db =
     bindS (on_disk (rm_open_file D tab)) (\<lambda>h.
       thenS (set_handle tab (Some h))
      (thenS (on_meta (write_meta_file dump env DB_META_NAME next_db))
             (\<lambda>s. (Inr (), s\<lparr>sm_db := next_db\<rparr>))))"

definition remove_table :: "'d disk_ops \<Rightarrow> string \<Rightarrow> ('d SmManager, unit) eff" where
  "remove_table D tab s =
     thenS (case sm_fhs s tab of
              None \<Rightarrow> retS ()
            | Some h \<Rightarrow> thenS (on_disk (rm_close_file D h)) (set_handle tab None))
       (on_disk (rm_destroy_file D tab)) s"

definition create_table ::
  "(json \<Rightarrow> string option) \<Rightarrow> file_env \<Rightarrow> 'd disk_ops \<Rightarrow> string \<Rightarrow> ColDef list \<Rightarrow> ('d SmManager, unit) eff" where
  "create_table dump env D tab defs s =
     (if is_table (sm_db s) tab then throwS (TableExistsError tab)
      else if sm_fhs s tab \<noteq> None then throwS (InternalError (''Record handle already exists: '' @ tab))
      else if defs = [] then throwS (InvalidRecordSizeError 0)
      else bindS (liftE (check_cols defs [] 0)) (\<lambda>rec_len.
        thenS (on_disk (rm_create_file D tab rec_len))
          (cleanupS (install_table dump env D tab (with_table tab defs (sm_db s))) (remove_table D tab)))) s"

section \<open>Lemmas\<close>

lemma on_disk_split: "on_disk m s = (r, s') \<longleftrightarrow> (\<exists>d. m (sm_disk s) = (r, d) \<and> s' = s\<lparr>sm_disk := d\<rparr>)"
  by (auto simp: on_disk_def onS_def split: prod.splits)

lemma on_meta_split: "on_meta m s = (r, s') \<longleftrightarrow> (\<exists>t. m (sm_meta s) = (r, t) \<and> s' = s\<lparr>sm_meta := t\<rparr>)"
  by (auto simp: on_meta_def onS_def split: prod.splits)

lemma liftE_split: "liftE r s = (q, s') \<longleftrightarrow> r = q \<and> s' = s"
  by (auto simp: liftE_def)

lemmas eff_split = bindS_split thenS_split on_disk_split on_meta_split liftE_split

lemma keeps_rm [keeps_intros]:
  assumes "disk_laws D files"
  shows "keeps files (rm_open_file D tab)" "keeps files (rm_close_file D h)"
  by (auto simp: rm_open_file_def rm_close_file_def RmFileHandle_make_def Let_def intro!: keeps_intros assms)

lemma rm_create_file_files:
  assumes "disk_laws D files" "rm_create_file D tab n d = (Inr u, d')"
  shows "tab \<notin> files d \<and> files d' = insert tab (files d)"
  using assms(2) disk_create(1) [OF assms(1)] disk_keeps [OF assms(1), THEN keepsD]
  by (auto simp: rm_create_file_def eff_split throwS_def split: if_splits)

lemma check_cols_Inr:
  assumes "check_cols defs names n = Inr k"
  shows "k = n + sum_list (map def_len defs) \<and> distinct (map def_name defs) \<and> set names \<inter> def_name ` set defs = {} \<and>
    (\<forall>c\<in>set defs. def_len c > 0 \<and> (def_type c \<noteq> TYPE_STRING \<longrightarrow> def_len c = 4)) \<and> layout_ok n (make_cols tab defs n)"
  using assms
proof (induction defs names n rule: check_cols.induct)
  case (1 names n)
  then show ?case by simp
next
  case (2 c cs names n)
  from "2.prems" have c: "def_name c \<notin> set names" "def_len c > 0" "n + def_len c \<le> RM_MAX_RECORD_SIZE" "def_len c \<le> RM_MAX_RECORD_SIZE"
    and t: "def_type c = TYPE_INT \<longrightarrow> def_len c = 4" "def_type c = TYPE_FLOAT \<longrightarrow> def_len c = 4"
    and r: "check_cols cs (names @ [def_name c]) (n + def_len c) = Inr k"
    by (auto simp: Let_def split: if_splits)
  have "def_type c \<noteq> TYPE_STRING \<longrightarrow> def_len c = 4" using t by (cases "def_type c") auto
  moreover have
    "k = n + def_len c + sum_list (map def_len cs) \<and> distinct (map def_name cs) \<and>
     set (names @ [def_name c]) \<inter> def_name ` set cs = {} \<and>
     (\<forall>c\<in>set cs. def_len c > 0 \<and> (def_type c \<noteq> TYPE_STRING \<longrightarrow> def_len c = 4)) \<and>
     layout_ok (n + def_len c) (make_cols tab cs (n + def_len c))"
    by (rule "2.IH" [OF _ refl]) (use c t r in auto)
  ultimately show ?case using c by auto
qed

lemma make_cols_simps [simp]:
  "map cm_name (make_cols tab defs n) = map def_name defs" "map cm_type (make_cols tab defs n) = map def_type defs"
  "map cm_len (make_cols tab defs n) = map def_len defs" "make_cols tab defs n = [] \<longleftrightarrow> defs = []"
  by (induction tab defs n rule: make_cols.induct) auto

lemma make_cols_member:
  "c \<in> set (make_cols tab defs n) \<Longrightarrow>
   cm_tab c = tab \<and> \<not> cm_index c \<and> (\<exists>d\<in>set defs. cm_name c = def_name d \<and> cm_type c = def_type d \<and> cm_len c = def_len d)"
  by (induction tab defs n rule: make_cols.induct) auto

lemma with_table_ok:
  assumes "db_ok db" "tab \<noteq> []" "defs \<noteq> []" "\<forall>c\<in>set defs. def_name c \<noteq> []" "check_cols defs [] 0 = Inr n"
  shows "db_ok (with_table tab defs db)"
proof -
  let ?t = "\<lparr>tm_name = tab, tm_cols = make_cols tab defs 0, tm_indexes = []\<rparr>"
  note cc = check_cols_Inr [OF assms(5), of tab]
  have "col_ok tab c" if "c \<in> set (make_cols tab defs 0)" for c
    using make_cols_member [OF that] cc assms(4) by (auto simp: col_ok_def)
  then have "tab_ok ?t" using cc assms(2,3) make_cols_member by (fastforce simp: tab_ok_def cols_ok_def)
  moreover have "p \<in> set (smap_set k v m) \<Longrightarrow> p = (k, v) \<or> p \<in> set m" for p k v and m :: "TabMeta smap"
    by (induction k v m rule: smap_set.induct) (auto split: if_splits)
  ultimately show ?thesis using assms(1) by (fastforce simp: db_ok_def with_table_def)
qed

lemma get_table_with_table:
  "get_table (with_table tab defs db) t =
     (if t = tab then Inr \<lparr>tm_name = tab, tm_cols = make_cols tab defs 0, tm_indexes = []\<rparr> else get_table db t)"
  by (simp add: get_table_def with_table_def)

lemma write_meta_Inr:
  "write_meta_file dump env path db old = (Inr u, new) \<Longrightarrow> \<exists>t. dump (db_json db) = Some t \<and> new = Some (write_db (\<lambda>_. t) db)"
  by (auto simp: write_meta_file_def eff_split meta_text_def split: if_splits option.splits)

lemma write_meta_kept:
  "write_meta_file dump env path db old = (r, new) \<Longrightarrow> \<not> can_open env \<Longrightarrow> new = old"
  by (auto simp: write_meta_file_def eff_split split: if_splits)

lemma cleanupS_Inl:
  "cleanupS m h s = (Inl e, s') \<Longrightarrow> \<exists>e1 s1. m s = (Inl e1, s1) \<and> ((\<exists>u. h s1 = (Inr u, s') \<and> e1 = e) \<or> h s1 = (Inl e, s'))"
  by (auto simp: cleanupS_def split: prod.splits sum.splits)

lemma cleanupS_Inr: "cleanupS m h s = (Inr x, s') \<longleftrightarrow> m s = (Inr x, s')"
  by (auto simp: cleanupS_def split: prod.splits sum.splits)

text \<open>What an interrupted installation leaves for the catch block.\<close>

lemma install_table_Inl:
  assumes "install_table dump env D tab next_db s = (Inl e, s1)" "disk_laws D files"
  shows "sm_db s1 = sm_db s \<and> files (sm_disk s1) = files (sm_disk s) \<and> (\<forall>t. t \<noteq> tab \<longrightarrow> sm_fhs s1 t = sm_fhs s t) \<and>
    (\<not> can_open env \<longrightarrow> sm_meta s1 = sm_meta s)"
  using assms(1) keeps_rm(1) [OF assms(2), THEN keepsD] write_meta_kept
  unfolding install_table_def by (fastforce simp: eff_split set_handle_def)

lemma remove_table_kept:
  assumes "remove_table D tab s = (r, s')"
  shows "sm_db s' = sm_db s \<and> sm_meta s' = sm_meta s \<and> (\<forall>t. t \<noteq> tab \<longrightarrow> sm_fhs s' t = sm_fhs s t)"
  using assms unfolding remove_table_def
  by (auto simp: eff_split set_handle_def retS_def split: option.splits)

lemma remove_table_Inr:
  assumes "remove_table D tab s = (Inr u, s')" "disk_laws D files"
  shows "files (sm_disk s') = files (sm_disk s) - {tab} \<and> sm_fhs s' tab = None"
  using assms(1) keeps_rm(2) [OF assms(2), THEN keepsD] disk_destroy(1) [OF assms(2)]
  unfolding remove_table_def rm_destroy_file_def
  by (cases "sm_fhs s tab") (force simp: eff_split set_handle_def retS_def)+

section \<open>Properties\<close>


definition sample_defs :: "ColDef list" where
  "sample_defs = [\<lparr>def_name = ''id'', def_type = TYPE_INT, def_len = 4\<rparr>, \<lparr>def_name = ''name'', def_type = TYPE_STRING, def_len = 16\<rparr>]"

definition sample_sm :: "mem_disk SmManager" where
  "sample_sm = \<lparr>sm_db = sample_db, sm_fhs = (\<lambda>t. None), sm_meta = Some ''old'', sm_disk = empty_disk\<rparr>"

definition env_ok :: file_env where "env_ok = \<lparr>can_mkdir = True, can_open = True, can_write = 4096\<rparr>"
definition env_short :: file_env where "env_short = \<lparr>can_mkdir = True, can_open = True, can_write = 1\<rparr>"

lemma records_layout_20: "records_layout 20 = (202, 26)"
  by (simp add: records_layout_def shrink_records.simps required_bytes_def PAGE_SIZE_def rm_consts BITMAP_WIDTH_def)

lemmas sample_sm_simps = create_table_def sample_sm_def sample_defs_def env_short_def env_ok_def is_table_def sample_db_def
  RM_MAX_RECORD_SIZE_def rm_create_file_def install_table_def remove_table_def rm_open_file_def rm_close_file_def
  rm_destroy_file_def RmFileHandle_make_def on_disk_def on_meta_def set_handle_def write_meta_file_def meta_text_def
  write_db_def eff_defs mem_ops_defs RmFileHdr_bytes_def

text \<open>
  A short write of \<^verbatim>\<open>db.meta\<close> makes CREATE TABLE fail and clean up its own file, but the old metadata file is gone: it was
  truncated when it was opened and now holds the bytes that were written.
\<close>

lemma create_table_short_write:
  "create_table (\<lambda>j. Some ''xy'') env_short mem_ops ''u'' sample_defs sample_sm =
     (Inl (InternalError ''cannot write database metadata: db.meta''),
      sample_sm\<lparr>sm_meta := Some ''x'', sm_disk := empty_disk\<lparr>md_next := 5\<rparr>\<rparr>)"
  by (simp add: sample_sm_simps DB_META_NAME_def fun_upd_idem)


text \<open>
  C34 (a successful CREATE TABLE). The catalog stays well formed, it gains exactly the new table with the declared columns in
  order and leaves every other table alone, a handle for the table is open, and \<^verbatim>\<open>db.meta\<close> holds the new catalog: if the
  JSON parser reads back what the printer wrote, a restart reads exactly the catalog in memory.
\<close>

theorem create_table_ok:
  assumes "create_table dump env D tab defs s = (Inr u, s')" "db_ok (sm_db s)" "tab \<noteq> []" "\<forall>c\<in>set defs. def_name c \<noteq> []"
    and "\<And>t. dump (db_json (sm_db s')) = Some t \<Longrightarrow> parse (t @ ''\<newline>'') = Some (db_json (sm_db s'))"
  shows "db_ok (sm_db s') \<and> sm_fhs s' tab \<noteq> None \<and> (\<forall>t. t \<noteq> tab \<longrightarrow> get_table (sm_db s') t = get_table (sm_db s) t) \<and>
    (\<exists>t. get_table (sm_db s') tab = Inr t \<and> map cm_name (tm_cols t) = map def_name defs \<and>
      map cm_type (tm_cols t) = map def_type defs \<and> map cm_len (tm_cols t) = map def_len defs \<and> tm_indexes t = []) \<and>
    (\<exists>text. sm_meta s' = Some text \<and> read_db parse text = Inr (sm_db s'))"
proof -
  from assms(1) obtain n d where n: "check_cols defs [] 0 = Inr n" "defs \<noteq> []"
    and i: "install_table dump env D tab (with_table tab defs (sm_db s)) (s\<lparr>sm_disk := d\<rparr>) = (Inr u, s')"
    by (auto simp: create_table_def eff_split throwS_def cleanupS_Inr split: if_splits)
  then obtain h old where s': "sm_db s' = with_table tab defs (sm_db s)" "sm_fhs s' tab = Some h"
    "write_meta_file dump env DB_META_NAME (with_table tab defs (sm_db s)) old = (Inr (), sm_meta s')"
    unfolding install_table_def by (auto simp: eff_split set_handle_def)
  from write_meta_Inr [OF s'(3)] obtain t where t: "dump (db_json (sm_db s')) = Some t"
    "sm_meta s' = Some (write_db (\<lambda>_. t) (sm_db s'))" using s'(1) by auto
  have ok: "db_ok (sm_db s')" unfolding s'(1) by (rule with_table_ok [OF assms(2,3) n(2) assms(4) n(1)])
  have "read_db parse (write_db (\<lambda>_. t) (sm_db s')) = Inr (sm_db s')"
    by (rule read_write_db [OF ok]) (rule assms(5) [OF t(1)])
  with ok t s' show ?thesis by (simp add: get_table_with_table)
qed

theorem create_table_ok_witness:
  "\<exists>s'. create_table (\<lambda>j. Some ''xy'') env_ok mem_ops ''u'' sample_defs sample_sm = (Inr (), s') \<and>
     db_ok (sm_db s') \<and> read_db (\<lambda>t. Some (db_json (sm_db s'))) (the (sm_meta s')) = Inr (sm_db s')"
proof -
  obtain s' where s': "create_table (\<lambda>j. Some ''xy'') env_ok mem_ops ''u'' sample_defs sample_sm = (Inr (), s')"
    by (simp add: sample_sm_simps)
  have "db_ok (sm_db sample_sm)" using sample_db_ok by (simp add: sample_sm_def)
  from create_table_ok [OF s' this, of "\<lambda>t. Some (db_json (sm_db s'))"] s' show ?thesis
    by (auto simp: sample_defs_def)
qed

section \<open>Databases\<close>

text \<open>A failed CREATE DATABASE leaves the file system as it was, if creating the log file touches only the new directory.\<close>

lemma create_db_atomic:
  assumes "create_db dump env D db fs = (Inl e, fs')"
    and wf: "\<And>p q. fs p = None \<Longrightarrow> fs (p @ q) = None"
    and log: "\<And>fs0 r fs1 q. create_file_op D (db @ ''/'' @ LOG_FILE_NAME) fs0 = (r, fs1) \<Longrightarrow> take 1 q \<noteq> [db] \<Longrightarrow> fs1 q = fs0 q"
  shows "fs' = fs"
proof (cases "database_path db")
  case (Inl e)
  with assms(1) show ?thesis by (simp add: create_db_def eff_defs)
next
  case (Inr p)
  then have p: "p = [db]" by (simp add: database_path_def split: if_splits)
  show ?thesis
  proof (cases "fs_exists fs p \<or> \<not> can_mkdir env")
    case True
    with assms(1) Inr show ?thesis by (auto simp: create_db_def bindS_def liftE_def split: if_splits)
  next
    case False
    with assms(1) Inr obtain e1 fs1 where m:
      "thenS (onS (file_text (p @ [DB_META_NAME])) (set_file (p @ [DB_META_NAME]))
         (write_meta_file dump env (db @ ''/'' @ DB_META_NAME) \<lparr>db_name = db, tabs = []\<rparr>))
         (create_file_op D (db @ ''/'' @ LOG_FILE_NAME)) (fs(p \<mapsto> Directory)) = (Inl e1, fs1)" and f: "fs' = fs_remove_all p fs1"
      by (auto simp: create_db_def eff_defs split: if_splits prod.splits sum.splits)
    have meta: "set_file (p @ [DB_META_NAME]) t (fs(p \<mapsto> Directory)) q = fs q" if "take 1 q \<noteq> [db]" for q t
      using that p by (auto simp: set_file_def)
    have "fs1 q = fs q" if "take 1 q \<noteq> [db]" for q
      using m log [OF _ that, of _ "Inl e1" fs1] meta [OF that] by (auto simp: thenS_split onS_def split: prod.splits)
    moreover have "fs q = None" if "take 1 q = [db]" for q
      using wf [of p "drop 1 q"] False that p by (metis append_take_drop_id fs_exists_def)
    ultimately show ?thesis by (auto simp: f p fs_remove_all_def)
  qed
qed

end
