(* ===== verification/Insert_Executor.thy ===== *)
theory Insert_Executor
  imports Analyzer System_Manager Index_Manager "HOL-Library.Multiset"
begin

text \<open>
  \<^verbatim>\<open>InsertExecutor\<close> of \<^verbatim>\<open>src/src/execution/executor_insert.h\<close>: the record image, the insertion into the table and all its
  indexes, and the roll-back when one of them refuses. The operations of record files and B+ trees that it calls are
  exercises without a body; they are the components of a record over an arbitrary state of the store, and their
  documented behaviour is the hypothesis \<open>store_laws\<close>. The lemmas show that an INSERT is done in the table and in every
  index, or not at all.
\<close>

section \<open>The executor\<close>

text \<open>A B+ tree is named by its file, the key of \<^verbatim>\<open>indexes_\<close>.\<close>

record 'd store_ops =
  insert_record_op :: "RmFileHandle \<Rightarrow> byte list \<Rightarrow> ('d, Rid) eff"
  delete_record_op :: "RmFileHandle \<Rightarrow> Rid \<Rightarrow> ('d, unit) eff"
  insert_entry_op :: "string \<Rightarrow> byte list \<Rightarrow> Rid \<Rightarrow> ('d, int) eff"
  delete_entry_op :: "string \<Rightarrow> byte list \<Rightarrow> Rid \<Rightarrow> ('d, bool) eff"

text \<open>The exception of \<^verbatim>\<open>unordered_map::at\<close>, with the text of libstdc++.\<close>

definition map_at_exn :: rmdb_error where "map_at_exn = StdException ''unordered_map::at''"

record InsertExecutor =
  ins_tab :: TabMeta
  ins_values :: "Value list"
  ins_fh :: RmFileHandle
  ins_tab_name :: string

definition InsertExecutor_make ::
    "DbMeta \<Rightarrow> (string \<Rightarrow> RmFileHandle option) \<Rightarrow> string \<Rightarrow> Value list \<Rightarrow> InsertExecutor result" where
  "InsertExecutor_make db fhs tab_name' values =
     bindE (get_table db tab_name') (\<lambda>tab.
       if length values \<noteq> length (tm_cols tab) then Inl InvalidValueCountError
       else (case fhs tab_name' of
           None \<Rightarrow> Inl map_at_exn
         | Some fh \<Rightarrow> Inr \<lparr>ins_tab = tab, ins_values = values, ins_fh = fh, ins_tab_name = tab_name'\<rparr>))"

text \<open>The loop that fills the record buffer, column by column.\<close>

definition insert_raw :: "ColMeta \<Rightarrow> Value \<Rightarrow> Value result" where
  "insert_raw col val =
     (case raw val of
        None \<Rightarrow> init_raw (cm_len col) val
      | Some bs \<Rightarrow> if int (length bs) \<noteq> cm_len col then Inl (InternalError ''Insert value raw size does not match column length'')
                   else Inr val)"

fun fill_record :: "ColMeta list \<Rightarrow> Value list \<Rightarrow> byte list \<Rightarrow> byte list result" where
  "fill_record (col # cols) (val # vals) rec =
     (if cm_type col \<noteq> val_type val then Inl (IncompatibleTypeError (coltype2str (cm_type col)) (coltype2str (val_type val)))
      else bindE (insert_raw col val) (\<lambda>val'.
        fill_record cols vals
          (splice (nat (cm_offset col)) (take (nat (cm_len col)) (case raw val' of None \<Rightarrow> [] | Some bs \<Rightarrow> bs)) rec)))"
| "fill_record cols vals rec = Inr rec"

text \<open>
  The loop over the indexes: what was thrown, if anything, the entries made so far, and the state. An open B+ tree is
  looked up by the name of the index file.
\<close>

definition index_file :: "string \<Rightarrow> IndexMeta \<Rightarrow> string" where
  "index_file tab ix = make_index_name tab (map cm_name (ix_cols ix))"

fun insert_entries ::
    "'d store_ops \<Rightarrow> (string \<Rightarrow> bool) \<Rightarrow> string \<Rightarrow> byte list \<Rightarrow> Rid \<Rightarrow> IndexMeta list \<Rightarrow> (string \<times> byte list) list \<Rightarrow> 'd \<Rightarrow>
     unit result \<times> (string \<times> byte list) list \<times> 'd" where
  "insert_entries S indexes tab rec rid [] inserted s = (Inr (), inserted, s)"
| "insert_entries S indexes tab rec rid (index # rest) inserted s =
     (if \<not> indexes (index_file tab index) then (Inl map_at_exn, inserted, s)
      else let ih = index_file tab index; key = make_key index rec in
        case insert_entry_op S ih key rid s of
          (Inl e, s') \<Rightarrow> (Inl e, inserted, s')
        | (Inr page, s') \<Rightarrow> insert_entries S indexes tab rec rid rest (inserted @ [(ih, key)]) s')"

text \<open>The catch block: entries are removed in reverse order, then the record.\<close>

definition undo_entries :: "'d store_ops \<Rightarrow> Rid \<Rightarrow> (string \<times> byte list) list \<Rightarrow> ('d, unit) eff" where
  "undo_entries S rid inserted =
     foldr (\<lambda>(ih, key) k. thenS (delete_entry_op S ih key rid) k) (rev inserted) (retS ())"

definition insert_indexes ::
    "'d store_ops \<Rightarrow> (string \<Rightarrow> bool) \<Rightarrow> InsertExecutor \<Rightarrow> byte list \<Rightarrow> Rid \<Rightarrow> ('d, unit) eff" where
  "insert_indexes S indexes x rec rid s =
     (case insert_entries S indexes (ins_tab_name x) rec rid (tm_indexes (ins_tab x)) [] s of
        (Inr u, inserted, s') \<Rightarrow> (Inr u, s')
      | (Inl e, inserted, s') \<Rightarrow>
          thenS (thenS (undo_entries S rid inserted) (delete_record_op S (ins_fh x) rid)) (throwS e) s')"

text \<open>\<^verbatim>\<open>next\<close>: \<open>heap\<close> is the content of the new buffer before it is filled. The result is the identifier kept in \<^verbatim>\<open>rid_\<close>.\<close>

definition insert_next ::
    "'d store_ops \<Rightarrow> (string \<Rightarrow> bool) \<Rightarrow> byte list \<Rightarrow> InsertExecutor \<Rightarrow> ('d, Rid) eff" where
  "insert_next S indexes heap x =
     bindS (liftE (RmRecord_sized heap (sint (record_size (fh_hdr (ins_fh x)))))) (\<lambda>r.
     bindS (liftE (fill_record (tm_cols (ins_tab x)) (ins_values x) (case rec_data r of None \<Rightarrow> [] | Some bs \<Rightarrow> bs))) (\<lambda>rec.
     bindS (insert_record_op S (ins_fh x) rec) (\<lambda>rid.
     thenS (insert_indexes S indexes x rec rid) (retS rid))))"

section \<open>The record image\<close>

lemma insert_raw_fits: "fits_col v c \<Longrightarrow> insert_raw c v = Inr v"
  by (auto simp: fits_col_def insert_raw_def)

lemma image_of_Cons: "image_of (v # vs) = (case raw v of None \<Rightarrow> [] | Some bs \<Rightarrow> bs) @ image_of vs"
  by (simp add: image_of_def)

text \<open>The columns of a well formed table cover the buffer without gaps, so nothing of its old content is left.\<close>

lemma fill_record_image:
  assumes "list_all2 fits_col vs cs" "layout_ok off cs" "length pre = nat off" "0 \<le> off"
    "length (image_of vs) \<le> length buf"
  shows "fill_record cs vs (pre @ buf) = Inr (pre @ image_of vs @ drop (length (image_of vs)) buf)"
  using assms
proof (induction vs cs arbitrary: off pre buf rule: list_all2_induct)
  case Nil
  then show ?case by (simp add: image_of_def)
next
  case (Cons v vs c cs)
  from Cons.hyps(1) obtain bs where bs: "raw v = Some bs" "int (length bs) = cm_len c" "val_type v = cm_type c"
    by (auto simp: fits_col_def)
  from Cons.prems have lay: "cm_offset c = off" "layout_ok (off + cm_len c) cs" by auto
  have sp: "splice (nat off) bs (pre @ buf) = (pre @ bs) @ drop (length bs) buf"
    using Cons.prems(2) by (simp add: splice_def)
  have "fill_record cs vs ((pre @ bs) @ drop (length bs) buf) =
      Inr ((pre @ bs) @ image_of vs @ drop (length (image_of vs)) (drop (length bs) buf))"
    using Cons.IH [OF lay(2), of "pre @ bs" "drop (length bs) buf"] Cons.prems bs(2)
    by (simp add: image_of_Cons bs(1))
  moreover have "take (nat (cm_len c)) bs = bs" using bs(2) by simp
  ultimately show ?case
    using bs insert_raw_fits [OF Cons.hyps(1)] lay(1) sp by (simp add: image_of_Cons add.commute)
qed

lemma image_length: "list_all2 fits_col vs cs \<Longrightarrow> int (length (image_of vs)) = sum_list (map cm_len cs)"
  by (induction vs cs rule: list_all2_induct) (auto simp: image_of_def fits_col_def)

section \<open>Atomicity\<close>

text \<open>What the store holds: the records of each file, and the entries of each B+ tree.\<close>

record store_view =
  v_records :: "int \<Rightarrow> Rid \<Rightarrow> byte list option"
  v_entries :: "string \<Rightarrow> (byte list \<times> Rid) multiset"

text \<open>
  A failed insertion changes nothing; a successful one adds the record at a free position, or the entry. Removing what
  is there succeeds and removes exactly that.
\<close>

definition store_laws :: "'d store_ops \<Rightarrow> ('d \<Rightarrow> store_view) \<Rightarrow> bool" where
  "store_laws S view \<longleftrightarrow>
     (\<forall>fh buf s e s'. insert_record_op S fh buf s = (Inl e, s') \<longrightarrow> view s' = view s) \<and>
     (\<forall>fh buf s rid s'. insert_record_op S fh buf s = (Inr rid, s') \<longrightarrow> v_records (view s) (fh_fd fh) rid = None \<and>
        view s' = (view s)\<lparr>v_records := (v_records (view s))(fh_fd fh := (v_records (view s) (fh_fd fh))(rid \<mapsto> buf))\<rparr>) \<and>
     (\<forall>fh rid s. v_records (view s) (fh_fd fh) rid \<noteq> None \<longrightarrow> (\<exists>s'. delete_record_op S fh rid s = (Inr (), s') \<and>
        view s' = (view s)\<lparr>v_records := (v_records (view s))(fh_fd fh := (v_records (view s) (fh_fd fh))(rid := None))\<rparr>)) \<and>
     (\<forall>ih key rid s e s'. insert_entry_op S ih key rid s = (Inl e, s') \<longrightarrow> view s' = view s) \<and>
     (\<forall>ih key rid s page s'. insert_entry_op S ih key rid s = (Inr page, s') \<longrightarrow>
        view s' = (view s)\<lparr>v_entries := (v_entries (view s))(ih := add_mset (key, rid) (v_entries (view s) ih))\<rparr>) \<and>
     (\<forall>ih key rid s. (key, rid) \<in># v_entries (view s) ih \<longrightarrow> (\<exists>s'. delete_entry_op S ih key rid s = (Inr True, s') \<and>
        view s' = (view s)\<lparr>v_entries := (v_entries (view s))(ih := v_entries (view s) ih - {#(key, rid)#})\<rparr>))"

definition add_entry :: "Rid \<Rightarrow> string \<times> byte list \<Rightarrow> store_view \<Rightarrow> store_view" where
  "add_entry rid ik v = v\<lparr>v_entries := (v_entries v)(fst ik := add_mset (snd ik, rid) (v_entries v (fst ik)))\<rparr>"

definition add_record :: "int \<Rightarrow> Rid \<Rightarrow> byte list \<Rightarrow> store_view \<Rightarrow> store_view" where
  "add_record file rid rec v = v\<lparr>v_records := (v_records v)(file := (v_records v file)(rid \<mapsto> rec))\<rparr>"

text \<open>What an INSERT adds to an index.\<close>

definition index_entry :: "string \<Rightarrow> byte list \<Rightarrow> IndexMeta \<Rightarrow> string \<times> byte list" where
  "index_entry tab rec ix = (index_file tab ix, make_key ix rec)"

lemma insert_record_view:
  assumes laws: "store_laws S view"
  shows "insert_record_op S fh buf s = (Inl e, s') \<Longrightarrow> view s' = view s"
  and "insert_record_op S fh buf s = (Inr rid, s') \<Longrightarrow>
     v_records (view s) (fh_fd fh) rid = None \<and> view s' = add_record (fh_fd fh) rid buf (view s)"
  using laws by (simp_all add: store_laws_def add_record_def)

lemma delete_record_view:
  assumes laws: "store_laws S view" and v: "view s = add_record (fh_fd fh) rid buf v" "v_records v (fh_fd fh) rid = None"
  obtains s' where "delete_record_op S fh rid s = (Inr (), s')" "view s' = v"
proof -
  have "v_records (view s) (fh_fd fh) rid \<noteq> None" using v(1) by (simp add: add_record_def)
  then obtain s' where s': "delete_record_op S fh rid s = (Inr (), s')"
    "view s' = (view s)\<lparr>v_records := (v_records (view s))(fh_fd fh := (v_records (view s) (fh_fd fh))(rid := None))\<rparr>"
    using laws unfolding store_laws_def by meson
  have "view s' = v" unfolding s'(2) v(1) using v(2) by (cases v) (auto simp: add_record_def fun_eq_iff)
  with s'(1) show ?thesis using that by blast
qed

lemma insert_entry_view:
  assumes laws: "store_laws S view"
  shows "insert_entry_op S ih key rid s = (Inl e, s') \<Longrightarrow> view s' = view s"
  and "insert_entry_op S ih key rid s = (Inr page, s') \<Longrightarrow> view s' = add_entry rid (ih, key) (view s)"
  using laws by (simp_all add: store_laws_def add_entry_def)

lemma delete_entry_view:
  assumes laws: "store_laws S view" and v: "view s = add_entry rid (ih, key) v"
  obtains s' where "delete_entry_op S ih key rid s = (Inr True, s')" "view s' = v"
proof -
  have "(key, rid) \<in># v_entries (view s) ih" using v by (simp add: add_entry_def)
  then obtain s' where s': "delete_entry_op S ih key rid s = (Inr True, s')"
    "view s' = (view s)\<lparr>v_entries := (v_entries (view s))(ih := v_entries (view s) ih - {#(key, rid)#})\<rparr>"
    using laws unfolding store_laws_def by meson
  have "view s' = v" unfolding s'(2) v by (cases v) (auto simp: add_entry_def)
  with s'(1) show ?thesis using that by blast
qed

text \<open>The loop adds one entry per index until one is refused; what it reports as inserted is what it added.\<close>

lemma insert_entries_view:
  assumes laws: "store_laws S view"
  shows "view s = fold (add_entry rid) inserted v \<Longrightarrow> insert_entries S indexes tab rec rid ixs inserted s = (r, inserted', s') \<Longrightarrow>
   view s' = fold (add_entry rid) inserted' v \<and>
   (r = Inr () \<longrightarrow> inserted' = inserted @ map (index_entry tab rec) ixs)"
proof (induction ixs arbitrary: inserted s)
  case (Cons ix ixs)
  show ?case
  proof (cases "indexes (index_file tab ix)")
    case True
    obtain q s1 where q: "insert_entry_op S (index_file tab ix) (make_key ix rec) rid s = (q, s1)" by fastforce
    show ?thesis
    proof (cases q)
      case (Inl e)
      with Cons.prems True q show ?thesis using insert_entry_view(1) [OF laws] by (auto simp: Let_def)
    next
      case (Inr page)
      have "view s1 = fold (add_entry rid) (inserted @ [index_entry tab rec ix]) v"
        using insert_entry_view(2) [OF laws q [unfolded Inr]] Cons.prems(1) by (simp add: index_entry_def)
      from Cons.IH [OF this] show ?thesis using Cons.prems(2) True q Inr by (simp add: Let_def index_entry_def)
    qed
  qed (use Cons.prems in auto)
qed auto

lemma undo_entries_view:
  assumes laws: "store_laws S view"
  shows "view s = fold (add_entry rid) inserted v \<Longrightarrow> \<exists>s'. undo_entries S rid inserted s = (Inr (), s') \<and> view s' = v"
proof (induction inserted arbitrary: s rule: rev_induct)
  case Nil
  then show ?case by (simp add: undo_entries_def retS_def)
next
  case (snoc ik inserted)
  obtain ih key where ik: "ik = (ih, key)" by fastforce
  obtain s1 where s1: "delete_entry_op S ih key rid s = (Inr True, s1)" "view s1 = fold (add_entry rid) inserted v"
    using delete_entry_view [OF laws, of s rid ih key] snoc.prems ik by auto
  obtain s2 where "undo_entries S rid inserted s1 = (Inr (), s2)" "view s2 = v" using snoc.IH [OF s1(2)] by blast
  with s1(1) show ?case by (auto simp: undo_entries_def ik thenS_def bindS_def)
qed

lemma insert_indexes_view:
  assumes laws: "store_laws S view" and v0: "view s = add_record (fh_fd (ins_fh x)) rid rec v" "v_records v (fh_fd (ins_fh x)) rid = None"
    and r: "insert_indexes S indexes x rec rid s = (r, s')"
  shows "case r of Inl e \<Rightarrow> view s' = v
    | Inr u \<Rightarrow> view s' = fold (add_entry rid) (map (index_entry (ins_tab_name x) rec) (tm_indexes (ins_tab x))) (view s)"
proof -
  obtain r1 ins s1 where i: "insert_entries S indexes (ins_tab_name x) rec rid (tm_indexes (ins_tab x)) [] s = (r1, ins, s1)"
    by (metis prod_cases3)
  note v = insert_entries_view [OF laws, of s rid "[]" "view s", OF _ i, simplified]
  show ?thesis
  proof (cases r1)
    case (Inr u)
    then have "r = Inr ()" "s' = s1" using r i by (auto simp: insert_indexes_def)
    then show ?thesis using v Inr by simp
  next
    case (Inl e)
    obtain s2 where s2: "undo_entries S rid ins s1 = (Inr (), s2)" "view s2 = view s" using undo_entries_view [OF laws] v by blast
    obtain s3 where "delete_record_op S (ins_fh x) rid s2 = (Inr (), s3)" "view s3 = v"
      using delete_record_view [OF laws, of s2 "ins_fh x" rid rec v] s2(2) v0 by auto
    with Inl i s2 r show ?thesis by (auto simp: insert_indexes_def thenS_def bindS_def throwS_def)
  qed
qed

lemma insert_next_view:
  assumes laws: "store_laws S view" and "list_all2 fits_col (ins_values x) (tm_cols (ins_tab x))" "layout_ok 0 (tm_cols (ins_tab x))"
    and "sint (record_size (fh_hdr (ins_fh x))) = sum_list (map cm_len (tm_cols (ins_tab x)))"
    and "0 < sum_list (map cm_len (tm_cols (ins_tab x)))" "sum_list (map cm_len (tm_cols (ins_tab x))) \<le> int (length heap)"
    and "insert_next S indexes heap x s = (r, s')"
  shows "case r of Inl e \<Rightarrow> view s' = view s
    | Inr rid \<Rightarrow> v_records (view s) (fh_fd (ins_fh x)) rid = None \<and>
        view s' = fold (add_entry rid) (map (index_entry (ins_tab_name x) (image_of (ins_values x))) (tm_indexes (ins_tab x)))
          (add_record (fh_fd (ins_fh x)) rid (image_of (ins_values x)) (view s))"
proof -
  let ?img = "image_of (ins_values x)" and ?n = "nat (sum_list (map cm_len (tm_cols (ins_tab x))))"
  have n: "length ?img = ?n" using image_length [OF assms(2)] by simp
  then have f: "fill_record (tm_cols (ins_tab x)) (ins_values x) (take ?n heap) = Inr ?img"
    using fill_record_image [OF assms(2,3), of "[]" "take ?n heap"] n assms(6) by simp
  obtain q s1 where q: "insert_record_op S (ins_fh x) ?img s = (q, s1)" by fastforce
  have nx: "insert_next S indexes heap x s =
      (case q of Inl e \<Rightarrow> (Inl e, s1) | Inr rid \<Rightarrow> thenS (insert_indexes S indexes x ?img rid) (retS rid) s1)"
    using f q assms(4,5) by (simp add: insert_next_def RmRecord_sized_def bindS_def liftE_def split: sum.splits)
  show ?thesis
  proof (cases q)
    case (Inl e)
    then show ?thesis using nx assms(7) insert_record_view(1) [OF laws] q by auto
  next
    case (Inr rid)
    note v = insert_record_view(2) [OF laws q [unfolded Inr]]
    obtain r2 s2 where i: "insert_indexes S indexes x ?img rid s1 = (r2, s2)" by fastforce
    from insert_indexes_view [OF laws, of s1 x rid ?img "view s", OF _ _ i] v show ?thesis
      using nx assms(7) i Inr by (auto simp: thenS_def bindS_def retS_def split: sum.splits)
  qed
qed

section \<open>A store in memory\<close>

text \<open>A concrete store with the documented behaviour, in which every B+ tree is a unique index.\<close>

definition mem_store :: "(store_view \<times> int) store_ops" where
  "mem_store = \<lparr>
     insert_record_op = (\<lambda>fh buf (v, n). let rid = \<lparr>page_no = 1, slot_no = n\<rparr> in
       if v_records v (fh_fd fh) rid \<noteq> None then (Inl (InternalError ''slot in use''), (v, n))
       else (Inr rid, (add_record (fh_fd fh) rid buf v, n + 1))),
     delete_record_op = (\<lambda>fh rid (v, n). (Inr (),
       (v\<lparr>v_records := (v_records v)(fh_fd fh := (v_records v (fh_fd fh))(rid := None))\<rparr>, n))),
     insert_entry_op = (\<lambda>ih key rid (v, n).
       if key \<in># image_mset fst (v_entries v ih) then (Inl DuplicateKeyError, (v, n))
       else (Inr 2, (add_entry rid (ih, key) v, n))),
     delete_entry_op = (\<lambda>ih key rid (v, n). (Inr ((key, rid) \<in># v_entries v ih),
       (v\<lparr>v_entries := (v_entries v)(ih := v_entries v ih - {#(key, rid)#})\<rparr>, n)))\<rparr>"

lemma mem_store_laws: "store_laws mem_store fst"
  unfolding store_laws_def
  by (intro conjI allI impI)
    (auto simp: mem_store_def Let_def add_record_def add_entry_def split: if_splits prod.splits)

section \<open>All or nothing\<close>

text \<open>
  An INSERT is done everywhere or nowhere. For a well formed catalog, an analysed INSERT and an open record file of
  the table's record length, whatever the new buffer contained: when \<^verbatim>\<open>next\<close> throws (a duplicate key in a unique index, a
  missing index handle, a full store) the records of every file and the entries of every index are those of before; when
  it returns, the table has one more record, the image of the analysed values at a position that was free, each of the
  table's indexes has exactly one more entry, the record's key with its position, and nothing else has changed.
\<close>

lemma insert_atomic:
  assumes "store_laws S view" "db_ok db" "analyze db (Some (InsertStmt tab vals)) = Inr q"
    and "InsertExecutor_make db fhs tab (bound_values q) = Inr x"
    and "sint (record_size (fh_hdr (ins_fh x))) = sum_list (map cm_len (tm_cols (ins_tab x)))" "512 \<le> length heap"
    and "insert_next S indexes heap x s = (r, s')"
  shows "case r of Inl e \<Rightarrow> view s' = view s
    | Inr rid \<Rightarrow> v_records (view s) (fh_fd (ins_fh x)) rid = None \<and>
        v_records (view s') = (v_records (view s))
          (fh_fd (ins_fh x) := (v_records (view s) (fh_fd (ins_fh x)))(rid \<mapsto> image_of (bound_values q))) \<and>
        (\<forall>ih. v_entries (view s') ih = v_entries (view s) ih +
          {#(make_key ix (image_of (bound_values q)), rid). ix \<in># mset (filter (\<lambda>ix. index_file tab ix = ih) (tm_indexes (ins_tab x)))#})"
proof -
  from assms(3) have a: "analyze_insert db tab vals (AnalyzedQuery_make (InsertStmt tab vals)) = Inr q"
    by (simp add: analyze_def)
  then obtain t where t: "get_table db tab = Inr t" "list_all2 fits_col (bound_values q) (tm_cols t)"
    using analyze_insert_fits by blast
  have x: "ins_tab x = t" "ins_values x = bound_values q" "ins_tab_name x = tab"
    using assms(4) t(1) by (auto simp: InsertExecutor_make_def split: if_splits option.splits)
  have ok: "tab_ok t" using db_ok_table [OF assms(2) t(1)] by simp
  then have lay: "layout_ok 0 (tm_cols t)" "tm_cols t \<noteq> []" "\<forall>c\<in>set (tm_cols t). 0 < cm_len c"
    by (auto simp: tab_ok_def cols_ok_def col_ok_def)
  have pos: "0 < sum_list (map cm_len cs)" if "cs \<noteq> []" "\<forall>c\<in>set cs. 0 < cm_len c" for cs :: "ColMeta list"
    using that by (induction cs rule: list_nonempty_induct) auto
  have "sum_list (map cm_len (tm_cols t)) \<le> int (length heap)"
    using layout_ok_sum [OF lay(1,2)] assms(6) by (simp add: RM_MAX_RECORD_SIZE_def)
  note v = insert_next_view [OF assms(1) _ _ assms(5) _ _ assms(7), unfolded x, OF t(2) lay(1) pos [OF lay(2,3)] this]
  have fold_entries: "v_records (fold (add_entry rid) (map (index_entry tab img) ixs) w) = v_records w \<and>
      (\<forall>ih. v_entries (fold (add_entry rid) (map (index_entry tab img) ixs) w) ih = v_entries w ih +
        {#(make_key ix img, rid). ix \<in># mset (filter (\<lambda>ix. index_file tab ix = ih) ixs)#})" for rid img ixs w
    by (induction ixs arbitrary: w) (auto simp: add_entry_def index_entry_def)
  show ?thesis
  proof (cases r)
    case (Inl e)
    then show ?thesis using v by simp
  next
    case (Inr rid)
    then show ?thesis using v fold_entries [of rid] by (simp add: x add_record_def)
  qed
qed

definition sample_fhs :: "string \<Rightarrow> RmFileHandle option" where
  "sample_fhs = [''t'' \<mapsto> \<lparr>fh_fd = 3, fh_hdr = new_file_hdr 12\<rparr>]"

definition sample_values :: "Value list" where
  "sample_values = [\<lparr>val_type = TYPE_INT, num_val = 7, str_val = [], raw = Some [7, 0, 0, 0]\<rparr>,
     \<lparr>val_type = TYPE_STRING, num_val = 0, str_val = ''ab'', raw = Some [97, 98, 0, 0, 0, 0, 0, 0]\<rparr>]"

definition sample_store :: store_view where
  "sample_store = \<lparr>v_records = (\<lambda>_. Map.empty), v_entries = (\<lambda>_. {#([7, 0, 0, 0], Rid_default)#})\<rparr>"

lemma sample_insert:
  obtains q x where "analyze sample_db (Some (InsertStmt ''t'' [Some (IntLit 7), Some (StringLit ''ab'')])) = Inr q"
    "InsertExecutor_make sample_db sample_fhs ''t'' (bound_values q) = Inr x" "bound_values q = sample_values"
    "x = \<lparr>ins_tab = sample_table, ins_values = sample_values, ins_fh = \<lparr>fh_fd = 3, fh_hdr = new_file_hdr 12\<rparr>, ins_tab_name = ''t''\<rparr>"
proof -
  have six: "replicate 6 (0 :: byte) = [0, 0, 0, 0, 0, 0]" by (simp add: numeral_eq_Suc)
  obtain q where q: "analyze sample_db (Some (InsertStmt ''t'' [Some (IntLit 7), Some (StringLit ''ab'')])) = Inr q"
    "bound_values q = sample_values"
    by (simp add: sample_simps analyze_insert_def bind_insert_value_def init_raw_def set_int_def set_str_def Value_empty_def
        sample_values_def pad_string_def byte_of_char_def eval_simps six)
  then show thesis using that by (simp add: InsertExecutor_make_def sample_db_def sample_table_def get_table_def sample_values_def
        sample_fhs_def Let_def)
qed

text \<open>A key that the index already has is refused.\<close>

lemma sample_duplicate:
  "fst (insert_next mem_store (\<lambda>_. True) (replicate 512 9)
     \<lparr>ins_tab = sample_table, ins_values = sample_values, ins_fh = \<lparr>fh_fd = 3, fh_hdr = new_file_hdr 12\<rparr>, ins_tab_name = ''t''\<rparr>
     (sample_store, 0)) = Inl DuplicateKeyError"
proof -
  have "sint (record_size (new_file_hdr 12)) = 12" by (simp add: new_file_hdr_def Let_def case_prod_beta)
  then show ?thesis
    by (simp add: insert_next_def RmRecord_sized_def eff_defs sample_values_def sample_table_def Let_def insert_raw_def
        splice_def mem_store_def insert_indexes_def sample_store_def add_record_def make_key_def encode_key_def IndexMeta_make_def
        rebuild_derived_def undo_entries_def eval_simps)
qed

end
