(* ===== verification/Executors.thy ===== *)
theory Executors
  imports Plan_Semantics Insert_Executor
begin

text \<open>
  The executor tree of \<^verbatim>\<open>src/src/execution\<close> and its construction from a plan by \<^verbatim>\<open>Portal::convert_plan_executor\<close>. The
  constructors are modelled with everything they check and compute. The iterator methods of the executors, and those
  that report their columns and tuple length, are exercises without a body (all but those of the INSERT executor): they
  are the components of a record. The lemmas show that the plan of an analysed SELECT is always turned into an executor
  tree, and what the columns of its tuples are.
\<close>

section \<open>Executors\<close>

text \<open>The constructors' arguments are the members the C++ constructors set, in the order of their declaration.\<close>

datatype executor =
    SeqScanExecutor string "Condition list" RmFileHandle "ColMeta list" int
  | IndexScanExecutor string TabMeta "Condition list" RmFileHandle "ColMeta list" int "string list" IndexMeta
  | NestedLoopJoinExecutor executor executor int "ColMeta list" "Condition list"
  | MergeJoinExecutor executor executor int "ColMeta list" Condition ColMeta ColMeta "Condition list"
  | ProjectionExecutor executor "ColMeta list" int "nat list"
  | SortExecutor executor ColMeta bool
  | InsertNode InsertExecutor
  | DeleteExecutor TabMeta "Condition list" RmFileHandle "Rid list" string
  | UpdateExecutor TabMeta "Condition list" RmFileHandle "Rid list" string "SetClause list"

text \<open>The virtual methods without a body, over a state that holds the store and the cursors of the executors.\<close>

record 'd exec_methods =
  m_tuple_len :: "executor \<Rightarrow> int result"
  m_cols :: "executor \<Rightarrow> ColMeta list result"
  m_begin_tuple :: "executor \<Rightarrow> ('d, unit) eff"
  m_next_tuple :: "executor \<Rightarrow> ('d, unit) eff"
  m_is_end :: "executor \<Rightarrow> ('d, bool) eff"
  m_rid :: "executor \<Rightarrow> ('d, Rid) eff"
  m_next :: "executor \<Rightarrow> ('d, byte list) eff"

text \<open>\<^verbatim>\<open>AbstractExecutor::get_col\<close>: the position of the column.\<close>

definition exec_get_col :: "ColMeta list \<Rightarrow> TabCol \<Rightarrow> nat result" where
  "exec_get_col rec_cols target =
     (case find (\<lambda>i. cm_tab (rec_cols ! i) = tab_name target \<and> cm_name (rec_cols ! i) = col_name target) [0..<length rec_cols] of
        None \<Rightarrow> Inl (ColumnNotFoundError (tab_name target @ ''.'' @ col_name target))
      | Some i \<Rightarrow> Inr i)"

section \<open>Constructors\<close>

definition SeqScanExecutor_make ::
    "DbMeta \<Rightarrow> (string \<Rightarrow> RmFileHandle option) \<Rightarrow> string \<Rightarrow> Condition list \<Rightarrow> executor result" where
  "SeqScanExecutor_make db fhs tab conds =
     bindE (get_table db tab) (\<lambda>t.
       case fhs tab of
         None \<Rightarrow> Inl map_at_exn
       | Some fh \<Rightarrow> let cols = tm_cols t in
           Inr (SeqScanExecutor tab conds fh cols (cm_offset (last cols) + cm_len (last cols))))"

text \<open>The loop that puts the scanned table's column on the left of every condition.\<close>

fun orient_conds :: "string \<Rightarrow> Condition list \<Rightarrow> Condition list result" where
  "orient_conds tab [] = Inr []"
| "orient_conds tab (cond # conds) =
     (if tab_name (lhs_col cond) \<noteq> tab then
        if \<not> (\<not> is_rhs_val cond \<and> tab_name (rhs_col cond) = tab) then Inl AssertionFailure
        else bindE (orient_conds tab conds) (\<lambda>cs. Inr (swap_condition cond # cs))
      else bindE (orient_conds tab conds) (\<lambda>cs. Inr (cond # cs)))"

definition IndexScanExecutor_make ::
    "DbMeta \<Rightarrow> (string \<Rightarrow> RmFileHandle option) \<Rightarrow> string \<Rightarrow> Condition list \<Rightarrow> string list \<Rightarrow> executor result" where
  "IndexScanExecutor_make db fhs tab conds index_col_names =
     bindE (get_table db tab) (\<lambda>t.
     bindE (get_index_meta t index_col_names) (\<lambda>index_meta.
       case fhs tab of
         None \<Rightarrow> Inl map_at_exn
       | Some fh \<Rightarrow> let cols = tm_cols t in
           bindE (orient_conds tab conds) (\<lambda>conds'.
             Inr (IndexScanExecutor tab t conds' fh cols (cm_offset (last cols) + cm_len (last cols)) index_col_names index_meta))))"

text \<open>The right child's columns lie behind the left child's tuple.\<close>

definition join_cols :: "int \<Rightarrow> ColMeta list \<Rightarrow> ColMeta list \<Rightarrow> ColMeta list" where
  "join_cols left_len left_cols right_cols = left_cols @ map (\<lambda>col. col\<lparr>cm_offset := cm_offset col + left_len\<rparr>) right_cols"

definition NestedLoopJoinExecutor_make ::
    "'d exec_methods \<Rightarrow> executor \<Rightarrow> executor \<Rightarrow> Condition list \<Rightarrow> executor result" where
  "NestedLoopJoinExecutor_make M left right conds =
     bindE (m_tuple_len M left) (\<lambda>llen. bindE (m_tuple_len M right) (\<lambda>rlen.
     bindE (m_cols M left) (\<lambda>lcols. bindE (m_cols M right) (\<lambda>rcols.
       Inr (NestedLoopJoinExecutor left right (llen + rlen) (join_cols llen lcols rcols) conds)))))"

definition MergeJoinExecutor_make ::
    "'d exec_methods \<Rightarrow> executor \<Rightarrow> executor \<Rightarrow> Condition list \<Rightarrow> executor result" where
  "MergeJoinExecutor_make M left right conds =
     (if conds = [] \<or> is_rhs_val (hd conds) \<or> cond_op (hd conds) \<noteq> OP_EQ
      then Inl (InternalError ''MergeJoinExecutor requires a column equality as its first condition'')
      else bindE (m_tuple_len M left) (\<lambda>llen. bindE (m_tuple_len M right) (\<lambda>rlen.
        bindE (m_cols M left) (\<lambda>lcols. bindE (m_cols M right) (\<lambda>rcols.
        bindE (exec_get_col lcols (lhs_col (hd conds))) (\<lambda>l. bindE (exec_get_col rcols (rhs_col (hd conds))) (\<lambda>r.
          Inr (MergeJoinExecutor left right (llen + rlen) (join_cols llen lcols rcols) (hd conds) (lcols ! l) (rcols ! r)
            (tl conds)))))))))"

fun project_cols :: "ColMeta list \<Rightarrow> TabCol list \<Rightarrow> int \<Rightarrow> (ColMeta list \<times> nat list \<times> int) result" where
  "project_cols prev_cols [] curr_offset = Inr ([], [], curr_offset)"
| "project_cols prev_cols (sel_col # sel_cols) curr_offset =
     bindE (exec_get_col prev_cols sel_col) (\<lambda>pos.
       let col = (prev_cols ! pos)\<lparr>cm_offset := curr_offset\<rparr> in
       bindE (project_cols prev_cols sel_cols (curr_offset + cm_len col)) (\<lambda>(cols, idxs, len).
         Inr (col # cols, pos # idxs, len)))"

definition ProjectionExecutor_make :: "'d exec_methods \<Rightarrow> executor \<Rightarrow> TabCol list \<Rightarrow> executor result" where
  "ProjectionExecutor_make M prev sel_cols =
     bindE (m_cols M prev) (\<lambda>prev_cols.
     bindE (project_cols prev_cols sel_cols 0) (\<lambda>(cols, sel_idxs, len).
       Inr (ProjectionExecutor prev cols len sel_idxs)))"

definition SortExecutor_make :: "'d exec_methods \<Rightarrow> executor \<Rightarrow> TabCol \<Rightarrow> bool \<Rightarrow> executor result" where
  "SortExecutor_make M prev sel_col is_desc =
     bindE (m_cols M prev) (\<lambda>cols. bindE (exec_get_col cols sel_col) (\<lambda>i. Inr (SortExecutor prev (cols ! i) is_desc)))"

definition DeleteExecutor_make ::
    "DbMeta \<Rightarrow> (string \<Rightarrow> RmFileHandle option) \<Rightarrow> string \<Rightarrow> Condition list \<Rightarrow> Rid list \<Rightarrow> executor result" where
  "DeleteExecutor_make db fhs tab conds rids =
     bindE (get_table db tab) (\<lambda>t. case fhs tab of None \<Rightarrow> Inl map_at_exn | Some fh \<Rightarrow> Inr (DeleteExecutor t conds fh rids tab))"

definition UpdateExecutor_make ::
    "DbMeta \<Rightarrow> (string \<Rightarrow> RmFileHandle option) \<Rightarrow> string \<Rightarrow> SetClause list \<Rightarrow> Condition list \<Rightarrow> Rid list \<Rightarrow> executor result" where
  "UpdateExecutor_make db fhs tab sets conds rids =
     bindE (get_table db tab) (\<lambda>t. case fhs tab of None \<Rightarrow> Inl map_at_exn | Some fh \<Rightarrow> Inr (UpdateExecutor t conds fh rids tab sets))"

section \<open>From plans to executors\<close>

fun convert_plan_executor ::
    "'d exec_methods \<Rightarrow> DbMeta \<Rightarrow> (string \<Rightarrow> RmFileHandle option) \<Rightarrow> plan \<Rightarrow> executor result" where
  "convert_plan_executor M db fhs (ProjectionPlan tag subplan sel_cols) =
     bindE (convert_plan_executor M db fhs subplan) (\<lambda>prev. ProjectionExecutor_make M prev sel_cols)"
| "convert_plan_executor M db fhs (ScanPlan tag tab cols conds len fed index_col_names) =
     (if tag = T_SeqScan then SeqScanExecutor_make db fhs tab conds
      else IndexScanExecutor_make db fhs tab conds index_col_names)"
| "convert_plan_executor M db fhs (JoinPlan tag left right conds type) =
     bindE (convert_plan_executor M db fhs left) (\<lambda>l. bindE (convert_plan_executor M db fhs right) (\<lambda>r.
       if tag = T_SortMerge then MergeJoinExecutor_make M l r conds else NestedLoopJoinExecutor_make M l r conds))"
| "convert_plan_executor M db fhs (SortPlan tag subplan sel_col is_desc) =
     bindE (convert_plan_executor M db fhs subplan) (\<lambda>prev. SortExecutor_make M prev sel_col is_desc)"
| "convert_plan_executor M db fhs _ = Inl (NotImplementedError ''executor conversion for this query plan'')"

section \<open>Tuple layouts\<close>

text \<open>
  What the members mean according to their declarations: an executor's tuples have the columns \<^verbatim>\<open>cols_\<close> and the length
  \<^verbatim>\<open>len_\<close>, and sorting keeps the tuples of its input.
\<close>

definition schema_laws :: "'d exec_methods \<Rightarrow> bool" where
  "schema_laws M \<longleftrightarrow>
     (\<forall>tab conds fh cols len. m_cols M (SeqScanExecutor tab conds fh cols len) = Inr cols \<and>
        m_tuple_len M (SeqScanExecutor tab conds fh cols len) = Inr len) \<and>
     (\<forall>tab t conds fh cols len names ix. m_cols M (IndexScanExecutor tab t conds fh cols len names ix) = Inr cols \<and>
        m_tuple_len M (IndexScanExecutor tab t conds fh cols len names ix) = Inr len) \<and>
     (\<forall>l r len cols conds. m_cols M (NestedLoopJoinExecutor l r len cols conds) = Inr cols \<and>
        m_tuple_len M (NestedLoopJoinExecutor l r len cols conds) = Inr len) \<and>
     (\<forall>l r len cols key lk rk conds. m_cols M (MergeJoinExecutor l r len cols key lk rk conds) = Inr cols \<and>
        m_tuple_len M (MergeJoinExecutor l r len cols key lk rk conds) = Inr len) \<and>
     (\<forall>p cols len idxs. m_cols M (ProjectionExecutor p cols len idxs) = Inr cols \<and>
        m_tuple_len M (ProjectionExecutor p cols len idxs) = Inr len) \<and>
     (\<forall>p col desc. m_cols M (SortExecutor p col desc) = m_cols M p \<and> m_tuple_len M (SortExecutor p col desc) = m_tuple_len M p)"

text \<open>Columns one behind the other from \<open>off\<close> on.\<close>

fun packed :: "int \<Rightarrow> ColMeta list \<Rightarrow> bool" where
  "packed off [] \<longleftrightarrow> True"
| "packed off (c # cs) \<longleftrightarrow> cm_offset c = off \<and> packed (off + cm_len c) cs"

lemma packed_append: "packed off (xs @ ys) \<longleftrightarrow> packed off xs \<and> packed (off + sum_list (map cm_len xs)) ys"
  by (induction xs arbitrary: off) (auto simp: ac_simps)

lemma packed_shift: "packed off cs \<Longrightarrow> packed (off + k) (map (\<lambda>c. c\<lparr>cm_offset := cm_offset c + k\<rparr>) cs)"
proof (induction cs arbitrary: off)
  case (Cons c cs)
  then have "packed (off + cm_len c + k) (map (\<lambda>c. c\<lparr>cm_offset := cm_offset c + k\<rparr>) cs)" by simp
  moreover have "off + cm_len c + k = off + k + cm_len c" by simp
  ultimately show ?case using Cons.prems by simp
qed simp

lemma packed_last: "packed off cs \<Longrightarrow> cs \<noteq> [] \<Longrightarrow> cm_offset (last cs) + cm_len (last cs) = off + sum_list (map cm_len cs)"
  by (induction cs arbitrary: off) (auto simp: ac_simps split: if_splits)

lemma layout_ok_packed: "layout_ok off cs \<Longrightarrow> packed off cs"
  by (induction cs arbitrary: off) auto

text \<open>A column as the catalog declares it, wherever it lies in a tuple.\<close>

definition catalog_col :: "DbMeta \<Rightarrow> ColMeta \<Rightarrow> bool" where
  "catalog_col db c \<longleftrightarrow>
     (\<exists>t d. get_table db (cm_tab c) = Inr t \<and> get_col t (cm_name c) = Inr d \<and> cm_type d = cm_type c \<and> cm_len d = cm_len c)"

text \<open>The tuples of \<open>e\<close> consist of all columns of the tables \<open>ts\<close>, packed.\<close>

definition tuple_schema :: "'d exec_methods \<Rightarrow> DbMeta \<Rightarrow> string list \<Rightarrow> executor \<Rightarrow> bool" where
  "tuple_schema M db ts e \<longleftrightarrow>
     (\<exists>cols. m_cols M e = Inr cols \<and> m_tuple_len M e = Inr (sum_list (map cm_len cols)) \<and> packed 0 cols \<and>
        (\<forall>c\<in>set cols. catalog_col db c) \<and>
        (\<forall>tc. (\<exists>d. col_of db ts tc d) \<longrightarrow> (\<exists>c\<in>set cols. cm_tab c = tab_name tc \<and> cm_name c = col_name tc)))"

lemma exec_get_col_Inr:
  assumes "\<exists>c\<in>set cols. cm_tab c = tab_name tc \<and> cm_name c = col_name tc"
  obtains i where "exec_get_col cols tc = Inr i" "i < length cols" "cm_tab (cols ! i) = tab_name tc" "cm_name (cols ! i) = col_name tc"
proof (cases "find (\<lambda>i. cm_tab (cols ! i) = tab_name tc \<and> cm_name (cols ! i) = col_name tc) [0..<length cols]")
  case None
  then have "\<not> (\<exists>c\<in>set cols. cm_tab c = tab_name tc \<and> cm_name c = col_name tc)"
    by (auto simp: find_None_iff in_set_conv_nth)
  with assms show ?thesis by simp
next
  case (Some i)
  then have "i < length cols" "cm_tab (cols ! i) = tab_name tc" "cm_name (cols ! i) = col_name tc"
    by (auto simp: find_Some_iff)
  with Some show ?thesis using that by (simp add: exec_get_col_def)
qed

lemma table_schema:
  assumes "db_ok db" "get_table db tab = Inr t"
  shows "packed 0 (tm_cols t)" "cm_offset (last (tm_cols t)) + cm_len (last (tm_cols t)) = sum_list (map cm_len (tm_cols t))"
    "\<forall>c\<in>set (tm_cols t). catalog_col db c"
    "(\<exists>d. col_of db [tab] tc d) \<Longrightarrow> \<exists>c\<in>set (tm_cols t). cm_tab c = tab_name tc \<and> cm_name c = col_name tc"
proof -
  have ok: "tab_ok t" "tm_name t = tab" using db_ok_table [OF assms] by auto
  then show p: "packed 0 (tm_cols t)" by (simp add: tab_ok_def cols_ok_def layout_ok_packed)
  show "cm_offset (last (tm_cols t)) + cm_len (last (tm_cols t)) = sum_list (map cm_len (tm_cols t))"
    using packed_last [OF p] ok by (simp add: tab_ok_def)
  have tab: "cm_tab c = tab" if "c \<in> set (tm_cols t)" for c using db_ok_col_tab [OF assms that] by simp
  show "\<forall>c\<in>set (tm_cols t). catalog_col db c"
  proof
    fix c assume c: "c \<in> set (tm_cols t)"
    have "get_col t (cm_name c) = Inr c" using get_col_distinct [OF _ c] ok by (simp add: tab_ok_def cols_ok_def)
    then show "catalog_col db c" using assms(2) tab [OF c] by (auto simp: catalog_col_def)
  qed
  show "\<exists>c\<in>set (tm_cols t). cm_tab c = tab_name tc \<and> cm_name c = col_name tc" if "\<exists>d. col_of db [tab] tc d"
  proof -
    from that obtain d where "tab_name tc = tab" "get_col t (col_name tc) = Inr d" using assms(2) by (auto simp: col_of_def)
    with get_col_Inr [of t "col_name tc" d] show ?thesis using tab by auto
  qed
qed

section \<open>The scans of a plan\<close>

fun pscans :: "plan \<Rightarrow> plan list" where
  "pscans (ScanPlan tag tab cols conds len fed ix) = [ScanPlan tag tab cols conds len fed ix]"
| "pscans (JoinPlan tag l r conds type) = pscans l @ pscans r"
| "pscans (SortPlan tag p col desc) = pscans p"
| "pscans (ProjectionPlan tag p cols) = pscans p"
| "pscans (SelectPlan p) = pscans p"
| "pscans _ = []"

text \<open>A scan of an existing table, by one of its indexes if it is not sequential.\<close>

fun scan_ok :: "DbMeta \<Rightarrow> plan \<Rightarrow> bool" where
  "scan_ok db (ScanPlan tag tab cols conds len fed ix) \<longleftrightarrow>
     (\<exists>t. get_table db tab = Inr t \<and> (tag = T_SeqScan \<or> (\<exists>m. get_index_meta t ix = Inr m)))"
| "scan_ok db _ \<longleftrightarrow> False"

lemma get_index_meta_named: "ix \<in> set (tm_indexes t) \<Longrightarrow> \<exists>m. get_index_meta t (map cm_name (ix_cols ix)) = Inr m"
  by (auto simp: get_index_meta_def matches_index_iff find_None_iff split: option.splits)

lemma choose_index_loop_in:
  "choose_index_loop tab conds ixs best = names \<Longrightarrow> names = best \<or> (\<exists>ix\<in>set ixs. names = map cm_name (ix_cols ix))"
  by (induction ixs arbitrary: best) (auto simp: Let_def split: if_splits)

lemma make_scan_plan_ok: "make_scan_plan db tab conds = Inr p \<Longrightarrow> \<forall>x\<in>set (pscans p). scan_ok db x"
proof -
  assume "make_scan_plan db tab conds = Inr p"
  then obtain t names where t: "get_table db tab = Inr t" "names = choose_index_loop tab conds (tm_indexes t) []"
    "ScanPlan_make db (if names \<noteq> [] then T_IndexScan else T_SeqScan) tab conds names = Inr p"
    by (auto simp: make_scan_plan_def choose_index_def Let_def)
  then show ?thesis
    using choose_index_loop_in [of tab conds "tm_indexes t" "[]" names] get_index_meta_named [of _ t]
    by (auto simp: ScanPlan_make_def Let_def split: if_splits)
qed

text \<open>Building the join tree uses the given scans only.\<close>

definition uses_scans :: "(plan \<Rightarrow> bool) \<Rightarrow> plan \<times> scan_state \<Rightarrow> bool" where
  "uses_scans Q rs \<longleftrightarrow> (\<forall>x\<in>set (pscans (fst rs)). Q x) \<and> (\<forall>p. Some p \<in> set (snd (snd rs)) \<longrightarrow> (\<forall>x\<in>set (pscans p). Q x))"

lemma take_scan_plan_in:
  assumes "take_scan_plan i (joined, sp) = Inr (p, st)"
  shows "Some p \<in> set sp" "set (snd st) \<subseteq> insert None (set sp)"
  using assms set_update_subset_insert [of sp i None]
  by (auto simp: take_scan_plan_def split: if_splits) (metis nth_mem not_le)

lemma attach_pscans: "pscans (snd (attach_join_condition c p)) = pscans p"
  by (induction p) (auto simp: Let_def split: prod.splits)

lemma join_step_scans: "uses_scans Q rs \<Longrightarrow> join_step tables c rs = Inr rs' \<Longrightarrow> uses_scans Q rs'"
proof -
  assume u: "uses_scans Q rs" and j: "join_step tables c rs = Inr rs'"
  obtain root joined sp where rs: "rs = (root, joined, sp)" by (metis prod_cases3)
  obtain a b where ab: "table_index tables (tab_name (lhs_col c)) = Inr a" "table_index tables (tab_name (rhs_col c)) = Inr b"
    using j by (auto simp: join_step_def rs)
  consider (none) "\<not> joined ! a" "\<not> joined ! b" | (one) "joined ! a \<noteq> joined ! b" | (both) "joined ! a" "joined ! b" by blast
  then show ?thesis
  proof cases
    case none
    then obtain l st1 r st2 where
      t: "take_scan_plan a (joined, sp) = Inr (l, st1)" "take_scan_plan b st1 = Inr (r, st2)"
      and r: "rs' = (JoinPlan_make T_NestLoop (JoinPlan_make T_NestLoop l r [c]) root [], st2)"
      using j ab by (auto simp: join_step_def rs Let_def)
    obtain j1 sp1 where st1: "st1 = (j1, sp1)" by fastforce
    note i = take_scan_plan_in [OF t(1)] take_scan_plan_in [OF t(2) [unfolded st1]]
    have "Some r \<in> set sp" using i(2,3) by (auto simp: st1)
    moreover have "set (snd st2) \<subseteq> insert None (set sp)" using i(2,4) by (auto simp: st1)
    ultimately show ?thesis using u i(1) by (fastforce simp: uses_scans_def rs r JoinPlan_make_def)
  next
    case one
    then obtain k x st1 c' where "take_scan_plan k (joined, sp) = Inr (x, st1)" "rs' = (JoinPlan_make T_NestLoop x root [c'], st1)"
      using j ab by (auto simp: join_step_def rs Let_def split: if_splits)
    then show ?thesis using u take_scan_plan_in [of k joined sp x st1] by (fastforce simp: uses_scans_def rs JoinPlan_make_def)
  next
    case both
    then have "rs' = (snd (attach_join_condition c root), joined, sp)"
      using j ab by (auto simp: join_step_def rs Let_def split: prod.splits if_splits)
    then show ?thesis using u by (simp add: uses_scans_def rs attach_pscans)
  qed
qed

lemma cross_step_scans: "uses_scans Q rs \<Longrightarrow> cross_step i rs = Inr rs' \<Longrightarrow> uses_scans Q rs'"
proof -
  assume u: "uses_scans Q rs" and j: "cross_step i rs = Inr rs'"
  obtain root joined sp where rs: "rs = (root, joined, sp)" by (metis prod_cases3)
  show ?thesis
  proof (cases "joined ! i")
    case True
    then show ?thesis using u j by (simp add: cross_step_def rs)
  next
    case False
    then obtain x st1 where "take_scan_plan i (joined, sp) = Inr (x, st1)" "rs' = (JoinPlan_make T_NestLoop x root [], st1)"
      using j by (auto simp: cross_step_def rs)
    then show ?thesis using u take_scan_plan_in [of i joined sp x st1] by (fastforce simp: uses_scans_def rs JoinPlan_make_def)
  qed
qed

lemma first_join_scans:
  assumes "\<forall>p. Some p \<in> set sp \<longrightarrow> (\<forall>x\<in>set (pscans p). Q x)" "first_join tables cs (joined, sp) = Inr rs"
  shows "uses_scans Q rs"
proof (cases cs)
  case Nil
  then obtain p st where "take_scan_plan 0 (joined, sp) = Inr (p, st)" "rs = (p, st)"
    using assms(2) by (cases rs) (auto simp: first_join_def)
  then show ?thesis using assms(1) take_scan_plan_in [of 0 joined sp p st] by (fastforce simp: uses_scans_def)
next
  case (Cons c cs')
  then obtain a b l st1 r st2 where t: "take_scan_plan a (joined, sp) = Inr (l, st1)" "take_scan_plan b st1 = Inr (r, st2)"
    and rs: "rs = (JoinPlan_make T_NestLoop l r [c], st2)"
    using assms(2) by (auto simp: first_join_def)
  obtain j1 sp1 where st1: "st1 = (j1, sp1)" by fastforce
  note i = take_scan_plan_in [OF t(1)] take_scan_plan_in [OF t(2) [unfolded st1]]
  have "Some r \<in> set sp" using i(2,3) by (auto simp: st1)
  moreover have "set (snd st2) \<subseteq> insert None (set sp)" using i(2,4) by (auto simp: st1)
  ultimately show ?thesis using assms(1) i(1) by (fastforce simp: uses_scans_def rs JoinPlan_make_def)
qed

lemma make_scans_ok: "make_scans db tables conds = Inr (ps, rest) \<Longrightarrow> p \<in> set ps \<Longrightarrow> \<forall>x\<in>set (pscans p). scan_ok db x"
proof (induction tables arbitrary: conds ps rest)
  case (Cons t tables)
  obtain mine left where m: "take_table_conditions conds t = (mine, left)" by fastforce
  then obtain p1 ps1 where "make_scan_plan db t mine = Inr p1" "make_scans db tables left = Inr (ps1, rest)" "ps = p1 # ps1"
    using Cons.prems(1) by auto
  then show ?case using Cons.IH Cons.prems(2) make_scan_plan_ok [of db t mine p1] by auto
qed simp

lemma build_from_plan_scans:
  assumes "build_from_plan db q = Inr p"
  shows "\<forall>x\<in>set (pscans p). scan_ok db x"
proof -
  obtain ps rest where ps: "make_scans db (bound_tables q) (bound_conds q) = Inr (ps, rest)" "bound_tables q \<noteq> []"
    using assms by (auto simp: build_from_plan_def Let_def split: if_splits)
  have len: "length ps = length ts" if "make_scans db ts cs = Inr (ps, rest)" for ts cs ps rest
    using that by (induction ts arbitrary: cs ps rest) (auto split: prod.splits)
  show ?thesis
  proof (cases "length (bound_tables q) = 1")
    case True
    then have "p = hd ps" "ps \<noteq> []" using assms ps len [OF ps(1)] by (auto simp: build_from_plan_def Let_def)
    then have "p \<in> set ps" by simp
    then show ?thesis using make_scans_ok [OF ps(1)] by blast
  next
    case False
    then have "build_join_tree (bound_tables q) (map Some ps) rest = Inr p"
      using assms ps by (simp add: build_from_plan_def Let_def del: bindE_Inr_iff)
    then obtain rs rs1 st where
      f: "first_join (bound_tables q) rest (replicate (length (bound_tables q)) False, map Some ps) = Inr rs"
      and j: "foldE (join_step (bound_tables q)) (tl rest) rs = Inr rs1"
      and c: "foldE cross_step [0..<length (bound_tables q)] rs1 = Inr (p, st)"
      by (auto simp: build_join_tree_def)
    have "uses_scans (scan_ok db) rs" using first_join_scans [OF _ f] make_scans_ok [OF ps(1)] by auto
    then have "uses_scans (scan_ok db) rs1"
      using foldE_invariant [where I = "uses_scans (scan_ok db)", OF _ j] join_step_scans by blast
    then have "uses_scans (scan_ok db) (p, st)"
      using foldE_invariant [where I = "uses_scans (scan_ok db)", OF _ c] cross_step_scans by blast
    then show ?thesis unfolding uses_scans_def fst_conv by (rule conjunct1)
  qed
qed

lemma choose_join_algorithm_scans: "pscans (choose_join_algorithm sm p) = pscans p"
  by (induction sm p rule: choose_join_algorithm.induct) (auto simp: Let_def split: option.splits)

section \<open>The columns of conditions and sort keys\<close>

definition col_exists :: "DbMeta \<Rightarrow> TabCol \<Rightarrow> bool" where
  "col_exists db tc \<longleftrightarrow> (\<exists>t d. get_table db (tab_name tc) = Inr t \<and> get_col t (col_name tc) = Inr d)"

definition cond_cols :: "DbMeta \<Rightarrow> Condition \<Rightarrow> bool" where
  "cond_cols db c \<longleftrightarrow> col_exists db (lhs_col c) \<and> (\<not> is_rhs_val c \<longrightarrow> col_exists db (rhs_col c))"

fun sort_cols :: "DbMeta \<Rightarrow> plan \<Rightarrow> bool" where
  "sort_cols db (JoinPlan tag l r conds type) \<longleftrightarrow> sort_cols db l \<and> sort_cols db r"
| "sort_cols db (SortPlan tag p col desc) \<longleftrightarrow> sort_cols db p \<and> col_exists db col"
| "sort_cols db _ \<longleftrightarrow> True"

lemma col_of_exists: "(\<exists>d. col_of db ts tc d) \<longleftrightarrow> tab_name tc \<in> set ts \<and> col_exists db tc"
  by (auto simp: col_of_def col_exists_def)

text \<open>Whether a condition's columns exist does not depend on rows and is the same for the turned condition.\<close>

interpretation cc: condition_semantics "\<lambda>c (m :: string \<Rightarrow> unit option). cond_cols db c" for db
  by unfold_locales (auto simp: cond_cols_def)

lemma choose_join_algorithm_sorts:
  "join_tree p \<Longrightarrow> plan_wf p \<Longrightarrow> \<forall>c\<in>set (pconds p). cond_cols db c \<Longrightarrow> sort_cols db (choose_join_algorithm sm p)"
proof (induction p rule: join_tree_induct)
  case (Scan tag tab cols conds len fed ix)
  then show ?case by simp
next
  case (Join l r conds type)
  have "col_exists db (lhs_col key) \<and> col_exists db (rhs_col key)" if "find is_merge_key conds = Some key" for key
    using Join.prems(2) find_first [OF that] by (auto simp: cond_cols_def is_merge_key_def)
  with Join show ?case by (auto simp: Let_def split: option.splits)
qed

text \<open>What the planner guarantees of the plan below the projection.\<close>

definition plan_ready :: "DbMeta \<Rightarrow> plan \<Rightarrow> bool" where
  "plan_ready db p \<longleftrightarrow> plan_wf p \<and> (\<forall>x\<in>set (pscans p). scan_ok db x) \<and> (\<forall>c\<in>set (pconds p). cond_cols db c) \<and> sort_cols db p"

lemma physical_optimization_ready:
  assumes "distinct (bound_tables q)" "bound_tables q \<noteq> []" "\<forall>t\<in>set (bound_tables q). \<exists>table. get_table db t = Inr table"
    "\<forall>c\<in>set (bound_conds q). cond_tabs c \<subseteq> set (bound_tables q) \<and> cond_cols db c"
    "\<forall>tc. bound_order_col q = Some tc \<longrightarrow> tab_name tc \<in> set (bound_tables q) \<and> col_exists db tc"
  obtains root where "physical_optimization db sm q = Inr root" "plan_ready db root" "set (ptabs root) = set (bound_tables q)"
proof -
  have "\<forall>c\<in>set (bound_conds q). cond_tabs c \<subseteq> set (bound_tables q)" using assms(4) by blast
  from cc.build_from_plan_sat [OF assms(1-3) this] obtain p where p: "build_from_plan db q = Inr p" "plan_wf p" "join_tree p"
    "set (ptabs p) = set (bound_tables q)" "\<forall>c\<in>set (pconds p). cond_cols db c"
    using assms(4) by blast
  let ?r = "choose_join_algorithm sm p"
  note wf = choose_join_algorithm_wf [OF p(3,2), of sm]
  have r: "plan_ready db ?r"
    using wf p build_from_plan_scans [OF p(1)] choose_join_algorithm_sorts [OF p(3,2,5)]
    by (simp add: plan_ready_def choose_join_algorithm_scans)
  show ?thesis
  proof (cases "bound_order_col q")
    case None
    then show ?thesis using that [of ?r] p(1,4) r wf by (simp add: physical_optimization_def Let_def del: bindE_Inr_iff)
  next
    case (Some tc)
    have "plan_ready db (SortPlan T_Sort ?r tc (bound_order_desc q))"
      using r wf p(4) assms(5) Some by (simp add: plan_ready_def)
    then show ?thesis using that [of "SortPlan T_Sort ?r tc (bound_order_desc q)"] p(1,4) wf Some
      by (simp add: physical_optimization_def Let_def del: bindE_Inr_iff)
  qed
qed

section \<open>Every plan of a SELECT becomes an executor tree\<close>

lemma schema_lawsD:
  assumes "schema_laws M"
  shows "m_cols M (SeqScanExecutor tab conds fh cols len) = Inr cols" "m_tuple_len M (SeqScanExecutor tab conds fh cols len) = Inr len"
    "m_cols M (IndexScanExecutor tab t conds fh cols len names ix) = Inr cols"
    "m_tuple_len M (IndexScanExecutor tab t conds fh cols len names ix) = Inr len"
    "m_cols M (NestedLoopJoinExecutor l r len cols conds) = Inr cols"
    "m_tuple_len M (NestedLoopJoinExecutor l r len cols conds) = Inr len"
    "m_cols M (MergeJoinExecutor l r len cols key lk rk conds) = Inr cols"
    "m_tuple_len M (MergeJoinExecutor l r len cols key lk rk conds) = Inr len"
    "m_cols M (ProjectionExecutor p cols len idxs) = Inr cols" "m_tuple_len M (ProjectionExecutor p cols len idxs) = Inr len"
    "m_cols M (SortExecutor p col desc) = m_cols M p" "m_tuple_len M (SortExecutor p col desc) = m_tuple_len M p"
  using assms by (simp_all add: schema_laws_def)

lemma orient_conds_own: "\<forall>c\<in>set conds. table_condition tab c \<Longrightarrow> orient_conds tab conds = Inr conds"
  by (induction conds) (auto simp: table_condition_def)

lemma table_scan_schema:
  assumes "db_ok db" "get_table db tab = Inr t" "m_cols M e = Inr (tm_cols t)"
    "m_tuple_len M e = Inr (cm_offset (last (tm_cols t)) + cm_len (last (tm_cols t)))"
  shows "tuple_schema M db [tab] e"
  using assms(3,4) table_schema [OF assms(1,2)] by (simp add: tuple_schema_def)

lemma join_cols_schema:
  assumes "tuple_schema M db ts l" "tuple_schema M db us r" "m_cols M l = Inr lcols" "m_cols M r = Inr rcols"
    "m_tuple_len M l = Inr llen" "m_tuple_len M r = Inr rlen"
    "m_cols M e = Inr (join_cols llen lcols rcols)" "m_tuple_len M e = Inr (llen + rlen)"
  shows "tuple_schema M db (ts @ us) e"
proof -
  have L: "packed 0 lcols" "llen = sum_list (map cm_len lcols)" "\<forall>c\<in>set lcols. catalog_col db c"
    "\<And>tc. \<exists>d. col_of db ts tc d \<Longrightarrow> \<exists>c\<in>set lcols. cm_tab c = tab_name tc \<and> cm_name c = col_name tc"
    using assms(1,3,5) by (auto simp: tuple_schema_def)
  have R: "packed 0 rcols" "rlen = sum_list (map cm_len rcols)" "\<forall>c\<in>set rcols. catalog_col db c"
    "\<And>tc. \<exists>d. col_of db us tc d \<Longrightarrow> \<exists>c\<in>set rcols. cm_tab c = tab_name tc \<and> cm_name c = col_name tc"
    using assms(2,4,6) by (auto simp: tuple_schema_def)
  let ?sh = "\<lambda>c. c\<lparr>cm_offset := cm_offset c + llen\<rparr>"
  have "packed 0 (join_cols llen lcols rcols)"
    using L(1,2) packed_shift [OF R(1), of llen] by (simp add: join_cols_def packed_append)
  moreover have "llen + rlen = sum_list (map cm_len (join_cols llen lcols rcols))"
    using L(2) R(2) by (simp add: join_cols_def comp_def)
  moreover have "\<forall>c\<in>set (join_cols llen lcols rcols). catalog_col db c"
    using L(3) R(3) by (auto simp: join_cols_def catalog_col_def)
  moreover have "\<exists>c\<in>set (join_cols llen lcols rcols). cm_tab c = tab_name tc \<and> cm_name c = col_name tc"
    if "\<exists>d. col_of db (ts @ us) tc d" for tc
  proof -
    from that consider "\<exists>d. col_of db ts tc d" | "\<exists>d. col_of db us tc d" by (auto simp: col_of_def)
    then show ?thesis
    proof cases
      case 1
      then show ?thesis using L(4) by (auto simp: join_cols_def)
    next
      case 2
      then obtain c where "c \<in> set rcols" "cm_tab c = tab_name tc" "cm_name c = col_name tc" using R(4) by blast
      then show ?thesis by (intro bexI [of _ "?sh c"]) (auto simp: join_cols_def)
    qed
  qed
  ultimately show ?thesis using assms(7,8) by (auto simp: tuple_schema_def)
qed

lemma tuple_schema_col:
  assumes "tuple_schema M db ts e" "tab_name tc \<in> set ts" "col_exists db tc" "m_cols M e = Inr cols"
  obtains i where "exec_get_col cols tc = Inr i" "i < length cols" "cm_tab (cols ! i) = tab_name tc" "cm_name (cols ! i) = col_name tc"
  using exec_get_col_Inr [of cols tc] assms col_of_exists [of db ts tc] by (auto simp: tuple_schema_def)

lemma convert_ready:
  assumes M: "schema_laws M" and db: "db_ok db"
  shows "plan_ready db p \<Longrightarrow> \<forall>t\<in>set (ptabs p). fhs t \<noteq> None \<Longrightarrow>
    \<exists>e. convert_plan_executor M db fhs p = Inr e \<and> tuple_schema M db (ptabs p) e"
proof (induction p)
  case (ScanPlan tag tab cols conds len fed ix)
  then obtain t where t: "get_table db tab = Inr t" "tag = T_SeqScan \<or> (\<exists>m. get_index_meta t ix = Inr m)"
    by (auto simp: plan_ready_def)
  obtain fh where fh: "fhs tab = Some fh" using ScanPlan.prems(2) by auto
  have own: "orient_conds tab conds = Inr conds" using ScanPlan.prems(1) by (auto simp: plan_ready_def intro: orient_conds_own)
  show ?case
  proof (cases "tag = T_SeqScan")
    case True
    then show ?thesis using t(1) fh
      by (simp add: SeqScanExecutor_make_def Let_def table_scan_schema [OF db t(1)] schema_lawsD [OF M] del: bindE_Inr_iff)
  next
    case False
    then obtain m where "get_index_meta t ix = Inr m" using t(2) by blast
    with False show ?thesis using t(1) fh own
      by (simp add: IndexScanExecutor_make_def Let_def table_scan_schema [OF db t(1)] schema_lawsD [OF M] del: bindE_Inr_iff)
  qed
next
  case (JoinPlan tag l r conds type)
  have ready: "plan_ready db l" "plan_ready db r" using JoinPlan.prems(1) by (auto simp: plan_ready_def)
  obtain a where a: "convert_plan_executor M db fhs l = Inr a" "tuple_schema M db (ptabs l) a"
    using JoinPlan.IH(1) [OF ready(1)] JoinPlan.prems(2) by auto
  obtain b where b: "convert_plan_executor M db fhs r = Inr b" "tuple_schema M db (ptabs r) b"
    using JoinPlan.IH(2) [OF ready(2)] JoinPlan.prems(2) by auto
  obtain lcols llen rcols rlen where s: "m_cols M a = Inr lcols" "m_tuple_len M a = Inr llen" "m_cols M b = Inr rcols"
    "m_tuple_len M b = Inr rlen"
    using a(2) b(2) by (auto simp: tuple_schema_def)
  note js = join_cols_schema [OF a(2) b(2) s(1,3,2,4)]
  show ?case
  proof (cases "tag = T_SortMerge")
    case False
    then show ?thesis using a(1) b(1) s by (simp add: NestedLoopJoinExecutor_make_def js schema_lawsD [OF M] del: bindE_Inr_iff)
  next
    case True
    then obtain key rest where k: "conds = key # rest" "is_merge_key key"
      using JoinPlan.prems(1) by (auto simp: plan_ready_def)
    then have kc: "tab_name (lhs_col key) \<in> set (ptabs l)" "tab_name (rhs_col key) \<in> set (ptabs r)"
      "col_exists db (lhs_col key)" "col_exists db (rhs_col key)" "\<not> is_rhs_val key" "cond_op key = OP_EQ"
      using JoinPlan.prems(1) by (auto simp: plan_ready_def cond_cols_def is_merge_key_def)
    obtain i where i: "exec_get_col lcols (lhs_col key) = Inr i" using tuple_schema_col [OF a(2) kc(1,3) s(1)] .
    obtain j where j: "exec_get_col rcols (rhs_col key) = Inr j" using tuple_schema_col [OF b(2) kc(2,4) s(3)] .
    show ?thesis using True a(1) b(1) s k(1) kc(5,6) i j
      by (simp add: MergeJoinExecutor_make_def js schema_lawsD [OF M] del: bindE_Inr_iff)
  qed
next
  case (SortPlan tag p col desc)
  have ready: "plan_ready db p" "tab_name col \<in> set (ptabs p)" "col_exists db col"
    using SortPlan.prems(1) by (auto simp: plan_ready_def)
  obtain a where a: "convert_plan_executor M db fhs p = Inr a" "tuple_schema M db (ptabs p) a"
    using SortPlan.IH [OF ready(1)] SortPlan.prems(2) by auto
  obtain cols where s: "m_cols M a = Inr cols" using a(2) by (auto simp: tuple_schema_def)
  obtain i where "exec_get_col cols col = Inr i" using tuple_schema_col [OF a(2) ready(2,3) s] .
  with a s show ?case by (simp add: SortExecutor_make_def tuple_schema_def schema_lawsD [OF M] del: bindE_Inr_iff)
qed (auto simp: plan_ready_def)

text \<open>The projection keeps the selected columns with their types and lengths and packs them anew.\<close>

lemma project_cols_ok:
  assumes "tuple_schema M db ts e" "m_cols M e = Inr prev"
  shows "\<forall>tc\<in>set sel. \<exists>d. col_of db ts tc d \<Longrightarrow> \<exists>cols idxs. project_cols prev sel off = Inr (cols, idxs, off + sum_list (map cm_len cols)) \<and>
    packed off cols \<and> map (\<lambda>c. (cm_tab c, cm_name c)) cols = map (\<lambda>tc. (tab_name tc, col_name tc)) sel \<and>
    (\<forall>c\<in>set cols. catalog_col db c)"
proof (induction sel arbitrary: off)
  case (Cons tc sel)
  have "tab_name tc \<in> set ts" "col_exists db tc" using Cons.prems col_of_exists [of db ts tc] by auto
  then obtain i where i: "exec_get_col prev tc = Inr i" "i < length prev" "cm_tab (prev ! i) = tab_name tc"
    "cm_name (prev ! i) = col_name tc"
    using tuple_schema_col [OF assms(1) _ _ assms(2)] by blast
  have cat: "catalog_col db (prev ! i)" using assms i(2) by (auto simp: tuple_schema_def)
  obtain cols idxs where "project_cols prev sel (off + cm_len (prev ! i)) =
      Inr (cols, idxs, off + cm_len (prev ! i) + sum_list (map cm_len cols))" "packed (off + cm_len (prev ! i)) cols"
    "map (\<lambda>c. (cm_tab c, cm_name c)) cols = map (\<lambda>tc. (tab_name tc, col_name tc)) sel" "\<forall>c\<in>set cols. catalog_col db c"
    using Cons.IH [of "off + cm_len (prev ! i)"] Cons.prems by auto
  then show ?case using i cat
    by (intro exI [of _ "(prev ! i)\<lparr>cm_offset := off\<rparr> # cols"] exI [of _ "i # idxs"])
      (auto simp: Let_def catalog_col_def simp del: bindE_Inr_iff)
qed simp

end
