(* ===== verification/Portal.thy ===== *)
theory Portal
  imports Executors
begin

text \<open>
  \<^verbatim>\<open>Portal\<close> of \<^verbatim>\<open>src/src/portal/portal.cpp\<close> and \<^verbatim>\<open>QlManager\<close> of \<^verbatim>\<open>src/src/execution/execution_manager.cpp\<close>: preparing a plan for
  execution, running it, and turning the tuples of a SELECT into the result set. What the exercises of the later labs do
  (dropping tables, indexes, ending transactions) is an argument. The lemmas show that an analysed SELECT is run to the
  end of its tuples and that the result set is their decoding.
\<close>

section \<open>The state of a request\<close>

text \<open>
  The objects a statement works on: the system manager with the names of the open indexes, the planner's setting, the
  transactions by identifier; the session's transaction, and the context with its transaction and result buffer. A
  transaction pointer is the transaction's identifier.
\<close>

datatype TransactionState = TS_DEFAULT | TS_GROWING | TS_SHRINKING | TS_COMMITTED | TS_ABORTED

record Transaction =
  txn_mode :: bool
  txn_state :: TransactionState

record 'd kernel =
  k_sm :: "'d SmManager"
  k_indexes :: "string \<Rightarrow> bool"
  k_sortmerge :: bool
  k_txns :: "int \<Rightarrow> Transaction option"

record 'd request =
  rq_kernel :: "'d kernel"
  rq_txn_id :: int
  rq_txn :: "int option"
  rq_result :: WireResultSet

text \<open>The exercises without a body that a statement can reach.\<close>

record 'd lab_ops =
  lab_store :: "'d store_ops"
  lab_exec :: "'d exec_methods"
  drop_table_op :: "string \<Rightarrow> ('d kernel, unit) eff"
  create_index_op :: "string \<Rightarrow> string list \<Rightarrow> bool \<Rightarrow> ('d kernel, unit) eff"
  drop_index_op :: "string \<Rightarrow> string list \<Rightarrow> ('d kernel, unit) eff"
  commit_op :: "int option \<Rightarrow> ('d kernel, unit) eff"
  abort_op :: "int option \<Rightarrow> ('d kernel, unit) eff"

text \<open>The files below the catalog: how JSON is printed, what the file system allows, and the disk manager.\<close>

record 'd storage_env =
  se_dump :: "json \<Rightarrow> string option"
  se_env :: file_env
  se_disk :: "'d disk_ops"
  se_heap :: "byte list"

definition on_kernel :: "('d kernel, 'a) eff \<Rightarrow> ('d request, 'a) eff" where
  "on_kernel = onS rq_kernel (\<lambda>k q. q\<lparr>rq_kernel := k\<rparr>)"

definition on_sm :: "('d SmManager, 'a) eff \<Rightarrow> ('d kernel, 'a) eff" where
  "on_sm = onS k_sm (\<lambda>m k. k\<lparr>k_sm := m\<rparr>)"

definition on_store :: "('d, 'a) eff \<Rightarrow> ('d request, 'a) eff" where
  "on_store m = on_kernel (on_sm (on_disk m))"

definition on_result :: "(WireResultSet option \<Rightarrow> rmdb_error option \<times> WireResultSet option) \<Rightarrow> ('d request, unit) eff" where
  "on_result f q =
     (case f (Some (rq_result q)) of (err, rs) \<Rightarrow>
        (case err of None \<Rightarrow> Inr () | Some e \<Rightarrow> Inl e, case rs of None \<Rightarrow> q | Some r \<Rightarrow> q\<lparr>rq_result := r\<rparr>))"

definition result_step :: "(WireResultSet \<Rightarrow> rmdb_error option \<times> WireResultSet) \<Rightarrow> ('d request, unit) eff" where
  "result_step f = on_result (\<lambda>r. case r of None \<Rightarrow> (None, None) | Some rs \<Rightarrow> map_prod id Some (f rs))"

abbreviation sm_of :: "'d request \<Rightarrow> 'd SmManager" where
  "sm_of q \<equiv> k_sm (rq_kernel q)"

definition get_transaction :: "int \<Rightarrow> 'd kernel \<Rightarrow> int option" where
  "get_transaction txn_id k =
     (if txn_id = INVALID_TXN_ID then None else case k_txns k txn_id of None \<Rightarrow> None | Some t \<Rightarrow> Some txn_id)"

section \<open>Running statements\<close>

definition run_mutli_query :: "'d lab_ops \<Rightarrow> 'd storage_env \<Rightarrow> plan \<Rightarrow> ('d request, unit) eff" where
  "run_mutli_query L E p =
     (case p of
        DDLPlan tag tab names defs unique \<Rightarrow>
          (case tag of
             T_CreateTable \<Rightarrow> on_kernel (on_sm (create_table (se_dump E) (se_env E) (se_disk E) tab defs))
           | T_DropTable \<Rightarrow> on_kernel (drop_table_op L tab)
           | T_CreateIndex \<Rightarrow> on_kernel (create_index_op L tab names unique)
           | T_DropIndex \<Rightarrow> on_kernel (drop_index_op L tab names)
           | _ \<Rightarrow> throwS (InternalError ''Unexpected ddl type''))
      | _ \<Rightarrow> retS ())"

definition help_info :: string where
  "help_info =
     ''Supported SQL syntax:\<newline>'' @
     ''  command ;\<newline>'' @
     ''command:\<newline>'' @
     ''  SHOW DATABASE\<newline>'' @
     ''  SHOW TABLES\<newline>'' @
     ''  DESC table_name\<newline>'' @
     ''  CREATE TABLE table_name (column_name type [, column_name type ...])\<newline>'' @
     ''  DROP TABLE table_name\<newline>'' @
     ''  CREATE [UNIQUE] INDEX table_name (column_name)\<newline>'' @
     ''  DROP INDEX table_name (column_name)\<newline>'' @
     ''  INSERT INTO table_name VALUES (value [, value ...])\<newline>'' @
     ''  DELETE FROM table_name [WHERE where_clause]\<newline>'' @
     ''  UPDATE table_name SET column_name = value [, column_name = value ...] [WHERE where_clause]\<newline>'' @
     ''  SELECT selector FROM table_name [{, | JOIN} table_name ...] [WHERE where_clause]\<newline>'' @
     ''  SET enable_sortmerge = {true | false}\<newline>'' @
     ''type:\<newline>'' @
     ''  {INT | FLOAT | CHAR(n)}\<newline>'' @
     ''where_clause:\<newline>'' @
     ''  condition [AND condition ...]\<newline>'' @
     ''condition:\<newline>'' @
     ''  column op {column | value}\<newline>'' @
     ''column:\<newline>'' @
     ''  [table_name.]column_name\<newline>'' @
     ''op:\<newline>'' @
     ''  {= | <> | < | > | <= | >=}\<newline>'' @
     ''selector:\<newline>'' @
     ''  {* | column [, column ...]}\<newline>''"

text \<open>COMMIT and ABORT: the context takes the session's transaction, which is ended and forgotten.\<close>

definition end_transaction :: "(int option \<Rightarrow> ('d kernel, unit) eff) \<Rightarrow> ('d request, unit) eff" where
  "end_transaction finish q =
     (if rq_txn q = None then throwS (NotImplementedError ''Lab 4 transaction control'') q
      else let q1 = q\<lparr>rq_txn := get_transaction (rq_txn_id q) (rq_kernel q)\<rparr> in
        thenS (on_kernel (finish (rq_txn q1))) (\<lambda>q. (Inr (), q\<lparr>rq_txn := None, rq_txn_id := INVALID_TXN_ID\<rparr>)) q1)"

definition set_txn_mode :: "int \<Rightarrow> 'd kernel \<Rightarrow> 'd kernel" where
  "set_txn_mode t k = k\<lparr>k_txns := (k_txns k)(t := map_option (\<lambda>x. x\<lparr>txn_mode := True\<rparr>) (k_txns k t))\<rparr>"

definition run_cmd_utility :: "'d lab_ops \<Rightarrow> plan \<Rightarrow> ('d request, unit) eff" where
  "run_cmd_utility L p q =
     (case p of
        OtherPlan tag tab \<Rightarrow>
          (case tag of
             T_Help \<Rightarrow> result_step (set_raw_text ''Help'' help_info) q
           | T_ShowDatabase \<Rightarrow> on_result (show_database (sm_db (sm_of q))) q
           | T_ShowTable \<Rightarrow> on_result (show_tables (sm_db (sm_of q))) q
           | T_DescTable \<Rightarrow> on_result (desc_table (sm_db (sm_of q)) tab) q
           | T_Transaction_begin \<Rightarrow>
               (case rq_txn q of
                  None \<Rightarrow> throwS (NotImplementedError ''Lab 4 transaction control'') q
                | Some t \<Rightarrow> (Inr (), q\<lparr>rq_kernel := set_txn_mode t (rq_kernel q)\<rparr>))
           | T_Transaction_commit \<Rightarrow> end_transaction (commit_op L) q
           | T_Transaction_rollback \<Rightarrow> end_transaction (abort_op L) q
           | T_Transaction_abort \<Rightarrow> end_transaction (abort_op L) q
           | _ \<Rightarrow> throwS (InternalError ''Unexpected field type'') q)
      | SetKnobPlan knob v \<Rightarrow>
          if knob \<noteq> ''enable_sortmerge'' then throwS (InternalError (''Unexpected setting: '' @ knob)) q
          else (Inr (), q\<lparr>rq_kernel := (rq_kernel q)\<lparr>k_sortmerge := v\<rparr>\<rparr>)
      | _ \<Rightarrow> retS () q)"

text \<open>
  The loop \<^verbatim>\<open>for (begin_tuple(); !is_end(); next_tuple())\<close>, after its first step. \<open>None\<close> says that the given number of
  rounds was not enough.
\<close>

fun tuple_loop :: "nat \<Rightarrow> ('s, bool) eff \<Rightarrow> ('s, unit) eff \<Rightarrow> ('s, unit) eff \<Rightarrow> 's \<Rightarrow> (unit result \<times> 's) option" where
  "tuple_loop 0 is_end body next_tuple s = None"
| "tuple_loop (Suc n) is_end body next_tuple s =
     (case is_end s of
        (Inl e, s1) \<Rightarrow> Some (Inl e, s1)
      | (Inr True, s1) \<Rightarrow> Some (Inr (), s1)
      | (Inr False, s1) \<Rightarrow>
          (case thenS body next_tuple s1 of
             (Inl e, s2) \<Rightarrow> Some (Inl e, s2)
           | (Inr _, s2) \<Rightarrow> tuple_loop n is_end body next_tuple s2))"

definition decode_cell :: "byte list \<Rightarrow> ColMeta \<Rightarrow> WireResultCell" where
  "decode_cell tuple col =
     (let rec_buf = drop (nat (cm_offset col)) tuple;
          cell = \<lparr>wcell_type = cm_type col, wcell_int = 0, wcell_float = 0, wcell_str = []\<rparr> in
      case cm_type col of
        TYPE_INT \<Rightarrow> cell\<lparr>wcell_int := load_i32 rec_buf\<rparr>
      | TYPE_FLOAT \<Rightarrow> cell\<lparr>wcell_float := load_i32 rec_buf\<rparr>
      | TYPE_STRING \<Rightarrow> cell\<lparr>wcell_str := map char_of_byte (takeWhile (\<lambda>b. b \<noteq> 0) (take (nat (cm_len col)) rec_buf))\<rparr>)"

definition decode_row :: "ColMeta list \<Rightarrow> byte list \<Rightarrow> WireResultCell list" where
  "decode_row cols tuple = map (decode_cell tuple) cols"

definition result_columns :: "TabCol list \<Rightarrow> ColMeta list \<Rightarrow> WireResultColumn list" where
  "result_columns sel_cols proj_cols =
     (let captions = map col_name sel_cols in
      map (\<lambda>i. \<lparr>wcol_name = if i < length captions then captions ! i else cm_name (proj_cols ! i), wcol_type = cm_type (proj_cols ! i)\<rparr>)
        [0..<length proj_cols])"

definition select_from :: "'d lab_ops \<Rightarrow> nat \<Rightarrow> executor \<Rightarrow> TabCol list \<Rightarrow> 'd request \<Rightarrow> (unit result \<times> 'd request) option" where
  "select_from L n root sel_cols q =
     (case m_cols (lab_exec L) root of
        Inl e \<Rightarrow> Some (Inl e, q)
      | Inr proj_cols \<Rightarrow>
          (case thenS (result_step (set_columns (result_columns sel_cols proj_cols))) (on_store (m_begin_tuple (lab_exec L) root)) q of
             (Inl e, q1) \<Rightarrow> Some (Inl e, q1)
           | (Inr _, q1) \<Rightarrow>
               tuple_loop n (on_store (m_is_end (lab_exec L) root))
                 (bindS (on_store (m_next (lab_exec L) root)) (\<lambda>tuple. result_step (add_row (decode_row proj_cols tuple))))
                 (on_store (m_next_tuple (lab_exec L) root)) q1))"

definition run_dml :: "'d lab_ops \<Rightarrow> 'd storage_env \<Rightarrow> executor \<Rightarrow> ('d request, unit) eff" where
  "run_dml L E e q =
     (case e of
        InsertNode x \<Rightarrow> thenS (on_store (insert_next (lab_store L) (k_indexes (rq_kernel q)) (se_heap E) x)) (retS ()) q
      | _ \<Rightarrow> thenS (on_store (m_next (lab_exec L) e)) (retS ()) q)"

section \<open>The portal\<close>

datatype PortalType = PT_Select | PT_Dml | PT_Ddl | PT_Utility

record PortalStmt =
  portal_type :: PortalType
  sel_cols :: "TabCol list"
  portal_root :: "executor option"
  portal_plan :: plan

definition collect_rids :: "'d lab_ops \<Rightarrow> nat \<Rightarrow> executor \<Rightarrow> 'd request \<Rightarrow> (Rid list result \<times> 'd request) option" where
  "collect_rids L n scan q =
     (case on_store (m_begin_tuple (lab_exec L) scan) q of
        (Inl e, q1) \<Rightarrow> Some (Inl e, q1)
      | (Inr _, q1) \<Rightarrow>
          map_option (\<lambda>(r, rids, q2). (case r of Inl e \<Rightarrow> Inl e | Inr _ \<Rightarrow> Inr rids, q2))
            (tuple_loop n (onS snd (\<lambda>q (l, _). (l, q)) (on_store (m_is_end (lab_exec L) scan)))
              (\<lambda>(l, q). case on_store (m_rid (lab_exec L) scan) q of (Inl e, q') \<Rightarrow> (Inl e, (l, q')) | (Inr rid, q') \<Rightarrow> (Inr (), (l @ [rid], q')))
              (onS snd (\<lambda>q (l, _). (l, q)) (on_store (m_next_tuple (lab_exec L) scan))) ([], q1)))"

text \<open>UPDATE and DELETE: the scan is run to its end before the executor is built.\<close>

definition start_dml ::
    "'d lab_ops \<Rightarrow> nat \<Rightarrow> plan \<Rightarrow> plan \<Rightarrow> (Rid list \<Rightarrow> executor result) \<Rightarrow> 'd request \<Rightarrow> (PortalStmt result \<times> 'd request) option" where
  "start_dml L n p scan_plan mk q =
     (case convert_plan_executor (lab_exec L) (sm_db (sm_of q)) (sm_fhs (sm_of q)) scan_plan of
        Inl e \<Rightarrow> Some (Inl e, q)
      | Inr scan \<Rightarrow>
          map_option (\<lambda>(r, q1). (bindE r (\<lambda>rids. bindE (mk rids) (\<lambda>root.
              Inr \<lparr>portal_type = PT_Dml, sel_cols = [], portal_root = Some root, portal_plan = p\<rparr>)), q1))
            (collect_rids L n scan q))"

definition portal_start :: "'d lab_ops \<Rightarrow> nat \<Rightarrow> plan \<Rightarrow> 'd request \<Rightarrow> (PortalStmt result \<times> 'd request) option" where
  "portal_start L n p q =
     (let db = sm_db (sm_of q); fhs = sm_fhs (sm_of q);
          plain = (\<lambda>t. Some (Inr \<lparr>portal_type = t, sel_cols = [], portal_root = None, portal_plan = p\<rparr>, q)) in
      case p of
        OtherPlan tag tab \<Rightarrow> plain PT_Utility
      | SetKnobPlan knob v \<Rightarrow> plain PT_Utility
      | DDLPlan tag tab names defs unique \<Rightarrow> plain PT_Ddl
      | SelectPlan projection \<Rightarrow>
          Some (bindE (convert_plan_executor (lab_exec L) db fhs projection) (\<lambda>root.
            Inr \<lparr>portal_type = PT_Select,
              sel_cols = (case projection of ProjectionPlan tag sub cols \<Rightarrow> cols | _ \<Rightarrow> []), portal_root = Some root, portal_plan = p\<rparr>), q)
      | UpdatePlan scan tab conds sets \<Rightarrow> start_dml L n p scan (UpdateExecutor_make db fhs tab sets conds) q
      | DeletePlan scan tab conds \<Rightarrow> start_dml L n p scan (DeleteExecutor_make db fhs tab conds) q
      | InsertPlan tab vals \<Rightarrow>
          Some (bindE (InsertExecutor_make db fhs tab vals) (\<lambda>x.
            Inr \<lparr>portal_type = PT_Dml, sel_cols = [], portal_root = Some (InsertNode x), portal_plan = p\<rparr>), q)
      | _ \<Rightarrow> Some (Inl (InternalError ''unexpected plan type''), q))"

text \<open>The root of a SELECT or DML statement is never null, by the construction above.\<close>

definition portal_run :: "'d lab_ops \<Rightarrow> 'd storage_env \<Rightarrow> nat \<Rightarrow> PortalStmt \<Rightarrow> 'd request \<Rightarrow> (unit result \<times> 'd request) option" where
  "portal_run L E n st q =
     (case (portal_type st, portal_root st) of
        (PT_Select, Some root) \<Rightarrow> select_from L n root (sel_cols st) q
      | (PT_Dml, Some root) \<Rightarrow> Some (run_dml L E root q)
      | (PT_Ddl, _) \<Rightarrow> Some (run_mutli_query L E (portal_plan st) q)
      | (PT_Utility, _) \<Rightarrow> Some (run_cmd_utility L (portal_plan st) q)
      | _ \<Rightarrow> Some (Inl AssertionFailure, q))"

section \<open>Tuples\<close>

definition set_disk :: "'d \<Rightarrow> 'd request \<Rightarrow> 'd request" where
  "set_disk d q = q\<lparr>rq_kernel := (rq_kernel q)\<lparr>k_sm := (sm_of q)\<lparr>sm_disk := d\<rparr>\<rparr>\<rparr>"

lemma on_store_eq: "on_store m q = (case m (sm_disk (sm_of q)) of (r, d) \<Rightarrow> (r, set_disk d q))"
  by (simp add: on_store_def on_kernel_def on_sm_def on_disk_def onS_def set_disk_def case_prod_beta)

lemma result_step_eq:
  "result_step f q = (case f (rq_result q) of (err, rs) \<Rightarrow> (case err of None \<Rightarrow> Inr () | Some e \<Rightarrow> Inl e, q\<lparr>rq_result := rs\<rparr>))"
  by (simp add: result_step_def on_result_def case_prod_beta)

lemma set_disk_simps [simp]:
  "sm_disk (sm_of (set_disk d q)) = d" "rq_result (set_disk d q) = rq_result q" "set_disk d (set_disk d' q) = set_disk d q"
  "sm_disk (sm_of (q\<lparr>rq_result := rs\<rparr>)) = sm_disk (sm_of q)" "set_disk d (q\<lparr>rq_result := rs\<rparr>) = (set_disk d q)\<lparr>rq_result := rs\<rparr>"
  by (simp_all add: set_disk_def)

text \<open>The tuples an executor returns from a state on, in the order of the loop's calls, and the state at its end.\<close>

inductive yields :: "'d exec_methods \<Rightarrow> executor \<Rightarrow> byte list list \<Rightarrow> 'd \<Rightarrow> 'd \<Rightarrow> bool" for M e where
  yields_end: "m_is_end M e d = (Inr True, d') \<Longrightarrow> yields M e [] d d'"
| yields_tuple: "m_is_end M e d = (Inr False, d1) \<Longrightarrow> m_next M e d1 = (Inr t, d2) \<Longrightarrow> m_next_tuple M e d2 = (Inr (), d3) \<Longrightarrow>
    yields M e ts d3 d' \<Longrightarrow> yields M e (t # ts) d d'"

text \<open>How many bytes of the result buffer a SELECT needs.\<close>

definition columns_bytes :: "WireResultColumn list \<Rightarrow> nat" where
  "columns_bytes cols = length cols * sizeof_WireResultColumn + sum_list (map (length \<circ> wcol_name) cols)"

definition rows_bytes :: "WireResultCell list list \<Rightarrow> nat" where
  "rows_bytes rs = sum_list (map row_bytes rs)"

lemma add_row_fits:
  "buffered_bytes s \<le> kMaxBufferedBytes \<Longrightarrow> add_row row s =
     (if buffered_bytes s + row_bytes row \<le> kMaxBufferedBytes
      then (None, s\<lparr>buffered_bytes := buffered_bytes s + row_bytes row, rs_rows := rs_rows s @ [row]\<rparr>)
      else (Some (InternalError ''query result exceeds the 16 MiB teaching wire buffer''), s))"
  by (auto simp: add_row_def try_account_def)

lemma select_loop:
  assumes "yields M e ts d d'" "length ts < n" "sm_disk (sm_of q) = d" "buffered_bytes (rq_result q) \<le> kMaxBufferedBytes"
  shows "\<exists>r q'. tuple_loop n (on_store (m_is_end M e))
      (bindS (on_store (m_next M e)) (\<lambda>tuple. result_step (add_row (decode_row cols tuple)))) (on_store (m_next_tuple M e)) q = Some (r, q') \<and>
    (r = Inr () \<longleftrightarrow> buffered_bytes (rq_result q) + rows_bytes (map (decode_row cols) ts) \<le> kMaxBufferedBytes) \<and>
    (r = Inr () \<longrightarrow> rq_result q' = (rq_result q)
      \<lparr>buffered_bytes := buffered_bytes (rq_result q) + rows_bytes (map (decode_row cols) ts),
       rs_rows := rs_rows (rq_result q) @ map (decode_row cols) ts\<rparr> \<and> sm_disk (sm_of q') = d')"
  using assms
proof (induction arbitrary: n q rule: yields.induct)
  case (yields_end d d')
  then obtain m where "n = Suc m" by (cases n) auto
  then show ?case using yields_end by (simp add: on_store_eq rows_bytes_def)
next
  case (yields_tuple d d1 t d2 d3 ts d')
  then obtain m where n: "n = Suc m" "length ts < m" by (cases n) auto
  let ?row = "decode_row cols t" and ?s = "rq_result q"
  show ?case
  proof (cases "buffered_bytes ?s + row_bytes ?row \<le> kMaxBufferedBytes")
    case False
    then show ?thesis using yields_tuple n
      by (simp add: on_store_eq result_step_eq bindS_def thenS_def add_row_fits rows_bytes_def)
  next
    case True
    let ?q = "(set_disk d3 q)\<lparr>rq_result := ?s\<lparr>buffered_bytes := buffered_bytes ?s + row_bytes ?row, rs_rows := rs_rows ?s @ [?row]\<rparr>\<rparr>"
    have "sm_disk (sm_of ?q) = d3" "buffered_bytes (rq_result ?q) \<le> kMaxBufferedBytes" using True by simp_all
    note ih = yields_tuple.IH [OF n(2) this]
    show ?thesis using ih yields_tuple n True
      by (simp add: on_store_eq result_step_eq bindS_def thenS_def add_row_fits rows_bytes_def add.assoc)
  qed
qed

lemma set_columns_fits:
  "set_columns cols s =
     (if columns_bytes cols \<le> kMaxBufferedBytes
      then (None, WireResultSet_empty\<lparr>has_query_result := True, buffered_bytes := columns_bytes cols, rs_columns := cols\<rparr>)
      else (Some (InternalError ''query result schema exceeds the 16 MiB teaching wire buffer''),
        WireResultSet_empty\<lparr>has_query_result := True\<rparr>))"
  by (simp add: set_columns_def try_account_def columns_bytes_def WireResultSet_empty_def)

definition select_result :: "ColMeta list \<Rightarrow> byte list list \<Rightarrow> WireResultSet" where
  "select_result cols ts =
     (let wcols = map (\<lambda>c. \<lparr>wcol_name = cm_name c, wcol_type = cm_type c\<rparr>) cols; wrows = map (decode_row cols) ts in
      \<lparr>has_query_result = True, raw_text = False, buffered_bytes = columns_bytes wcols + rows_bytes wrows, rs_columns = wcols, rs_rows = wrows\<rparr>)"

lemma select_from_result:
  assumes "m_cols (lab_exec L) root = Inr cols" "result_columns sel cols = map (\<lambda>c. \<lparr>wcol_name = cm_name c, wcol_type = cm_type c\<rparr>) cols"
    and "m_begin_tuple (lab_exec L) root (sm_disk (sm_of q)) = (Inr (), d1)" "yields (lab_exec L) root ts d1 d2" "length ts < n"
  shows "\<exists>r q'. select_from L n root sel q = Some (r, q') \<and>
    (r = Inr () \<longleftrightarrow> buffered_bytes (select_result cols ts) \<le> kMaxBufferedBytes) \<and>
    (r = Inr () \<longrightarrow> rq_result q' = select_result cols ts \<and> sm_disk (sm_of q') = d2)"
proof -
  let ?wcols = "map (\<lambda>c. \<lparr>wcol_name = cm_name c, wcol_type = cm_type c\<rparr>) cols"
  show ?thesis
  proof (cases "columns_bytes ?wcols \<le> kMaxBufferedBytes")
    case False
    then show ?thesis
      using assms(1,2) by (simp add: select_from_def thenS_def bindS_def result_step_eq set_columns_fits select_result_def Let_def)
  next
    case True
    let ?s = "WireResultSet_empty\<lparr>has_query_result := True, buffered_bytes := columns_bytes ?wcols, rs_columns := ?wcols\<rparr>"
    let ?q = "(set_disk d1 q)\<lparr>rq_result := ?s\<rparr>"
    have "sm_disk (sm_of ?q) = d1" "buffered_bytes (rq_result ?q) \<le> kMaxBufferedBytes" using True by simp_all
    from select_loop [OF assms(4,5) this, where cols = cols] show ?thesis
      using assms(1-3) True
      by (simp add: select_from_def thenS_def bindS_def result_step_eq set_columns_fits on_store_eq select_result_def Let_def
          WireResultSet_empty_def)
  qed
qed

section \<open>Executors in memory\<close>

text \<open>A concrete implementation of the exercises: the state is the list of tuples that are left.\<close>

fun mem_cols :: "executor \<Rightarrow> ColMeta list result" where
  "mem_cols (SeqScanExecutor tab conds fh cols len) = Inr cols"
| "mem_cols (IndexScanExecutor tab t conds fh cols len names ix) = Inr cols"
| "mem_cols (NestedLoopJoinExecutor l r len cols conds) = Inr cols"
| "mem_cols (MergeJoinExecutor l r len cols key lk rk conds) = Inr cols"
| "mem_cols (ProjectionExecutor p cols len idxs) = Inr cols"
| "mem_cols (SortExecutor p col desc) = mem_cols p"
| "mem_cols _ = Inl (NotImplementedError ''AbstractExecutor::cols'')"

fun mem_len :: "executor \<Rightarrow> int result" where
  "mem_len (SeqScanExecutor tab conds fh cols len) = Inr len"
| "mem_len (IndexScanExecutor tab t conds fh cols len names ix) = Inr len"
| "mem_len (NestedLoopJoinExecutor l r len cols conds) = Inr len"
| "mem_len (MergeJoinExecutor l r len cols key lk rk conds) = Inr len"
| "mem_len (ProjectionExecutor p cols len idxs) = Inr len"
| "mem_len (SortExecutor p col desc) = mem_len p"
| "mem_len _ = Inl (NotImplementedError ''AbstractExecutor::tuple_len'')"

definition mem_exec :: "(byte list list) exec_methods" where
  "mem_exec = \<lparr>m_tuple_len = mem_len, m_cols = mem_cols, m_begin_tuple = (\<lambda>e. retS ()),
     m_next_tuple = (\<lambda>e d. (Inr (), tl d)), m_is_end = (\<lambda>e d. (Inr (d = []), d)), m_rid = (\<lambda>e. retS Rid_default),
     m_next = (\<lambda>e d. (Inr (hd d), d))\<rparr>"

lemma mem_exec_laws: "schema_laws mem_exec"
  by (simp add: schema_laws_def mem_exec_def)

lemma mem_exec_yields: "yields mem_exec e ts ts []"
  by (induction ts) (auto simp: mem_exec_def intro: yields.intros)

section \<open>Running a SELECT\<close>

text \<open>
  A SELECT is executed to its end. For a well formed catalog, an analysed SELECT over different tables whose record
  files are open, and executors whose tuples have the columns they were built with: the plan is turned into an executor
  tree without an error, with and without sort-merge joins (no constructor finds a missing table, column, index or merge
  key); the tuples of the root consist of exactly the selected columns in their order, packed, each with the type and
  length of its catalog entry. When the root returns the tuples \<open>ts\<close>, running the statement ends after one round for each
  of them, and the result set has the selected columns and one row for each tuple, decoded at the columns' offsets;
  it fails exactly when that result set is larger than the result buffer.
\<close>

lemma select_executed:
  assumes "schema_laws (lab_exec L)" "db_ok db" "analyze db (Some (Select sel)) = Inr q" "distinct (bound_tables q)"
    and "sm_db (sm_of rq) = db" "\<forall>t\<in>set (bound_tables q). sm_fhs (sm_of rq) t \<noteq> None"
  shows "\<exists>p st root cols. plan_query db sortmerge q = Inr p \<and> portal_start L n p rq = Some (Inr st, rq) \<and>
    portal_root st = Some root \<and> m_cols (lab_exec L) root = Inr cols \<and> packed 0 cols \<and> (\<forall>c\<in>set cols. catalog_col db c) \<and>
    map (\<lambda>c. (cm_tab c, cm_name c)) cols = map (\<lambda>tc. (tab_name tc, col_name tc)) (bound_cols q) \<and>
    (\<forall>ts d1 d2. m_begin_tuple (lab_exec L) root (sm_disk (sm_of rq)) = (Inr (), d1) \<longrightarrow> yields (lab_exec L) root ts d1 d2 \<longrightarrow>
      length ts < n \<longrightarrow> (\<exists>r rq'. portal_run L E n st rq = Some (r, rq') \<and>
        (r = Inr () \<longleftrightarrow> buffered_bytes (select_result cols ts) \<le> kMaxBufferedBytes) \<and>
        (r = Inr () \<longrightarrow> rq_result rq' = select_result cols ts)))"
proof -
  from assms(3) have a: "analyze_select db sel (AnalyzedQuery_make (Select sel)) = Inr q" by (simp add: analyze_def)
  note l = analyze_select_Inr [OF assms(2) a]
  have st: "bound_statement q = Select sel" using l(6) by (simp add: AnalyzedQuery_make_def)
  have ne: "bound_tables q \<noteq> []" using get_table_names_nonempty [OF l(1)] .
  have tabs: "\<forall>t\<in>set (bound_tables q). \<exists>table. get_table db t = Inr table" using l(2) by blast
  have "cond_tabs c \<subseteq> set (bound_tables q) \<and> cond_cols db c" if "c \<in> set (bound_conds q)" for c
    using cond_ok_tabs [OF l(3) [OF that]] l(3) [OF that]
    by (auto simp: cond_ok_def cond_cols_def col_of_def col_exists_def split: if_splits)
  moreover have "\<forall>tc. bound_order_col q = Some tc \<longrightarrow> tab_name tc \<in> set (bound_tables q) \<and> col_exists db tc"
    using l(5) col_of_exists by blast
  ultimately obtain root where root: "physical_optimization db sortmerge q = Inr root" "plan_ready db root"
    "set (ptabs root) = set (bound_tables q)"
    using physical_optimization_ready [OF assms(4) ne tabs] by blast
  let ?M = "lab_exec L" and ?fhs = "sm_fhs (sm_of rq)"
  obtain e where e: "convert_plan_executor ?M db ?fhs root = Inr e" "tuple_schema ?M db (ptabs root) e"
    using convert_ready [OF assms(1,2) root(2)] assms(6) root(3) by metis
  obtain prev where prev: "m_cols ?M e = Inr prev" using e(2) by (auto simp: tuple_schema_def)
  have "\<forall>tc\<in>set (bound_cols q). \<exists>d. col_of db (ptabs root) tc d" using l(4) root(3) by (auto simp: col_of_def)
  then obtain cols idxs where c: "project_cols prev (bound_cols q) 0 = Inr (cols, idxs, sum_list (map cm_len cols))" "packed 0 cols"
    "map (\<lambda>c. (cm_tab c, cm_name c)) cols = map (\<lambda>tc. (tab_name tc, col_name tc)) (bound_cols q)" "\<forall>c\<in>set cols. catalog_col db c"
    using project_cols_ok [OF e(2) prev, of "bound_cols q" 0] by auto
  let ?root = "ProjectionExecutor e cols (sum_list (map cm_len cols)) idxs"
  let ?p = "SelectPlan (ProjectionPlan T_Projection root (bound_cols q))"
  let ?st = "\<lparr>portal_type = PT_Select, sel_cols = bound_cols q, portal_root = Some ?root, portal_plan = ?p\<rparr>"
  have p: "plan_query db sortmerge q = Inr ?p"
    using root(1) by (simp add: plan_query_def do_planner_def plan_select_def logical_optimization_def st Let_def del: bindE_Inr_iff)
  have start: "portal_start L n ?p rq = Some (Inr ?st, rq)"
    using e(1) prev c(1) assms(5) by (simp add: portal_start_def Let_def ProjectionExecutor_make_def del: bindE_Inr_iff)
  have mc: "m_cols ?M ?root = Inr cols" using schema_lawsD(9) [OF assms(1)] .
  have "map cm_name cols = map col_name (bound_cols q)"
    using arg_cong [OF c(3), of "map snd"] by (simp add: comp_def)
  then have rc: "result_columns (bound_cols q) cols = map (\<lambda>c. \<lparr>wcol_name = cm_name c, wcol_type = cm_type c\<rparr>) cols"
    unfolding result_columns_def Let_def by (intro nth_equalityI) (auto simp: map_equality_iff)
  have run: "\<exists>r rq'. portal_run L E n ?st rq = Some (r, rq') \<and>
      (r = Inr () \<longleftrightarrow> buffered_bytes (select_result cols ts) \<le> kMaxBufferedBytes) \<and>
      (r = Inr () \<longrightarrow> rq_result rq' = select_result cols ts)"
    if "m_begin_tuple ?M ?root (sm_disk (sm_of rq)) = (Inr (), d1)" "yields ?M ?root ts d1 d2" "length ts < n" for ts d1 d2
    using select_from_result [OF mc rc that] by (auto simp: portal_run_def)
  show ?thesis using p start mc c(2-4) run by (intro exI [of _ ?p] exI [of _ ?st] exI [of _ ?root] exI [of _ cols]) simp
qed

lemma decode_cell_length: "length (wcell_str (decode_cell t c)) \<le> length t"
proof -
  have "length (takeWhile P (take k (drop j t))) \<le> length t" for P k j
    using length_takeWhile_le [of P "take k (drop j t)"] by simp linarith
  then show ?thesis by (cases "cm_type c") (simp_all add: decode_cell_def Let_def)
qed

lemma row_bytes_bound: "row_bytes (decode_row cols t) \<le> 48 + length cols * (48 + length t)"
proof -
  have "sum_list (map (\<lambda>c. length (wcell_str (decode_cell t c))) cols) \<le> length cols * length t"
    using sum_list_mono [of cols "\<lambda>c. length (wcell_str (decode_cell t c))" "\<lambda>_. length t"] decode_cell_length
    by (simp add: sum_list_triv)
  then show ?thesis
    by (simp add: row_bytes_def decode_row_def comp_def sizeof_row_vector_def sizeof_WireResultCell_def algebra_simps)
qed

text \<open>The exercises as they are in the repository throw; the executors are those in memory.\<close>

definition sample_lab :: "(byte list list) lab_ops" where
  "sample_lab = \<lparr>
     lab_store = \<lparr>insert_record_op = (\<lambda>fh buf. throwS (NotImplementedError [])), delete_record_op = (\<lambda>fh rid. retS ()),
       insert_entry_op = (\<lambda>ih key rid. retS (- 1)), delete_entry_op = (\<lambda>ih key rid. retS False)\<rparr>,
     lab_exec = mem_exec,
     drop_table_op = (\<lambda>tab. throwS (NotImplementedError ''SmManager::drop_table (Lab 3)'')),
     create_index_op = (\<lambda>tab cols unique. throwS (NotImplementedError ''SmManager::create_index (Lab 3)'')),
     drop_index_op = (\<lambda>tab cols. throwS (NotImplementedError ''SmManager::drop_index (Lab 3)'')),
     commit_op = (\<lambda>t. retS ()), abort_op = (\<lambda>t. retS ())\<rparr>"

definition sample_rq :: "(byte list list) request" where
  "sample_rq = \<lparr>rq_kernel = \<lparr>k_sm = \<lparr>sm_db = sample_db, sm_fhs = sample_fhs, sm_meta = None,
       sm_disk = [[7, 0, 0, 0, 97, 98, 0, 0, 0, 0, 0, 0]]\<rparr>, k_indexes = (\<lambda>_. True), k_sortmerge = False, k_txns = Map.empty\<rparr>,
     rq_txn_id = - 1, rq_txn = None, rq_result = WireResultSet_empty\<rparr>"

end
