(* ===== verification/Server_Session.thy ===== *)
theory Server_Session
  imports Portal Sql_Parser
begin

text \<open>
  The requests of one client connection, \<^verbatim>\<open>src/src/server/server.cpp\<close>: the stages of a statement from its text to its
  result, the handlers of its exceptions, what happens to the session's transaction, and the loop over the requests. The
  lemmas show that every answered request has exactly one complete response and that a session comes to an end.
\<close>

section \<open>The session\<close>

text \<open>\<^verbatim>\<open>Server::ClientSession\<close> with its socket, and the objects of the server a statement works on.\<close>

record 'd session =
  ss_kernel :: "'d kernel"
  ss_txn_id :: int
  ss_conn :: conn

text \<open>The execution context of a new statement has no transaction and an empty result.\<close>

definition start_request :: "'d session \<Rightarrow> 'd request" where
  "start_request s = \<lparr>rq_kernel = ss_kernel s, rq_txn_id = ss_txn_id s, rq_txn = None, rq_result = WireResultSet_empty\<rparr>"

definition end_request :: "conn \<Rightarrow> 'd request \<Rightarrow> 'd session" where
  "end_request c q = \<lparr>ss_kernel = rq_kernel q, ss_txn_id = rq_txn_id q, ss_conn = c\<rparr>"

section \<open>Transactions of a session\<close>

definition get_txn_mode :: "int \<Rightarrow> 'd kernel \<Rightarrow> bool" where
  "get_txn_mode t k = (case k_txns k t of None \<Rightarrow> False | Some x \<Rightarrow> txn_mode x)"

definition finish_session_transaction :: "'d request \<Rightarrow> 'd request" where
  "finish_session_transaction q = q\<lparr>rq_txn := None, rq_txn_id := INVALID_TXN_ID\<rparr>"

definition abort_request :: "'d lab_ops \<Rightarrow> int \<Rightarrow> ('d request, unit) eff" where
  "abort_request L t = thenS (on_kernel (abort_op L (Some t))) (\<lambda>q. (Inr (), finish_session_transaction q))"

definition cleanup_failed_request :: "'d lab_ops \<Rightarrow> ('d request, unit) eff" where
  "cleanup_failed_request L q =
     (let txn = (if rq_txn q = None then get_transaction (rq_txn_id q) (rq_kernel q) else rq_txn q) in
      case txn of
        None \<Rightarrow> retS () q
      | Some t \<Rightarrow> if get_txn_mode t (rq_kernel q) then retS () q else abort_request L t q)"

definition abort_session_transaction :: "'d lab_ops \<Rightarrow> ('d session, unit) eff" where
  "abort_session_transaction L s =
     (case get_transaction (ss_txn_id s) (ss_kernel s) of
        None \<Rightarrow> (Inr (), s\<lparr>ss_txn_id := INVALID_TXN_ID\<rparr>)
      | Some t \<Rightarrow>
          thenS (onS ss_kernel (\<lambda>k s. s\<lparr>ss_kernel := k\<rparr>) (abort_op L (Some t))) (\<lambda>s. (Inr (), s\<lparr>ss_txn_id := INVALID_TXN_ID\<rparr>)) s)"

section \<open>Statements\<close>

text \<open>
  The body of the \<^verbatim>\<open>try\<close> block of \<^verbatim>\<open>execute_sql\<close> up to the point where a response is written: the statement's result or
  the diagnostic of the parser. \<open>message\<close> is the text of Bison's syntax errors.
\<close>

datatype reply = Statement_result | Parse_diagnostic string

definition execute_stages ::
    "'d lab_ops \<Rightarrow> 'd storage_env \<Rightarrow> nat \<Rightarrow> (token list \<Rightarrow> token list \<Rightarrow> string) \<Rightarrow> string \<Rightarrow> 'd request \<Rightarrow>
     (reply result \<times> 'd request) option" where
  "execute_stages L E n message sql q =
     (let parse_result = Parse message sql in
      if \<not> parse_ok parse_result then
        (case parse_error parse_result of
           None \<Rightarrow> Some (Inl (InternalError ''parser returned neither a statement nor an error''), q)
         | Some e \<Rightarrow> Some (thenS (cleanup_failed_request L) (retS (Parse_diagnostic (FormatError sql e))) q))
      else
        (case bindE (analyze (sm_db (sm_of q)) (statement parse_result)) (plan_query (sm_db (sm_of q)) (k_sortmerge (rq_kernel q))) of
           Inl e \<Rightarrow> Some (Inl e, q)
         | Inr execution_plan \<Rightarrow>
             (case portal_start L n execution_plan q of
                None \<Rightarrow> None
              | Some (Inl e, q1) \<Rightarrow> Some (Inl e, q1)
              | Some (Inr st, q1) \<Rightarrow>
                  (case portal_run L E n st q1 of
                     None \<Rightarrow> None
                   | Some (Inl e, q2) \<Rightarrow> Some (Inl e, q2)
                   | Some (Inr _, q2) \<Rightarrow> Some (Inr Statement_result, q2)))))"

text \<open>
  A response is written after the request's clean-up; an exception of the clean-up leaves the function. A failed assertion
  is not an exception and is not caught.
\<close>

definition respond :: "(conn \<Rightarrow> bool \<times> conn) \<Rightarrow> conn \<Rightarrow> unit result \<times> 'd request \<Rightarrow> bool result \<times> 'd session" where
  "respond wr c = (\<lambda>(r, q).
     case r of
       Inl e \<Rightarrow> (Inl e, end_request c q)
     | Inr _ \<Rightarrow> (case wr c of (ok, c1) \<Rightarrow> (Inr ok, end_request c1 q)))"

definition handle_exception :: "'d lab_ops \<Rightarrow> rmdb_error \<Rightarrow> conn \<Rightarrow> 'd request \<Rightarrow> bool result \<times> 'd session" where
  "handle_exception L e c q =
     (case e of
        TransactionAbortException t reason \<Rightarrow>
          respond (\<lambda>c. WriteFrame c kTagTransactionAbort 0 ''abort'') c
            (case rq_txn q of None \<Rightarrow> retS () q | Some t \<Rightarrow> abort_request L t q)
      | StdException msg \<Rightarrow> respond (\<lambda>c. send_error c (''internal server error: '' @ what e)) c (cleanup_failed_request L q)
      | AssertionFailure \<Rightarrow> (Inl AssertionFailure, end_request c q)
      | _ \<Rightarrow> respond (\<lambda>c. send_error c (what e)) c (cleanup_failed_request L q))"

definition execute_sql ::
    "'d lab_ops \<Rightarrow> 'd storage_env \<Rightarrow> nat \<Rightarrow> (token list \<Rightarrow> token list \<Rightarrow> string) \<Rightarrow> string \<Rightarrow> 'd session \<Rightarrow>
     (bool result \<times> 'd session) option" where
  "execute_sql L E n message sql s =
     map_option (\<lambda>(r, q).
       case r of
         Inr Statement_result \<Rightarrow> respond (\<lambda>c. send_statement_result c (rq_result q)) (ss_conn s) (Inr (), q)
       | Inr (Parse_diagnostic d) \<Rightarrow> respond (\<lambda>c. send_error c d) (ss_conn s) (Inr (), q)
       | Inl e \<Rightarrow> handle_exception L e (ss_conn s) q)
     (execute_stages L E n message sql (start_request s))"

section \<open>Requests\<close>

definition reject :: "string \<Rightarrow> 'd session \<Rightarrow> bool result \<times> 'd session" where
  "reject diag s = (case send_error (ss_conn s) diag of (ok, c) \<Rightarrow> (Inr ok, s\<lparr>ss_conn := c\<rparr>))"

definition handle_request ::
    "'d lab_ops \<Rightarrow> 'd storage_env \<Rightarrow> nat \<Rightarrow> (token list \<Rightarrow> token list \<Rightarrow> string) \<Rightarrow> Frame \<Rightarrow> 'd session \<Rightarrow>
     (bool result \<times> 'd session) option" where
  "handle_request L E n message request s =
     (if frame_flags request \<noteq> 0 \<or> frame_tag request \<noteq> kTagExecStream
      then Some (reject ''unsupported request (only EXEC_STREAM is implemented)'' s)
      else if frame_payload request = [] then Some (reject ''empty SQL'' s)
      else execute_sql L E n message (frame_payload request) s)"

text \<open>The loop of \<^verbatim>\<open>handle_client\<close>. \<open>None\<close> says that the rounds given to it or to a statement were not enough.\<close>

fun request_loop ::
    "nat \<Rightarrow> 'd lab_ops \<Rightarrow> 'd storage_env \<Rightarrow> nat \<Rightarrow> (token list \<Rightarrow> token list \<Rightarrow> string) \<Rightarrow> 'd session \<Rightarrow>
     (unit result \<times> 'd session) option" where
  "request_loop 0 L E n message s = None"
| "request_loop (Suc k) L E n message s =
     (case ReadFrame (ss_conn s) of
        (None, c) \<Rightarrow> Some (Inr (), s\<lparr>ss_conn := c\<rparr>)
      | (Some request, c) \<Rightarrow>
          (case handle_request L E n message request (s\<lparr>ss_conn := c\<rparr>) of
             None \<Rightarrow> None
           | Some (Inl e, s1) \<Rightarrow> Some (Inl e, s1)
           | Some (Inr ok, s1) \<Rightarrow> if ok then request_loop k L E n message s1 else Some (Inr (), s1)))"

text \<open>\<^verbatim>\<open>handle_client\<close> up to the point where the socket is closed. An exception ends the server's process.\<close>

definition handle_client ::
    "nat \<Rightarrow> 'd lab_ops \<Rightarrow> 'd storage_env \<Rightarrow> nat \<Rightarrow> (token list \<Rightarrow> token list \<Rightarrow> string) \<Rightarrow> 'd kernel \<Rightarrow> conn \<Rightarrow>
     (unit result \<times> 'd session) option" where
  "handle_client k L E n message db_kernel c =
     (case ReadAndCheckHandshake c of (ok, c1) \<Rightarrow>
        let s = \<lparr>ss_kernel = db_kernel, ss_txn_id = INVALID_TXN_ID, ss_conn = c1\<rparr> in
        map_option (\<lambda>(r, s1). case r of Inl e \<Rightarrow> (Inl e, s1) | Inr _ \<Rightarrow> abort_session_transaction L s1)
          (if ok then request_loop k L E n message s else Some (Inr (), s)))"

section \<open>Responses\<close>

text \<open>The bytes written from \<open>c\<close> to \<open>c'\<close> are one response, which the client turns into the result \<open>r\<close>.\<close>

definition one_response :: "bool \<Rightarrow> conn \<Rightarrow> conn \<Rightarrow> ExecuteResult \<Rightarrow> bool" where
  "one_response fmt c c' r \<longleftrightarrow>
     (\<exists>fs. outbox c' = outbox c @ frames_image fs \<and> (\<forall>f\<in>set fs. legal_frame f) \<and> run_frames (plain_options fmt) exec_start fs = Some r) \<and>
     (status r = CommandOk \<or> status r = ResultSet \<or> status r = SqlError \<or> status r = TransactionAbort)"

lemma error_response: "send_error c d = (True, c') \<Longrightarrow> \<exists>r. one_response fmt c c' r \<and> status r = SqlError"
  using send_error_True [of c d c' "plain_options fmt"] unfolding one_response_def
  by (metis empty_iff insert_iff list.set(1) list.simps(15))

lemma result_response: "send_statement_result c rs = (True, c') \<Longrightarrow> \<exists>r. one_response fmt c c' r"
  using send_statement_response [of c rs c' fmt] unfolding one_response_def by metis

lemma abort_response:
  assumes "WriteFrame c kTagTransactionAbort 0 d = (True, c')"
  shows "\<exists>r. one_response fmt c c' r \<and> status r = TransactionAbort"
proof -
  let ?f = "\<lparr>frame_tag = kTagTransactionAbort, frame_flags = 0, frame_payload = d\<rparr>"
  have "run_frames (plain_options fmt) exec_start [?f] = Some ((result exec_start)\<lparr>status := TransactionAbort, result_text := [], diagnostic := d\<rparr>)"
    by (simp add: handle_frame_def wire_tags)
  then show ?thesis using WriteFrame_True [OF assms] unfolding one_response_def
    by (intro exI [of _ "(result exec_start)\<lparr>status := TransactionAbort, result_text := [], diagnostic := d\<rparr>"]) (auto intro!: exI [of _ "[?f]"])
qed

lemma respond_True:
  "respond wr c (r, q) = (Inr True, s') \<Longrightarrow> r = Inr () \<and> wr c = (True, ss_conn s') \<and> s' = end_request (ss_conn s') q"
  by (auto simp: respond_def end_request_def split: sum.splits prod.splits)

lemma exception_response:
  assumes "handle_exception L e c q = (Inr True, s')"
  shows "\<exists>r. one_response fmt c (ss_conn s') r"
proof -
  have "\<exists>d. send_error c d = (True, ss_conn s')" if "respond (\<lambda>c. send_error c d) c (cleanup_failed_request L q) = (Inr True, s')" for d
    using respond_True [where wr = "\<lambda>c. send_error c d"] that by (metis prod.exhaust)
  moreover have "WriteFrame c kTagTransactionAbort 0 ''abort'' = (True, ss_conn s')"
    if "respond (\<lambda>c. WriteFrame c kTagTransactionAbort 0 ''abort'') c m = (Inr True, s')" for m
    using respond_True [where wr = "\<lambda>c. WriteFrame c kTagTransactionAbort 0 ''abort''"] that by (metis prod.exhaust)
  ultimately show ?thesis
    using assms error_response [of c _ "ss_conn s'" fmt] abort_response [of c _ "ss_conn s'" fmt]
    by (cases e) (simp_all add: handle_exception_def, blast+)
qed

text \<open>A client that reads the response, cut in any way, ends with its result and stops at its end.\<close>

lemma response_read:
  assumes "one_response fmt s s' r" "outbox s' = outbox s @ out"
    and "0 \<le> fd c" "clean_sends (sends c)" "clean (inbox c)" "stream (inbox c) = out @ rest" "sql \<noteq> []" "length sql \<le> kMaxPayloadBytes"
  shows "\<exists>c'. ExecStreamResult err c sql (plain_options fmt) = (r, c') \<and> stream (inbox c') = rest"
proof -
  from assms(1,2) obtain fs where f: "out = frames_image fs" "\<forall>f\<in>set fs. legal_frame f"
    "run_frames (plain_options fmt) exec_start fs = Some r" by (auto simp: one_response_def)
  then show ?thesis using ExecStreamResult_frames [OF assms(3-5) _ assms(7,8) f(3,2), of rest err] assms(6) by auto
qed

lemma response_reusable: "one_response fmt s s' r \<Longrightarrow> connection_reusable r"
  by (auto simp: one_response_def connection_reusable_def)

text \<open>Without a transaction the exception handlers only write an error.\<close>

lemma idle_exception:
  assumes "rq_txn q = None" "get_transaction (rq_txn_id q) (rq_kernel q) = None" "e \<noteq> AssertionFailure"
  shows "\<exists>ok c1. handle_exception L e c q = (Inr ok, end_request c1 q) \<and>
    (ok \<longrightarrow> (\<forall>fmt. \<exists>r. one_response fmt c c1 r \<and> status r \<noteq> CommandOk))"
proof -
  have clean: "cleanup_failed_request L q = (Inr (), q)" using assms(1,2) by (simp add: cleanup_failed_request_def retS_def)
  have 1: "\<exists>ok c1. respond (\<lambda>c. send_error c d) c (Inr (), q) = (Inr ok, end_request c1 q) \<and>
      (ok \<longrightarrow> (\<forall>fmt. \<exists>r. one_response fmt c c1 r \<and> status r \<noteq> CommandOk))" for d
    using error_response [of c d] by (cases "send_error c d") (fastforce simp: respond_def)
  have 2: "\<exists>ok c1. respond (\<lambda>c. WriteFrame c kTagTransactionAbort 0 d) c (Inr (), q) = (Inr ok, end_request c1 q) \<and>
      (ok \<longrightarrow> (\<forall>fmt. \<exists>r. one_response fmt c c1 r \<and> status r \<noteq> CommandOk))" for d
    using abort_response [of c d] by (cases "WriteFrame c kTagTransactionAbort 0 d") (fastforce simp: respond_def)
  show ?thesis using assms(1,3) by (cases e) (simp_all only: handle_exception_def rmdb_error.case clean option.case retS_def 1 2 simp_thms)
qed

lemma command_response: "send_statement_result c WireResultSet_empty = (True, c') \<Longrightarrow> \<exists>r. one_response fmt c c' r \<and> status r = CommandOk"
proof -
  assume "send_statement_result c WireResultSet_empty = (True, c')"
  then have w: "WriteFrame c kTagCommandOk 0 [] = (True, c')" by (simp add: send_statement_result_def WireResultSet_empty_def)
  let ?f = "\<lparr>frame_tag = kTagCommandOk, frame_flags = 0, frame_payload = []\<rparr>"
  have "\<exists>r. run_frames (plain_options fmt) exec_start [?f] = Some r \<and> status r = CommandOk"
    by (simp add: handle_frame_def exec_start_def)
  then show ?thesis using WriteFrame_True [OF w] unfolding one_response_def by (auto intro!: exI [of _ "[?f]"])
qed

text \<open>A request without a statement: not an EXEC_STREAM frame, without a text, or with a text the parser refuses.\<close>

definition no_statement :: "(token list \<Rightarrow> token list \<Rightarrow> string) \<Rightarrow> Frame \<Rightarrow> bool" where
  "no_statement message request \<longleftrightarrow> frame_flags request \<noteq> 0 \<or> frame_tag request \<noteq> kTagExecStream \<or> frame_payload request = [] \<or>
     \<not> parse_ok (Parse message (frame_payload request))"

lemma parse_reports: "parse_ok (Parse message sql) \<or> parse_error (Parse message sql) \<noteq> None"
  using Parse_cases [of sql "fst (scan INITIAL sql)" "snd (scan INITIAL sql)" _ message] by simp

lemma execute_response:
  assumes "execute_sql L E n message sql s = Some (Inr True, s')"
  shows "\<exists>r. one_response fmt (ss_conn s) (ss_conn s') r"
proof -
  from assms obtain r q where "execute_stages L E n message sql (start_request s) = Some (r, q)" by (auto simp: execute_sql_def)
  with assms show ?thesis
    using respond_True error_response [of "ss_conn s" _ "ss_conn s'" fmt] result_response [of "ss_conn s" _ "ss_conn s'" fmt]
      exception_response [of L _ "ss_conn s" q s' fmt]
    by (fastforce simp: execute_sql_def split: sum.splits reply.splits)
qed

lemma cleanup_idle: "get_transaction (ss_txn_id s) (ss_kernel s) = None \<Longrightarrow> cleanup_failed_request L (start_request s) = (Inr (), start_request s)"
  by (simp add: cleanup_failed_request_def start_request_def retS_def)

lemma execute_unparsed:
  assumes "\<not> parse_ok (Parse message sql)" "get_transaction (ss_txn_id s) (ss_kernel s) = None"
  shows "\<exists>e ok c. execute_sql L E n message sql s = Some (Inr ok, s\<lparr>ss_conn := c\<rparr>) \<and>
    parse_error (Parse message sql) = Some e \<and> send_error (ss_conn s) (FormatError sql e) = (ok, c)"
proof -
  obtain e where e: "parse_error (Parse message sql) = Some e" using parse_reports [of message sql] assms(1) by auto
  then have "execute_stages L E n message sql (start_request s) = Some (Inr (Parse_diagnostic (FormatError sql e)), start_request s)"
    using assms(1) cleanup_idle [OF assms(2), of L] by (simp add: execute_stages_def Let_def thenS_def bindS_def retS_def)
  then show ?thesis using e
    by (cases "send_error (ss_conn s) (FormatError sql e)")
      (simp add: execute_sql_def respond_def end_request_def start_request_def)
qed

lemma request_response:
  assumes "handle_request L E n message request s = Some (Inr True, s')"
  shows "\<exists>r. one_response fmt (ss_conn s) (ss_conn s') r \<and>
    (no_statement message request \<and> get_transaction (ss_txn_id s) (ss_kernel s) = None \<longrightarrow>
      status r = SqlError \<and> s' = s\<lparr>ss_conn := ss_conn s'\<rparr>)"
proof (cases "frame_flags request \<noteq> 0 \<or> frame_tag request \<noteq> kTagExecStream \<or> frame_payload request = []")
  case True
  then obtain d where "send_error (ss_conn s) d = (True, ss_conn s')" "s' = s\<lparr>ss_conn := ss_conn s'\<rparr>"
    using assms by (auto simp: handle_request_def reject_def split: if_splits prod.splits)
  then show ?thesis using error_response by blast
next
  case False
  then have e: "execute_sql L E n message (frame_payload request) s = Some (Inr True, s')" using assms by (auto simp: handle_request_def)
  show ?thesis
  proof (cases "no_statement message request \<and> get_transaction (ss_txn_id s) (ss_kernel s) = None")
    case True
    then show ?thesis
      using False e execute_unparsed [of message "frame_payload request" s L E n] error_response [of "ss_conn s" _ "ss_conn s'" fmt]
      by (auto simp: no_statement_def)
  next
    case False
    then show ?thesis using execute_response [OF e] by blast
  qed
qed

section \<open>The loop over the requests\<close>

lemma WriteFrame_inbox: "inbox (snd (WriteFrame c tag flags p)) = inbox c"
  by (simp add: WriteFrame_flat WriteAll_def split: prod.splits)

lemma send_error_inbox: "inbox (snd (send_error c d)) = inbox c"
  by (simp add: send_error_def Let_def WriteFrame_inbox)

lemma send_rows_inbox: "inbox (snd (send_rows c cols rs)) = inbox c"
proof (induction c cols rs rule: send_rows.induct)
  case (2 c cols row rs)
  then show ?case
    using WriteFrame_inbox [of c kTagRow 0] by (auto split: sum.splits prod.splits) (metis snd_conv)+
qed simp

lemma send_query_inbox: "inbox (snd (send_query_result c rs)) = inbox c"
proof -
  have "inbox (snd (case WriteFrame c kTagMeta 0 p of (ok, c1) \<Rightarrow>
      if \<not> ok then (False, c1)
      else (case send_rows c1 cols (rs_rows rs) of (ok2, c2) \<Rightarrow>
        if \<not> ok2 then (False, c2) else WriteFrame c2 kTagResultEnd 0 e))) = inbox c" for p cols e
  proof -
    obtain ok c1 where 1: "WriteFrame c kTagMeta 0 p = (ok, c1)" by fastforce
    obtain ok2 c2 where 2: "send_rows c1 cols (rs_rows rs) = (ok2, c2)" by fastforce
    show ?thesis
      using WriteFrame_inbox [of c kTagMeta 0 p] send_rows_inbox [of c1 cols "rs_rows rs"] by (simp add: 1 2 WriteFrame_inbox)
  qed
  then show ?thesis by (simp add: send_query_result_def send_error_inbox split: option.splits sum.splits)
qed

lemma send_raw_inbox: "inbox (snd (send_raw_text_result c rs)) = inbox c"
proof -
  have "inbox (snd (case WriteFrame c kTagMeta kFlagRawText meta of (ok1, c1) \<Rightarrow>
      if \<not> ok1 then (False, c1)
      else (case WriteFrame c1 kTagRow 0 row of (ok2, c2) \<Rightarrow>
        if \<not> ok2 then (False, c2) else WriteFrame c2 kTagResultEnd 0 e))) = inbox c" for meta row e
  proof -
    obtain ok c1 where 1: "WriteFrame c kTagMeta kFlagRawText meta = (ok, c1)" by fastforce
    obtain ok2 c2 where 2: "WriteFrame c1 kTagRow 0 row = (ok2, c2)" by fastforce
    show ?thesis
      using WriteFrame_inbox [of c kTagMeta kFlagRawText meta] WriteFrame_inbox [of c1 kTagRow 0 row] by (simp add: 1 2 WriteFrame_inbox)
  qed
  then show ?thesis by (simp add: send_raw_text_result_def Let_def send_error_inbox split: sum.splits)
qed

lemma send_statement_inbox: "inbox (snd (send_statement_result c rs)) = inbox c"
  by (simp add: send_statement_result_def send_query_inbox send_raw_inbox WriteFrame_inbox)

lemma respond_inbox: "inbox (snd (wr c)) = inbox c \<Longrightarrow> inbox (ss_conn (snd (respond wr c m))) = inbox c"
  by (cases m) (auto simp: respond_def end_request_def split: sum.splits prod.splits)

lemma exception_inbox: "inbox (ss_conn (snd (handle_exception L e c q))) = inbox c"
  by (cases e) (simp_all add: handle_exception_def respond_inbox send_error_inbox WriteFrame_inbox end_request_def)

lemma execute_inbox:
  assumes "execute_sql L E n message sql s = Some (r, s')"
  shows "inbox (ss_conn s') = inbox (ss_conn s)"
proof -
  obtain x q where "execute_stages L E n message sql (start_request s) = Some (x, q)" using assms by (auto simp: execute_sql_def)
  then have "s' = snd (case x of
      Inr Statement_result \<Rightarrow> respond (\<lambda>c. send_statement_result c (rq_result q)) (ss_conn s) (Inr (), q)
    | Inr (Parse_diagnostic d) \<Rightarrow> respond (\<lambda>c. send_error c d) (ss_conn s) (Inr (), q)
    | Inl e \<Rightarrow> handle_exception L e (ss_conn s) q)"
    using assms by (simp add: execute_sql_def split: sum.splits reply.splits)
  then show ?thesis by (simp add: respond_inbox send_statement_inbox send_error_inbox exception_inbox split: sum.splits reply.splits)
qed

lemma reject_inbox: "inbox (ss_conn (snd (reject d s))) = inbox (ss_conn s)"
  using send_error_inbox [of "ss_conn s" d] by (cases "send_error (ss_conn s) d") (simp add: reject_def)

lemma request_inbox:
  assumes "handle_request L E n message request s = Some (r, s')"
  shows "inbox (ss_conn s') = inbox (ss_conn s)"
proof -
  consider d where "reject d s = (r, s')" | "execute_sql L E n message (frame_payload request) s = Some (r, s')"
    using assms by (auto simp: handle_request_def split: if_splits)
  then show ?thesis
  proof cases
    case (1 d)
    then show ?thesis using reject_inbox [of d s] by simp
  qed (rule execute_inbox)
qed

lemma request_loop_ends:
  assumes "\<forall>sql q. execute_stages L E n message sql q \<noteq> None" and "weight (inbox (ss_conn s)) < k"
  shows "request_loop k L E n message s \<noteq> None"
  using assms(2)
proof (induction k arbitrary: s)
  case (Suc k)
  obtain f c where r: "ReadFrame (ss_conn s) = (f, c)" by fastforce
  show ?case
  proof (cases f)
    case (Some request)
    then have "weight (inbox c) < weight (inbox (ss_conn s))"
      using r ReadFrameInternal_Ok [of "ss_conn s" request c] by (fastforce simp: ReadFrame_def split: prod.splits frame_read.splits)
    moreover have "handle_request L E n message request (s\<lparr>ss_conn := c\<rparr>) \<noteq> None"
      using assms(1) by (simp add: handle_request_def execute_sql_def del: not_None_eq)
    then obtain x s1 where h: "handle_request L E n message request (s\<lparr>ss_conn := c\<rparr>) = Some (x, s1)" by auto
    moreover have "inbox (ss_conn s1) = inbox c" using request_inbox [OF h] by simp
    ultimately have "request_loop k L E n message s1 \<noteq> None" using Suc by simp
    then show ?thesis using r Some h by (auto split: sum.splits)
  qed (use r in simp)
qed simp

lemma handshake_inbox: "ReadAndCheckHandshake c = (True, c') \<Longrightarrow> weight (inbox c') \<le> weight (inbox c)"
proof -
  assume a: "ReadAndCheckHandshake c = (True, c')"
  obtain st msg d c1 where r: "ReadExactInternal c 8 = ((st, msg, d), c1)" by (metis prod.exhaust)
  with a have ok: "st = IoOk" "WriteAll c1 msg = (True, c')"
    by (auto simp: ReadAndCheckHandshake_def ReadExact_def split: if_splits)
  from ReadExactInternal_Ok [OF r [unfolded ok(1)]] WriteAll_True [OF ok(2)] show ?thesis by force
qed

lemma abort_session_idle: "abort_session_transaction L s = (Inr (), s') \<Longrightarrow> ss_txn_id s' = INVALID_TXN_ID"
  by (auto simp: abort_session_transaction_def thenS_split split: option.splits)

section \<open>Properties\<close>

text \<open>
  C5 (one response for a request). Whatever the request is and however the statement ends, when the server reports that it
  has answered, then it has written one complete response: a client that reads these bytes, cut into pieces in any way, ends
  its statement with a command, a result set, an SQL error or an aborted transaction, never with a transport or protocol
  error, and the stream is left at the end of the response. A request without a statement, that is one of another kind,
  without a text or with a text the parser refuses, is answered by an error, and when no transaction is open the database
  is not touched.
\<close>

theorem request_one_response:
  assumes "handle_request L E n message request s = Some (Inr True, s')" "outbox (ss_conn s') = outbox (ss_conn s) @ out"
    and "0 \<le> fd c" "clean_sends (sends c)" "clean (inbox c)" "stream (inbox c) = out @ rest"
    and "sql \<noteq> []" "length sql \<le> kMaxPayloadBytes"
  shows "\<exists>r c'. ExecStreamResult err c sql (plain_options fmt) = (r, c') \<and> connection_reusable r \<and>
    (status r = CommandOk \<or> status r = ResultSet \<or> status r = SqlError \<or> status r = TransactionAbort) \<and> stream (inbox c') = rest \<and>
    (no_statement message request \<and> get_transaction (ss_txn_id s) (ss_kernel s) = None \<longrightarrow>
      status r = SqlError \<and> ss_kernel s' = ss_kernel s \<and> ss_txn_id s' = ss_txn_id s)"
proof -
  from request_response [OF assms(1), of fmt] obtain r where
    one: "one_response fmt (ss_conn s) (ss_conn s') r"
    and err: "no_statement message request \<and> get_transaction (ss_txn_id s) (ss_kernel s) = None \<longrightarrow>
      status r = SqlError \<and> s' = s\<lparr>ss_conn := ss_conn s'\<rparr>" by blast
  obtain c' where c: "ExecStreamResult err c sql (plain_options fmt) = (r, c')" "stream (inbox c') = rest"
    using response_read [OF one assms(2-8)] by blast
  have "status r = CommandOk \<or> status r = ResultSet \<or> status r = SqlError \<or> status r = TransactionAbort"
    using one by (simp add: one_response_def)
  moreover have "connection_reusable r" using response_reusable [OF one] .
  moreover have "ss_kernel s' = ss_kernel s \<and> ss_txn_id s' = ss_txn_id s" if "s' = s\<lparr>ss_conn := ss_conn s'\<rparr>"
    using arg_cong [OF that, of ss_kernel] arg_cong [OF that, of ss_txn_id] by simp
  ultimately show ?thesis using c err by blast
qed

definition sample_session :: "(byte list list) session" where
  "sample_session = \<lparr>ss_kernel = rq_kernel sample_rq, ss_txn_id = INVALID_TXN_ID, ss_conn = \<lparr>fd = 3, inbox = [], sends = [Accept 5], outbox = []\<rparr>\<rparr>"

definition sample_error :: string where
  "sample_error = [CHR 0x00, CHR 0x00, CHR 0x00, CHR 0x0A, CHR 0x13, CHR 0x00, CHR 0x00, CHR 0x00] @ ''empty SQL\<newline>''"

theorem request_one_response_witness:
  "\<exists>r c'. ExecStreamResult [] \<lparr>fd = 4, inbox = [Data sample_error], sends = [], outbox = []\<rparr> ''select'' (plain_options True) = (r, c') \<and>
     connection_reusable r \<and> status r = SqlError \<and> stream (inbox c') = []"
proof -
  let ?request = "\<lparr>frame_tag = kTagExecStream, frame_flags = 0, frame_payload = []\<rparr>"
  let ?s = "sample_session\<lparr>ss_conn := (ss_conn sample_session)\<lparr>sends := [], outbox := sample_error\<rparr>\<rparr>"
  have h: "handle_request sample_lab undefined 5 (\<lambda>ts rest. ''syntax error'') ?request sample_session = Some (Inr True, ?s)"
    by (simp add: handle_request_def reject_def send_error_def sample_session_def sample_error_def Let_def wire_eval)
  have "no_statement (\<lambda>ts rest. ''syntax error'') ?request" "get_transaction (ss_txn_id sample_session) (ss_kernel sample_session) = None"
    by (simp_all add: no_statement_def get_transaction_def sample_session_def)
  moreover have "outbox (ss_conn ?s) = outbox (ss_conn sample_session) @ sample_error" by (simp add: sample_session_def)
  moreover have "length ''select'' \<le> kMaxPayloadBytes" "sample_error \<noteq> []" by (simp_all add: kMaxPayloadBytes_def sample_error_def)
  ultimately show ?thesis
    using request_one_response [OF h, of sample_error "\<lparr>fd = 4, inbox = [Data sample_error], sends = [], outbox = []\<rparr>" "[]" "''select''" "[]" True]
    by auto
qed


text \<open>Executors that throw when they are started.\<close>

definition throwing_lab :: "(byte list list) lab_ops" where
  "throwing_lab = sample_lab\<lparr>lab_exec := mem_exec\<lparr>m_begin_tuple := \<lambda>e. throwS (NotImplementedError ''AbstractExecutor::begin_tuple'')\<rparr>\<rparr>"

lemma throwing_begin: "on_store (m_begin_tuple (lab_exec throwing_lab) e) q = (Inl (NotImplementedError ''AbstractExecutor::begin_tuple''), q)"
  by (simp add: throwing_lab_def on_store_def on_kernel_def on_sm_def on_disk_def onS_def throwS_def)

lemma throwing_ends: "execute_stages throwing_lab E n message sql q \<noteq> None"
proof -
  have "portal_start throwing_lab n p q \<noteq> None" for p q
    by (simp add: portal_start_def start_dml_def collect_rids_def throwing_begin Let_def split: plan.splits sum.splits)
  moreover have "portal_run throwing_lab E n st q \<noteq> None" for st q
    by (simp add: portal_run_def select_from_def thenS_def bindS_def throwing_begin split: PortalType.splits option.splits sum.splits prod.splits)
  ultimately show ?thesis by (simp add: execute_stages_def Let_def del: not_None_eq split: option.splits sum.splits prod.splits)
qed


end
