(* ===== verification/Spec2Isabelle.thy ===== *)
theory Spec2Isabelle
  imports Index_Manager Disk_Log Page_Guard Sql_Client Server_Session
begin

text \<open>
  Verification of RUCBase, the teaching database system under \<^verbatim>\<open>src/\<close>. File names below are relative to \<^verbatim>\<open>src/src\<close>, the
  command-line client is \<^verbatim>\<open>src/rucbase_client/main.cpp\<close>.

  \<^bold>\<open>The program.\<close> A client reads SQL from a terminal, a script or its arguments, cuts it into statements and sends each of
  them in a frame over a socket. The server reads frames, parses, analyses and plans a statement, builds a tree of executors,
  runs it against the record files and indexes, collects the rows in a bounded buffer and sends them back as META, ROW and
  RESULT_END frames, which the client prints as a table. The catalog is kept in memory and in the JSON file \<^verbatim>\<open>db.meta\<close>.
  Many bodies of the repository are exercises without an implementation; they are listed at the end.

  \<^bold>\<open>How code is modelled.\<close> Structures are records, enumerations and class hierarchies are datatypes, and every function is a
  HOL function of the same name. \<^verbatim>\<open>std::string\<close> is \<open>string\<close>, raw memory is a list of bytes, an integer stored in memory, on
  disk or on the wire is a word of its width; an \<^verbatim>\<open>int\<close> that is only computed with is an \<open>int\<close> where its range excludes an
  overflow. A float is its 32 bit pattern. A function that may throw returns \<open>rmdb_error + 'a\<close>; one that also changes a state is
  a computation of type \<open>('s, 'a) eff\<close> (\<^verbatim>\<open>Effects\<close>), where an exception keeps the state changes made before it. Kernel calls
  (\<^verbatim>\<open>recv\<close>, \<^verbatim>\<open>send\<close>) follow a script of events, so that a statement for all scripts covers partial transfers, interruptions
  and failures.

  \<^bold>\<open>Theories.\<close>

  \<^item> \<^verbatim>\<open>Rucbase_Prelude\<close>: machine types, results and their folds, byte orders; the locale \<open>field_codec\<close> of the wire format.
    \<^verbatim>\<open>Byte_Memory\<close>: integers in byte lists. \<^verbatim>\<open>Effects\<close>, \<^verbatim>\<open>Disk_Contract\<close>: computations, the disk manager's operations and
    their laws.

  \<^item> \<^verbatim>\<open>Common\<close> (\<^verbatim>\<open>common/*.h\<close>, \<^verbatim>\<open>record/rm_defs.h\<close>): error classes and messages, values and their raw images, records with
    their ownership of memory.

  \<^item> \<^verbatim>\<open>Wire_Codec\<close>, \<^verbatim>\<open>Wire_Transport\<close>, \<^verbatim>\<open>Wire_Client\<close> (\<^verbatim>\<open>net/wire.h\<close>, \<^verbatim>\<open>net/wire.cpp\<close>): payload formats, frames and
    handshake, the client's response loop and its table. Encoding and decoding are inverse to each other; frames arrive
    however the stream is cut; a result set is reported only for a complete response. \<^verbatim>\<open>Server_Response\<close>
    (\<^verbatim>\<open>common/wire_result.h\<close>, the \<^verbatim>\<open>send_\<close> functions of \<^verbatim>\<open>server/server.cpp\<close>): the buffer stays within its bound, and what the
    server sends is what the client rebuilds. \<^verbatim>\<open>Sql_Client\<close> (\<^verbatim>\<open>net/client.cpp\<close>, \<^verbatim>\<open>main.cpp\<close>): connecting, executing, and cutting
    the input into statements, each of which is one statement for the server's scanner.

  \<^item> \<^verbatim>\<open>Catalog\<close> (\<^verbatim>\<open>system/sm_meta.h\<close>, \<^verbatim>\<open>sm_meta.cpp\<close>): the metadata, \<open>db_ok\<close> as its invariant, the JSON image and the
    validating reader. \<^verbatim>\<open>System_Manager\<close> (\<^verbatim>\<open>system/sm_manager.cpp\<close>): databases, \<^verbatim>\<open>db.meta\<close>, SHOW and DESC, CREATE TABLE with its
    roll-back, which keeps the invariant and restores the state after a failure.

  \<^item> \<^verbatim>\<open>Record_Manager\<close> (\<^verbatim>\<open>record/\<close>): bitmap, file header, page layout. \<^verbatim>\<open>Index_Key\<close>, \<^verbatim>\<open>Index_Header\<close>, \<^verbatim>\<open>Index_Tree\<close>,
    \<^verbatim>\<open>Index_Manager\<close> (\<^verbatim>\<open>index/\<close>): key order (the locales \<open>antisym_cmp\<close> and \<open>preorder_cmp\<close>), the header page and the page
    layout, the parts of the B+ tree with a body (node view, leaf chain, separators, scan) and the index files.
    \<^verbatim>\<open>Page_Guard\<close> (\<^verbatim>\<open>storage/page.h\<close>, \<^verbatim>\<open>page_guard.cpp\<close>): page guards release exactly the pins they took. \<^verbatim>\<open>Disk_Log\<close>
    (\<^verbatim>\<open>recovery/log_manager.h\<close>, \<^verbatim>\<open>storage/disk_manager.cpp\<close>): log records, the log buffer and the log file.

  \<^item> \<^verbatim>\<open>Sql_Ast\<close>, \<^verbatim>\<open>Sql_Lexer\<close>, \<^verbatim>\<open>Sql_Grammar\<close>, \<^verbatim>\<open>Sql_Parser\<close> (\<^verbatim>\<open>parser/\<close>): syntax trees, the rules of \<^verbatim>\<open>lex.l\<close> with longest match
    and start conditions, the grammar of \<^verbatim>\<open>yacc.y\<close> as relations \<open>g_\<close> and as a parser \<open>p_\<close> that decides them (the locales
    \<open>sound_parser\<close>, \<open>complete_parser\<close>, \<open>recogniser\<close> and \<open>separated\<close>, interpreted for each nonterminal), \<^verbatim>\<open>Parse\<close> and its
    diagnostics.

  \<^item> \<^verbatim>\<open>Analyzer\<close> (\<^verbatim>\<open>analyze/\<close>): binding and typing. \<^verbatim>\<open>Planner\<close>, \<^verbatim>\<open>Plan_Semantics\<close> (\<^verbatim>\<open>optimizer/\<close>): the planner, and that a plan
    returns the rows the query denotes, for every semantics of single conditions that satisfies the locale
    \<open>condition_semantics\<close>; it is interpreted on the values of the records.

  \<^item> \<^verbatim>\<open>Insert_Executor\<close>, \<^verbatim>\<open>Executors\<close>, \<^verbatim>\<open>Portal\<close> (\<^verbatim>\<open>execution/\<close>, \<^verbatim>\<open>portal/\<close>): INSERT with its roll-back, the constructors of all
    executors, the executor tree of a plan, and the functions of \<^verbatim>\<open>Portal\<close> and \<^verbatim>\<open>QlManager\<close>. \<^verbatim>\<open>Server_Session\<close>
    (\<^verbatim>\<open>server/server.cpp\<close>): the stages of a statement, its exception handlers, the requests of a session. This theory composes
    them: a SELECT from the client's text to the client's table, and an INSERT from the client's text to the files and
    back to what the client is told.

  \<^bold>\<open>Parameters and their laws.\<close> Code without a body in the repository is an argument. What is assumed of it is a predicate
  that appears in the theorems and is shown for a concrete instance: \<open>disk_laws\<close> (which files exist changes only by creating and
  destroying; \<open>mem_ops\<close>), \<open>pool_laws\<close> (fetching and creating pins a page once, unpinning takes one pin back; \<open>mem_pool\<close>),
  \<open>store_laws\<close> (records and index entries are added one at a time, a failed insertion changes nothing, what is there can be removed;
  \<open>mem_store\<close>),
  \<open>schema_laws\<close> (an executor's columns and length are those its constructor computed; \<open>mem_exec\<close>) and \<open>yields\<close> (the tuples an
  executor returns from \<^verbatim>\<open>begin_tuple\<close> to \<^verbatim>\<open>is_end\<close>). The JSON library is represented by the two functions \<^verbatim>\<open>dump\<close> and \<^verbatim>\<open>parse\<close>,
  of which only the round trip of the one document is assumed; the texts of Bison's messages are an argument.

  \<^bold>\<open>Bounds.\<close> Loops are structural recursion or have a termination proof (\<^verbatim>\<open>read_loop\<close>, \<^verbatim>\<open>write_loop\<close> by the weight of the
  remaining events, the scanner by the length of the text). Five loops carry a number of rounds: \<open>p_scalar\<close>, called with the
  number of tokens, which the completeness lemma shows to be enough; \<open>update_ancestor_keys\<close>, where one round for each
  ancestor and one for the root are enough; \<open>scan_all\<close>, where more rounds than there are entries are enough; \<open>tuple_loop\<close>,
  where more rounds than there are tuples are enough; and \<open>request_loop\<close>, where more rounds than the weight of the input are
  enough. Each of these is proved, so that a result is produced and not only correct if
  produced.

  \<^bold>\<open>Not modelled.\<close> The bodies that are exercises of the course: the replacer, the buffer pool's fetch, unpin, new, flush and
  delete, the disk manager's page and file operations, \<^verbatim>\<open>RmFileHandle\<close> and \<^verbatim>\<open>RmScan\<close>, search, insertion, deletion, split and
  merge of the B+ tree, the iterators of the executors other than INSERT, opening and closing a database, dropping tables,
  creating and dropping indexes, transactions, locks, flushing the log and recovery; the server's \<^verbatim>\<open>prepare_transaction\<close>, whose
  call is commented out. Operating system and third party code: sockets, threads and their interleaving on the shared
  objects, signals, \<^verbatim>\<open>getopt\<close>, the banner, nlohmann's JSON, the tables Bison and Flex generate and the bound of Bison's stack.
  Memory exhaustion is not modelled.
\<close>

section \<open>A SELECT from the client's text to the client's table\<close>

text \<open>The table the client shows for the tuples of a SELECT.\<close>

definition select_columns :: "ColMeta list \<Rightarrow> ColumnDef list" where
  "select_columns cols = map (\<lambda>c. wire_column \<lparr>wcol_name = cm_name c, wcol_type = cm_type c\<rparr>) cols"

definition select_cells :: "ColMeta list \<Rightarrow> byte list \<Rightarrow> Cell list" where
  "select_cells cols t = map cell_view (map2 wire_cell (select_columns cols) (decode_row cols t))"

lemma select_result_parts:
  "map wire_column (rs_columns (select_result cols ts)) = select_columns cols"
  "rs_rows (select_result cols ts) = map (decode_row cols) ts"
  "send_statement_result c (select_result cols ts) = send_query_result c (select_result cols ts)"
  by (simp_all add: select_result_def Let_def select_columns_def send_statement_result_def comp_def)

lemma select_result_rows: "check_rows (rs_columns (select_result cols ts)) (rs_rows (select_result cols ts)) = None"
proof -
  have "wcell_type (decode_cell t c) = cm_type c" for t c by (cases "cm_type c") (simp_all add: decode_cell_def Let_def)
  then have "check_rows (map (\<lambda>c. \<lparr>wcol_name = cm_name c, wcol_type = cm_type c\<rparr>) cols) (map (decode_row cols) ts) = None"
    by (induction ts) (simp_all add: decode_row_def comp_def)
  then show ?thesis by (simp add: select_result_def Let_def)
qed

lemma query_response:
  assumes "send_query_result s rs = (True, s')" "check_rows (rs_columns rs) (rs_rows rs) = None"
    and "TryEncodeMeta (map wire_column (rs_columns rs)) = Inr meta"
    and "outbox s' = outbox s @ out" "0 \<le> fd c" "clean_sends (sends c)" "clean (inbox c)" "stream (inbox c) = out @ rest"
    and "sql \<noteq> []" "length sql \<le> kMaxPayloadBytes"
  shows "\<exists>c'. ExecStreamResult err c sql (plain_options True) =
      (\<lparr>status = ResultSet, columns = map wire_column (rs_columns rs), row_count = of_nat (length (rs_rows rs)),
        result_text = table_text (map wire_column (rs_columns rs))
          (map (\<lambda>row. map cell_view (map2 wire_cell (map wire_column (rs_columns rs)) row)) (rs_rows rs)),
        diagnostic = []\<rparr>, c') \<and> stream (inbox c') = rest"
proof -
  from send_query_True [OF assms(1-3)] obtain ps where
    f: "outbox s' = outbox s @ frames_image (meta_frame 0 meta # map row_frame ps @ [end_frame (of_nat (length (rs_rows rs)))])"
    "\<forall>f\<in>set (meta_frame 0 meta # map row_frame ps @ [end_frame (of_nat (length (rs_rows rs)))]). legal_frame f"
    and d: "list_all2 (\<lambda>p row. DecodeRow (map wire_column (rs_columns rs)) p = Inr row) ps
      (map (\<lambda>row. map cell_view (map2 wire_cell (map wire_column (rs_columns rs)) row)) (rs_rows rs))" by blast
  have "stream (inbox c) = frames_image (meta_frame 0 meta # map row_frame ps @ [end_frame (of_nat (length (rs_rows rs)))]) @ rest"
    using assms(4,8) f(1) by simp
  from ExecStreamResult_frames [OF assms(5-7) this assms(9,10) run_query [OF assms(3) d, of True, unfolded length_map] f(2)]
  show ?thesis by auto
qed

text \<open>The server's half: the request is handled and the result set sent is the decoding of the tuples.\<close>

lemma select_handled:
  assumes "schema_laws (lab_exec L)" "db_ok (sm_db (k_sm (ss_kernel s)))"
    and "Parse message sql = \<lparr>statement = Some (Select sel), parse_error = None\<rparr>" "sql \<noteq> []"
    and "analyze (sm_db (k_sm (ss_kernel s))) (Some (Select sel)) = Inr q" "distinct (bound_tables q)"
    and "\<forall>t\<in>set (bound_tables q). sm_fhs (k_sm (ss_kernel s)) t \<noteq> None"
  shows "\<exists>root cols. map (\<lambda>c. (cm_tab c, cm_name c)) cols = map (\<lambda>tc. (tab_name tc, col_name tc)) (bound_cols q) \<and>
    packed 0 cols \<and> (\<forall>c\<in>set cols. catalog_col (sm_db (k_sm (ss_kernel s))) c) \<and>
    (\<forall>ts d1 d2. m_begin_tuple (lab_exec L) root (sm_disk (k_sm (ss_kernel s))) = (Inr (), d1) \<longrightarrow>
      yields (lab_exec L) root ts d1 d2 \<longrightarrow> length ts < n \<longrightarrow> buffered_bytes (select_result cols ts) \<le> kMaxBufferedBytes \<longrightarrow>
      (\<exists>ok s'. handle_request L E n message \<lparr>frame_tag = kTagExecStream, frame_flags = 0, frame_payload = sql\<rparr> s = Some (Inr ok, s') \<and>
        send_query_result (ss_conn s) (select_result cols ts) = (ok, ss_conn s')))"
proof -
  let ?db = "sm_db (k_sm (ss_kernel s))" and ?rq = "start_request s"
  have sm: "sm_of ?rq = k_sm (ss_kernel s)" by (simp add: start_request_def)
  obtain p st root cols where
    p: "plan_query ?db (k_sortmerge (ss_kernel s)) q = Inr p" and st: "portal_start L n p ?rq = Some (Inr st, ?rq)"
    and cols: "packed 0 cols" "\<forall>c\<in>set cols. catalog_col ?db c"
    "map (\<lambda>c. (cm_tab c, cm_name c)) cols = map (\<lambda>tc. (tab_name tc, col_name tc)) (bound_cols q)"
    and run: "\<forall>ts d1 d2. m_begin_tuple (lab_exec L) root (sm_disk (k_sm (ss_kernel s))) = (Inr (), d1) \<longrightarrow> yields (lab_exec L) root ts d1 d2 \<longrightarrow>
      length ts < n \<longrightarrow> (\<exists>r rq'. portal_run L E n st ?rq = Some (r, rq') \<and>
        (r = Inr () \<longleftrightarrow> buffered_bytes (select_result cols ts) \<le> kMaxBufferedBytes) \<and>
        (r = Inr () \<longrightarrow> rq_result rq' = select_result cols ts))"
    using select_executed [OF assms(1,2,5,6), where rq = ?rq and sortmerge = "k_sortmerge (ss_kernel s)" and n = n and E = E, unfolded sm, OF refl assms(7)]
    by (elim exE conjE) (rule that)
  have "\<exists>ok s'. handle_request L E n message \<lparr>frame_tag = kTagExecStream, frame_flags = 0, frame_payload = sql\<rparr> s = Some (Inr ok, s') \<and>
      send_query_result (ss_conn s) (select_result cols ts) = (ok, ss_conn s')"
    if "portal_run L E n st ?rq = Some (Inr (), rq')" "rq_result rq' = select_result cols ts" for ts rq'
  proof -
    have "execute_stages L E n message sql ?rq = Some (Inr Statement_result, rq')"
      using assms(3,5) p st that(1) by (simp add: execute_stages_def parse_ok_def sm start_request_def del: bindE_Inr_iff)
    then show ?thesis using assms(4) that(2)
      by (cases "send_query_result (ss_conn s) (select_result cols ts)")
        (simp add: handle_request_def execute_sql_def respond_def end_request_def select_result_parts)
  qed
  then show ?thesis
    using run cols by (intro exI [of _ root] exI [of _ cols] conjI allI impI) (simp, simp, simp, metis)
qed


text \<open>One tuple of the table \<^verbatim>\<open>t(id INT, name CHAR(8))\<close>, selected by a text, and the bytes of the server's response.\<close>

definition select_words :: "string list" where
  "select_words = [''select'', ''*'', ''from'', ''t'', ''where'', ''name'', ''='', [QUOTE, CHR ''a'', CHR ''b'', QUOTE], '';'']"

definition select_tokens :: "token list" where
  "select_tokens = [SELECT, Op CHR ''*'', FROM, IDENTIFIER ''t'', WHERE, IDENTIFIER ''name'', Op CHR ''='', VALUE_STRING ''ab'', Op CHR '';'']"

definition select_tuple :: "byte list" where
  "select_tuple = [7, 0, 0, 0, 97, 98, 0, 0, 0, 0, 0, 0]"

definition select_meta :: string where
  "select_meta = [CHR 0x00, CHR 0x02, CHR 0x00, CHR 0x02, CHR ''i'', CHR ''d'', CHR 0x01, CHR 0x00, CHR 0x04, CHR ''n'', CHR ''a'', CHR ''m'', CHR ''e'', CHR 0x03]"

definition select_response :: string where
  "select_response =
     [CHR 0x00, CHR 0x00, CHR 0x00, CHR 0x0E, CHR 0x01, CHR 0x00, CHR 0x00, CHR 0x00] @ select_meta @
     [CHR 0x00, CHR 0x00, CHR 0x00, CHR 0x0C, CHR 0x02, CHR 0x00, CHR 0x00, CHR 0x00,
      CHR 0x01, CHR 0x00, CHR 0x00, CHR 0x00, CHR 0x07, CHR 0x01, CHR 0x00, CHR 0x00, CHR 0x00, CHR 0x02, CHR ''a'', CHR ''b'',
      CHR 0x00, CHR 0x00, CHR 0x00, CHR 0x08, CHR 0x11, CHR 0x00, CHR 0x00, CHR 0x00,
      CHR 0x00, CHR 0x00, CHR 0x00, CHR 0x00, CHR 0x00, CHR 0x00, CHR 0x00, CHR 0x01]"

lemma select_words_parsed: "Parse message (spell select_words) = \<lparr>statement = Some (Select sample_select), parse_error = None\<rparr>"
proof -
  have "g_start select_tokens (Select sample_select)"
    unfolding yyparse_start [symmetric]
    by (simp add: yyparse_def p_select_list_def p_from_tree_def p_chain_def join_sep_def p_optional_where_def p_predicate_def
        and_sep_def p_comparison_def p_column_reference_def p_comparison_operand_def p_column_expr_def table_ref_def
        p_optional_order_by_def select_tokens_def sample_select_def)
  moreover have "list_all2 spells select_tokens select_words" by code_simp
  moreover have "NUL \<notin> set (spell select_words)" "length (spell select_words) \<le> INT_MAX"
    by (simp_all add: spell_def select_words_def INT_MAX_def NUL_def QUOTE_def)
  ultimately show ?thesis using Parse_cases [OF scan_spell, of select_tokens select_words "Select sample_select" message] by simp
qed

lemma sample_columns:
  assumes "map (\<lambda>c. (cm_tab c, cm_name c)) cols = [(''t'', ''id''), (''t'', ''name'')]" "packed 0 cols" "\<forall>c\<in>set cols. catalog_col sample_db c"
  shows "\<exists>b1 b2. cols = [\<lparr>cm_tab = ''t'', cm_name = ''id'', cm_type = TYPE_INT, cm_len = 4, cm_offset = 0, cm_index = b1\<rparr>,
    \<lparr>cm_tab = ''t'', cm_name = ''name'', cm_type = TYPE_STRING, cm_len = 8, cm_offset = 4, cm_index = b2\<rparr>]"
proof -
  obtain c1 c2 where c: "cols = [c1, c2]" using assms(1) by (auto simp: map_eq_Cons_conv)
  have "get_table sample_db ''t'' = Inr sample_table" by (simp add: get_table_def sample_db_def)
  then show ?thesis using assms unfolding c
    by (cases c1; cases c2) (auto simp: catalog_col_def get_col_def sample_table_def Let_def)
qed

text \<open>What the server sends for the tuple, and the table's columns and cells at the client.\<close>

definition select_view :: "ColumnDef list \<times> Cell list" where
  "select_view =
     ([\<lparr>col_label = ''id'', col_sql_type = kTypeInt32\<rparr>, \<lparr>col_label = ''name'', col_sql_type = kTypeChar\<rparr>],
      [Cell_default\<lparr>cell_type := kTypeInt32, int_val := 7\<rparr>, Cell_default\<lparr>cell_type := kTypeChar, cell_str := ''ab''\<rparr>])"

lemma sample_decoded:
  assumes "cols = [\<lparr>cm_tab = ''t'', cm_name = ''id'', cm_type = TYPE_INT, cm_len = 4, cm_offset = 0, cm_index = b1\<rparr>,
    \<lparr>cm_tab = ''t'', cm_name = ''name'', cm_type = TYPE_STRING, cm_len = 8, cm_offset = 4, cm_index = b2\<rparr>]"
  shows "decode_row cols select_tuple = [\<lparr>wcell_type = TYPE_INT, wcell_int = 7, wcell_float = 0, wcell_str = []\<rparr>,
      \<lparr>wcell_type = TYPE_STRING, wcell_int = 0, wcell_float = 0, wcell_str = ''ab''\<rparr>]"
    and "select_columns cols = fst select_view" and "select_cells cols select_tuple = snd select_view"
    and "TryEncodeMeta (select_columns cols) = Inr select_meta"
    and "buffered_bytes (select_result cols [select_tuple]) \<le> kMaxBufferedBytes"
    and "send_query_result (ss_conn sample_session) (select_result cols [select_tuple]) =
      (True, (ss_conn sample_session)\<lparr>sends := [], outbox := select_response\<rparr>)"
proof -
  have "load_i32 [7, 0, 0, 0, 97, 98, 0, 0, 0, 0, 0, 0] = 7" by code_simp
  moreover have "map char_of_byte [97, 98] = ''ab''" by code_simp
  ultimately show d: "decode_row cols select_tuple = [\<lparr>wcell_type = TYPE_INT, wcell_int = 7, wcell_float = 0, wcell_str = []\<rparr>,
      \<lparr>wcell_type = TYPE_STRING, wcell_int = 0, wcell_float = 0, wcell_str = ''ab''\<rparr>]"
    unfolding assms by (simp add: decode_row_def decode_cell_def select_tuple_def Let_def)
  show c: "select_columns cols = fst select_view"
    unfolding assms by (simp add: select_columns_def select_view_def wire_column_def wire_type_def)
  show "select_cells cols select_tuple = snd select_view"
    unfolding select_cells_def d c by (simp add: select_view_def wire_cell_def cell_view_def wire_types Cell_default_def)
  show "TryEncodeMeta (select_columns cols) = Inr select_meta"
    unfolding c by (simp add: select_view_def select_meta_def wire_eval)
  show "buffered_bytes (select_result cols [select_tuple]) \<le> kMaxBufferedBytes"
    unfolding select_result_def Let_def by (simp add: d [unfolded assms] assms columns_bytes_def rows_bytes_def row_bytes_def kMaxBufferedBytes_def
        sizeof_WireResultColumn_def sizeof_row_vector_def sizeof_WireResultCell_def)
  show "send_query_result (ss_conn sample_session) (select_result cols [select_tuple]) =
      (True, (ss_conn sample_session)\<lparr>sends := [], outbox := select_response\<rparr>)"
    unfolding select_result_def Let_def
    by (simp add: d [unfolded assms] assms sample_session_def select_response_def select_meta_def send_query_result_def wire_eval)
qed

lemma sample_setup:
  "schema_laws (lab_exec sample_lab)" "db_ok (sm_db (k_sm (ss_kernel sample_session)))" "spell select_words \<noteq> []"
  "analyze (sm_db (k_sm (ss_kernel sample_session))) (Some (Select sample_select)) = Inr sample_query" "distinct (bound_tables sample_query)"
  "\<forall>t\<in>set (bound_tables sample_query). sm_fhs (k_sm (ss_kernel sample_session)) t \<noteq> None"
  "m_begin_tuple (lab_exec sample_lab) root (sm_disk (k_sm (ss_kernel sample_session))) = (Inr (), [select_tuple])"
  "yields (lab_exec sample_lab) root [select_tuple] [select_tuple] []"
  using mem_exec_laws mem_exec_yields sample_db_ok sample_analyze
  by (simp_all add: sample_lab_def sample_session_def sample_rq_def sample_query_def sample_fhs_def select_tuple_def mem_exec_def retS_def
      spell_def select_words_def)

lemma sample_bound:
  "map (\<lambda>c. (cm_tab c, cm_name c)) cols = map (\<lambda>tc. (tab_name tc, col_name tc)) (bound_cols sample_query) \<Longrightarrow> packed 0 cols \<Longrightarrow>
   \<forall>c\<in>set cols. catalog_col (sm_db (k_sm (ss_kernel sample_session))) c \<Longrightarrow>
   \<exists>b1 b2. cols = [\<lparr>cm_tab = ''t'', cm_name = ''id'', cm_type = TYPE_INT, cm_len = 4, cm_offset = 0, cm_index = b1\<rparr>,
     \<lparr>cm_tab = ''t'', cm_name = ''name'', cm_type = TYPE_STRING, cm_len = 8, cm_offset = 4, cm_index = b2\<rparr>]"
  using sample_columns [of cols] by (simp add: sample_query_def sample_session_def sample_rq_def tab_col_def)

lemma sample_handled:
  "\<exists>s'. handle_request sample_lab E 5 message \<lparr>frame_tag = kTagExecStream, frame_flags = 0, frame_payload = spell select_words\<rparr> sample_session =
     Some (Inr True, s') \<and> outbox (ss_conn s') = select_response"
proof -
  obtain root cols where
    c: "map (\<lambda>c. (cm_tab c, cm_name c)) cols = map (\<lambda>tc. (tab_name tc, col_name tc)) (bound_cols sample_query)"
    "packed 0 cols" "\<forall>c\<in>set cols. catalog_col (sm_db (k_sm (ss_kernel sample_session))) c"
    and h: "\<forall>ts d1 d2. m_begin_tuple (lab_exec sample_lab) root (sm_disk (k_sm (ss_kernel sample_session))) = (Inr (), d1) \<longrightarrow>
      yields (lab_exec sample_lab) root ts d1 d2 \<longrightarrow> length ts < 5 \<longrightarrow> buffered_bytes (select_result cols ts) \<le> kMaxBufferedBytes \<longrightarrow>
      (\<exists>ok s'. handle_request sample_lab E 5 message \<lparr>frame_tag = kTagExecStream, frame_flags = 0, frame_payload = spell select_words\<rparr> sample_session =
        Some (Inr ok, s') \<and> send_query_result (ss_conn sample_session) (select_result cols ts) = (ok, ss_conn s'))"
    using select_handled [OF sample_setup(1,2) select_words_parsed [of message] sample_setup(3-6), where n = 5 and E = E]
    by (elim exE conjE) (rule that)
  from sample_bound [OF c] obtain b1 b2 where
    cols: "cols = [\<lparr>cm_tab = ''t'', cm_name = ''id'', cm_type = TYPE_INT, cm_len = 4, cm_offset = 0, cm_index = b1\<rparr>,
     \<lparr>cm_tab = ''t'', cm_name = ''name'', cm_type = TYPE_STRING, cm_len = 8, cm_offset = 4, cm_index = b2\<rparr>]" by blast
  from h [rule_format, OF sample_setup(7,8) _ sample_decoded(5) [OF cols]] obtain ok s' where
    "handle_request sample_lab E 5 message \<lparr>frame_tag = kTagExecStream, frame_flags = 0, frame_payload = spell select_words\<rparr> sample_session =
      Some (Inr ok, s')" "(ok, ss_conn s') = (True, (ss_conn sample_session)\<lparr>sends := [], outbox := select_response\<rparr>)"
    unfolding sample_decoded(6) [OF cols] by auto
  then show ?thesis by (intro exI [of _ s']) simp
qed


section \<open>An INSERT from the client's text to the files\<close>

text \<open>From \<open>v\<close> to \<open>v'\<close> one record was added to the file at a free position, and its entry to each index of the table.\<close>

definition row_inserted :: "int \<Rightarrow> string \<Rightarrow> TabMeta \<Rightarrow> byte list \<Rightarrow> store_view \<Rightarrow> store_view \<Rightarrow> bool" where
  "row_inserted file tab t img v v' \<longleftrightarrow>
     (\<exists>rid. v_records v file rid = None \<and> v_records v' = (v_records v)(file := (v_records v file)(rid \<mapsto> img)) \<and>
       (\<forall>ih. v_entries v' ih = v_entries v ih +
         {#(make_key ix img, rid). ix \<in># mset (filter (\<lambda>ix. index_file tab ix = ih) (tm_indexes t))#}))"

lemma insert_planned:
  assumes "db_ok db" "analyze db (Some (InsertStmt tab vals)) = Inr q" "get_table db tab = Inr t" "fhs tab = Some fh"
  shows "plan_query db sm q = Inr (InsertPlan tab (bound_values q))"
    and "InsertExecutor_make db fhs tab (bound_values q) = Inr \<lparr>ins_tab = t, ins_values = bound_values q, ins_fh = fh, ins_tab_name = tab\<rparr>"
proof -
  from assms(2) have a: "analyze_insert db tab vals (AnalyzedQuery_make (InsertStmt tab vals)) = Inr q" by (simp add: analyze_def)
  then have q: "bound_statement q = InsertStmt tab vals" "bound_target_table q = tm_name t"
    using assms(3) by (auto simp: analyze_insert_def AnalyzedQuery_make_def split: if_splits)
  have t: "tm_name t = tab" "tm_cols t \<noteq> []" using db_ok_table [OF assms(1,3)] by (auto simp: tab_ok_def cols_ok_def)
  then have "tab \<noteq> []" using db_ok_col_tab [OF assms(1,3), of "hd (tm_cols t)"] by simp
  then show "plan_query db sm q = Inr (InsertPlan tab (bound_values q))"
    using q t(1) by (simp add: plan_query_def do_planner_def)
  have "length (bound_values q) = length (tm_cols t)" using analyze_insert_fits [OF a] assms(3) by (auto dest: list_all2_lengthD)
  then show "InsertExecutor_make db fhs tab (bound_values q) = Inr \<lparr>ins_tab = t, ins_values = bound_values q, ins_fh = fh, ins_tab_name = tab\<rparr>"
    using assms(3,4) by (simp add: InsertExecutor_make_def del: bindE_Inr_iff)
qed

lemma insert_runs:
  assumes "db_ok (sm_db (sm_of rq))" "Parse message sql = \<lparr>statement = Some (InsertStmt tab vals), parse_error = None\<rparr>"
    and "analyze (sm_db (sm_of rq)) (Some (InsertStmt tab vals)) = Inr q" "get_table (sm_db (sm_of rq)) tab = Inr t" "sm_fhs (sm_of rq) tab = Some fh"
    and "insert_next (lab_store L) (k_indexes (rq_kernel rq)) (se_heap E)
      \<lparr>ins_tab = t, ins_values = bound_values q, ins_fh = fh, ins_tab_name = tab\<rparr> (sm_disk (sm_of rq)) = (r, d')"
  shows "execute_stages L E n message sql rq = Some (case r of Inl e \<Rightarrow> Inl e | Inr _ \<Rightarrow> Inr Statement_result, set_disk d' rq)"
  using assms(2,3,6) insert_planned [where fhs = "sm_fhs (sm_of rq)", OF assms(1,3-5)]
  by (cases r) (simp_all add: execute_stages_def parse_ok_def portal_start_def portal_run_def run_dml_def thenS_def bindS_def retS_def
      on_store_eq del: bindE_Inr_iff)

lemma insert_stages:
  assumes "store_laws (lab_store L) view" "db_ok (sm_db (sm_of rq))"
    and "Parse message sql = \<lparr>statement = Some (InsertStmt tab vals), parse_error = None\<rparr>"
    and "analyze (sm_db (sm_of rq)) (Some (InsertStmt tab vals)) = Inr q" "get_table (sm_db (sm_of rq)) tab = Inr t"
    and "sm_fhs (sm_of rq) tab = Some fh" "sint (record_size (fh_hdr fh)) = sum_list (map cm_len (tm_cols t))" "512 \<le> length (se_heap E)"
  shows "\<exists>x d'. execute_stages L E n message sql rq = Some (x, set_disk d' rq) \<and>
    (case x of Inl e \<Rightarrow> view d' = view (sm_disk (sm_of rq))
     | Inr reply \<Rightarrow> reply = Statement_result \<and>
         row_inserted (fh_fd fh) tab t (image_of (bound_values q)) (view (sm_disk (sm_of rq))) (view d'))"
proof -
  let ?x = "\<lparr>ins_tab = t, ins_values = bound_values q, ins_fh = fh, ins_tab_name = tab\<rparr>"
  obtain r d' where n: "insert_next (lab_store L) (k_indexes (rq_kernel rq)) (se_heap E) ?x (sm_disk (sm_of rq)) = (r, d')" by fastforce
  have "case r of Inl e \<Rightarrow> view d' = view (sm_disk (sm_of rq))
      | Inr rid \<Rightarrow> row_inserted (fh_fd fh) tab t (image_of (bound_values q)) (view (sm_disk (sm_of rq))) (view d')"
    using insert_atomic [OF assms(1,2,4) insert_planned(2) [where fhs = "sm_fhs (sm_of rq)", OF assms(2,4-6)] _ assms(8) n] assms(7)
    by (auto simp: row_inserted_def split: sum.splits)
  then show ?thesis using insert_runs [OF assms(2-6) n] by (cases r) auto
qed

text \<open>Without an open transaction the response tells what the statement did.\<close>

lemma insert_answered:
  assumes "execute_stages L E n message sql (start_request s) = Some (x, set_disk d' (start_request s))"
    and "case x of Inl e \<Rightarrow> \<not> inserted | Inr rep \<Rightarrow> rep = Statement_result \<and> inserted" "get_transaction (ss_txn_id s) (ss_kernel s) = None"
  shows "\<exists>res s'. execute_sql L E n message sql s = Some (res, s') \<and>
    ss_kernel s' = (ss_kernel s)\<lparr>k_sm := (k_sm (ss_kernel s))\<lparr>sm_disk := d'\<rparr>\<rparr> \<and>
    (res = Inr True \<longrightarrow> (\<exists>r. one_response fmt (ss_conn s) (ss_conn s') r \<and> (status r = CommandOk \<longleftrightarrow> inserted)))"
proof -
  let ?q = "set_disk d' (start_request s)"
  have idle: "rq_txn ?q = None" "get_transaction (rq_txn_id ?q) (rq_kernel ?q) = None" "rq_result ?q = WireResultSet_empty"
    "\<And>c. ss_kernel (end_request c ?q) = (ss_kernel s)\<lparr>k_sm := (k_sm (ss_kernel s))\<lparr>sm_disk := d'\<rparr>\<rparr>"
    using assms(3) by (simp_all add: set_disk_def start_request_def end_request_def get_transaction_def split: if_splits)
  show ?thesis
  proof (cases x)
    case (Inr rep)
    then show ?thesis using assms(1,2) idle(3,4) command_response [of "ss_conn s" _ fmt]
      by (cases "send_statement_result (ss_conn s) WireResultSet_empty") (auto simp: execute_sql_def respond_def end_request_def)
  next
    case (Inl e)
    show ?thesis
    proof (cases "e = AssertionFailure")
      case True
      then show ?thesis using assms(1) Inl idle(4) by (simp add: execute_sql_def handle_exception_def)
    next
      case False
      from idle_exception [OF idle(1,2) False, of L "ss_conn s"] show ?thesis
        using assms(1,2) Inl idle(4) by (auto simp: execute_sql_def end_request_def)
    qed
  qed
qed


text \<open>The row \<^verbatim>\<open>(7, 'ab')\<close> whose key is already in the unique index on \<^verbatim>\<open>id\<close>.\<close>

definition insert_words :: "string list" where
  "insert_words = [''insert'', ''into'', ''t'', ''values'', ''('', ''7'', '','', [QUOTE, CHR ''a'', CHR ''b'', QUOTE], '')'', '';'']"

definition insert_tokens :: "token list" where
  "insert_tokens = [INSERT, INTO, IDENTIFIER ''t'', VALUES, Op CHR ''('', VALUE_INT 7, Op CHR '','', VALUE_STRING ''ab'', Op CHR '')'', Op CHR '';'']"

definition insert_lab :: "(store_view \<times> int) lab_ops" where
  "insert_lab = \<lparr>
     lab_store = mem_store,
     lab_exec = \<lparr>m_tuple_len = mem_len, m_cols = mem_cols, m_begin_tuple = (\<lambda>e. retS ()), m_next_tuple = (\<lambda>e. retS ()),
       m_is_end = (\<lambda>e. retS True), m_rid = (\<lambda>e. retS Rid_default), m_next = (\<lambda>e. retS [])\<rparr>,
     drop_table_op = (\<lambda>tab. throwS (NotImplementedError ''SmManager::drop_table (Lab 3)'')),
     create_index_op = (\<lambda>tab cols unique. throwS (NotImplementedError ''SmManager::create_index (Lab 3)'')),
     drop_index_op = (\<lambda>tab cols. throwS (NotImplementedError ''SmManager::drop_index (Lab 3)'')),
     commit_op = (\<lambda>t. retS ()), abort_op = (\<lambda>t. retS ())\<rparr>"

definition insert_session :: "(store_view \<times> int) session" where
  "insert_session = \<lparr>
     ss_kernel = \<lparr>k_sm = \<lparr>sm_db = sample_db, sm_fhs = sample_fhs, sm_meta = None, sm_disk = (sample_store, 0)\<rparr>,
       k_indexes = (\<lambda>_. True), k_sortmerge = False, k_txns = Map.empty\<rparr>,
     ss_txn_id = INVALID_TXN_ID, ss_conn = \<lparr>fd = 3, inbox = [], sends = [], outbox = []\<rparr>\<rparr>"

definition duplicate_response :: string where
  "duplicate_response = [CHR 0x00, CHR 0x00, CHR 0x00, CHR 0x25, CHR 0x13, CHR 0x00, CHR 0x00, CHR 0x00] @ ''Error: Duplicate key on unique index\<newline>''"

lemma insert_words_parsed:
  "Parse message (spell insert_words) = \<lparr>statement = Some (InsertStmt ''t'' [Some (IntLit 7), Some (StringLit ''ab'')]), parse_error = None\<rparr>"
proof -
  have "g_start insert_tokens (InsertStmt ''t'' [Some (IntLit 7), Some (StringLit ''ab'')])"
    unfolding yyparse_start [symmetric] by (simp add: yyparse_def p_parens_def p_chain_def comma_def insert_tokens_def)
  moreover have "list_all2 spells insert_tokens insert_words" by code_simp
  moreover have "NUL \<notin> set (spell insert_words)" "length (spell insert_words) \<le> INT_MAX"
    by (simp_all add: spell_def insert_words_def INT_MAX_def NUL_def QUOTE_def)
  ultimately show ?thesis using Parse_cases [OF scan_spell, of insert_tokens insert_words _ message] by simp
qed

lemma duplicate_sent:
  "send_error (ss_conn insert_session) (what DuplicateKeyError) = (True, (ss_conn insert_session)\<lparr>outbox := duplicate_response\<rparr>)"
  by (simp add: insert_session_def duplicate_response_def send_error_def Let_def rmdb_message_def wire_eval)

lemma insert_setup:
  "store_laws (lab_store insert_lab) fst" "db_ok (sm_db (k_sm (ss_kernel insert_session)))" "spell insert_words \<noteq> []"
  "length (spell insert_words) \<le> kMaxPayloadBytes" "get_table (sm_db (k_sm (ss_kernel insert_session))) ''t'' = Inr sample_table"
  "sm_fhs (k_sm (ss_kernel insert_session)) ''t'' = Some \<lparr>fh_fd = 3, fh_hdr = new_file_hdr 12\<rparr>"
  "sint (record_size (fh_hdr \<lparr>fh_fd = 3, fh_hdr = new_file_hdr 12\<rparr>)) = sum_list (map cm_len (tm_cols sample_table))"
  "get_transaction (ss_txn_id insert_session) (ss_kernel insert_session) = None"
proof -
  show "store_laws (lab_store insert_lab) fst" unfolding insert_lab_def by (simp add: mem_store_laws)
  show "db_ok (sm_db (k_sm (ss_kernel insert_session)))" unfolding insert_session_def by (simp add: sample_db_ok)
  show "spell insert_words \<noteq> []" by (simp add: spell_def insert_words_def)
  show "length (spell insert_words) \<le> kMaxPayloadBytes" by (simp add: spell_def insert_words_def kMaxPayloadBytes_def)
  show "get_table (sm_db (k_sm (ss_kernel insert_session))) ''t'' = Inr sample_table"
    unfolding insert_session_def by (simp add: get_table_def sample_db_def)
  show "sm_fhs (k_sm (ss_kernel insert_session)) ''t'' = Some \<lparr>fh_fd = 3, fh_hdr = new_file_hdr 12\<rparr>"
    unfolding insert_session_def by (simp add: sample_fhs_def)
  have "sint (record_size (new_file_hdr 12)) = 12" by (simp add: new_file_hdr_def Let_def case_prod_beta)
  then show "sint (record_size (fh_hdr \<lparr>fh_fd = 3, fh_hdr = new_file_hdr 12\<rparr>)) = sum_list (map cm_len (tm_cols sample_table))"
    by (simp add: sample_table_def Let_def)
  show "get_transaction (ss_txn_id insert_session) (ss_kernel insert_session) = None"
    unfolding insert_session_def by (simp add: get_transaction_def)
qed

text \<open>The content of the new record's buffer before it is filled.\<close>

definition insert_heap :: "byte list" where
  "insert_heap = replicate 512 9"

lemma length_insert_heap: "length insert_heap = 512"
  by (simp only: insert_heap_def length_replicate)

lemma duplicate_refused:
  obtains d1 where "insert_next mem_store (\<lambda>_. True) insert_heap
     \<lparr>ins_tab = sample_table, ins_values = sample_values, ins_fh = \<lparr>fh_fd = 3, fh_hdr = new_file_hdr 12\<rparr>, ins_tab_name = ''t''\<rparr>
     (sample_store, 0) = (Inl DuplicateKeyError, d1)"
proof (rule that)
  let ?r = "insert_next mem_store (\<lambda>_. True) insert_heap
     \<lparr>ins_tab = sample_table, ins_values = sample_values, ins_fh = \<lparr>fh_fd = 3, fh_hdr = new_file_hdr 12\<rparr>, ins_tab_name = ''t''\<rparr>
     (sample_store, 0)"
  show "?r = (Inl DuplicateKeyError, snd ?r)" by (rule prod_eqI) (simp_all only: fst_conv snd_conv sample_duplicate [folded insert_heap_def])
qed

lemma duplicate_handled:
  assumes "analyze sample_db (Some (InsertStmt ''t'' [Some (IntLit 7), Some (StringLit ''ab'')])) = Inr q" "bound_values q = sample_values"
    and "se_heap E = insert_heap"
  shows "\<exists>s'. handle_request insert_lab E n message \<lparr>frame_tag = kTagExecStream, frame_flags = 0, frame_payload = spell insert_words\<rparr> insert_session =
    Some (Inr True, s') \<and> outbox (ss_conn s') = duplicate_response"
proof -
  let ?rq = "start_request insert_session"
  have sm: "sm_of ?rq = k_sm (ss_kernel insert_session)" by (simp add: start_request_def)
  have k: "sm_db (sm_of ?rq) = sample_db" "lab_store insert_lab = mem_store" "k_indexes (rq_kernel ?rq) = (\<lambda>_. True)"
    "sm_disk (sm_of ?rq) = (sample_store, 0)"
    by (simp_all add: insert_session_def insert_lab_def start_request_def)
  obtain d1 where d: "insert_next (lab_store insert_lab) (k_indexes (rq_kernel ?rq)) (se_heap E)
      \<lparr>ins_tab = sample_table, ins_values = bound_values q, ins_fh = \<lparr>fh_fd = 3, fh_hdr = new_file_hdr 12\<rparr>, ins_tab_name = ''t''\<rparr>
      (sm_disk (sm_of ?rq)) = (Inl DuplicateKeyError, d1)"
    unfolding k assms(2,3) by (rule duplicate_refused)
  have "execute_stages insert_lab E n message (spell insert_words) ?rq = Some (Inl DuplicateKeyError, set_disk d1 ?rq)"
    using insert_runs [where rq = ?rq, OF _ insert_words_parsed _ _ _ d] insert_setup(2,5,6) assms(1) unfolding sm [symmetric] k(1) by simp
  moreover have "cleanup_failed_request insert_lab (set_disk d1 ?rq) = (Inr (), set_disk d1 ?rq)"
    by (simp add: cleanup_failed_request_def set_disk_def start_request_def insert_session_def get_transaction_def retS_def)
  ultimately show ?thesis using duplicate_sent insert_setup(3)
    by (simp add: handle_request_def execute_sql_def handle_exception_def respond_def end_request_def)
qed

lemma row_inserted_changes: "\<not> row_inserted file tab t img v v"
  unfolding row_inserted_def by (metis fun_upd_same option.distinct(1))


end
